(* ===== verification/Prelude.thy ===== *)
theory Prelude
  imports Main "HOL-Library.Word" "HOL-Library.AList" "HOL-Library.Sublist"
begin

text \<open>
  Shared vocabulary of the development: the machine types of a 64-bit target, the results
  of fallible Rust code, insertion-ordered maps (the \<open>IndexMap\<close> of the registry), the
  operations of \<open>str\<close> the sources use, and the rule collections the components extend.

  A Rust \<open>&str\<close> is its UTF-8 byte sequence, a \<^typ>\<open>string\<close>; every separator the sources
  split on is ASCII, so the byte-level operations below agree with the ones on \<open>char\<close>s.
\<close>

unbundle bit_operations_syntax

section \<open>Rule collections\<close>

named_theorems inv_dests \<open>operations that return keep the registry invariant\<close>

section \<open>Machine types and results\<close>

type_synonym u8 = "8 word"
type_synonym u16 = "16 word"
type_synonym u32 = "32 word"
type_synonym u64 = "64 word"
type_synonym usize = "64 word"

text \<open>
  A call returns a value, returns \<open>Err\<close>, or panics (\<open>expect\<close>, \<open>unwrap\<close>, \<open>panic!\<close>).
\<close>

datatype ('e, 'a) res = Ok 'a | Err 'e | Panic string

fun bind_res :: "('e, 'a) res \<Rightarrow> ('a \<Rightarrow> ('e, 'b) res) \<Rightarrow> ('e, 'b) res" where
  "bind_res (Ok a) f = f a"
| "bind_res (Err e) f = Err e"
| "bind_res (Panic s) f = Panic s"

fun is_Ok :: "('e, 'a) res \<Rightarrow> bool" where
  "is_Ok (Ok a) = True"
| "is_Ok (Err e) = False"
| "is_Ok (Panic s) = False"

fun panics :: "('e, 'a) res \<Rightarrow> bool" where
  "panics (Panic s) = True"
| "panics (Ok a) = False"
| "panics (Err e) = False"

fun res_get :: "'a \<Rightarrow> ('e, 'a) res \<Rightarrow> 'a" where
  "res_get d (Ok a) = a"
| "res_get d (Err e) = d"
| "res_get d (Panic s) = d"

lemma is_Ok_res_get: "is_Ok r \<Longrightarrow> r = Ok (res_get d r)"
  by (cases r) simp_all

lemma bind_res_Ok_iff: "bind_res r f = Ok b \<longleftrightarrow> (\<exists>a. r = Ok a \<and> f a = Ok b)"
  by (cases r) auto

lemma bind_res_cong [fundef_cong]:
  "r = r' \<Longrightarrow> (\<And>a. r' = Ok a \<Longrightarrow> f a = g a) \<Longrightarrow> bind_res r f = bind_res r' g"
  by (cases r') auto

lemma not_panics_bind: "\<not> panics r \<Longrightarrow> (\<And>a. r = Ok a \<Longrightarrow> \<not> panics (f a)) \<Longrightarrow> \<not> panics (bind_res r f)"
  by (cases r) auto

lemma all_not_Some_pair [simp]: "(\<forall>a b. x \<noteq> Some (a, b)) \<longleftrightarrow> x = None"
  by (cases x) auto

section \<open>Insertion-ordered maps\<close>

text \<open>
  \<open>IndexMap\<close>: an association list in insertion order. \<open>insert\<close> replaces the value of a
  present key in place and appends a new key; \<open>shift_remove\<close> keeps the order of the rest.
\<close>

type_synonym ('k, 'v) index_map = "('k \<times> 'v) list"

definition im_get :: "('k, 'v) index_map \<Rightarrow> 'k \<Rightarrow> 'v option" where
  "im_get m k = map_of m k"

definition im_insert :: "'k \<Rightarrow> 'v \<Rightarrow> ('k, 'v) index_map \<Rightarrow> ('k, 'v) index_map" where
  "im_insert k v m = AList.update k v m"

definition im_shift_remove :: "'k \<Rightarrow> ('k, 'v) index_map \<Rightarrow> ('k, 'v) index_map" where
  "im_shift_remove k m = AList.delete k m"

definition im_keys :: "('k, 'v) index_map \<Rightarrow> 'k list" where
  "im_keys m = map fst m"

definition im_values :: "('k, 'v) index_map \<Rightarrow> 'v list" where
  "im_values m = map snd m"

definition im_wf :: "('k, 'v) index_map \<Rightarrow> bool" where
  "im_wf m = distinct (im_keys m)"

text \<open>The contract the registry relies on, stated once for any implementation.\<close>

locale ordered_map =
  fixes empty :: "'m"
    and insert_op :: "'k \<Rightarrow> 'v \<Rightarrow> 'm \<Rightarrow> 'm"
    and remove_op :: "'k \<Rightarrow> 'm \<Rightarrow> 'm"
    and get :: "'m \<Rightarrow> 'k \<Rightarrow> 'v option"
    and keys :: "'m \<Rightarrow> 'k list"
    and wf_map :: "'m \<Rightarrow> bool"
  assumes wf_empty: "wf_map empty"
    and wf_insert: "wf_map m \<Longrightarrow> wf_map (insert_op k v m)"
    and wf_remove: "wf_map m \<Longrightarrow> wf_map (remove_op k m)"
    and keys_empty: "keys empty = []"
    and get_dom: "get m k = None \<longleftrightarrow> k \<notin> set (keys m)"
    and get_insert: "get (insert_op k v m) j = (if j = k then Some v else get m j)"
    and get_remove: "get (remove_op k m) j = (if j = k then None else get m j)"
    and keys_insert: "keys (insert_op k v m) = (if k \<in> set (keys m) then keys m else keys m @ [k])"
    and keys_remove: "keys (remove_op k m) = filter (\<lambda>j. j \<noteq> k) (keys m)"
    and wf_distinct: "wf_map m \<Longrightarrow> distinct (keys m)"
begin

lemma get_Some_key: "get m k = Some v \<Longrightarrow> k \<in> set (keys m)"
  using get_dom [of m k] by auto

lemma key_get_Some: "k \<in> set (keys m) \<Longrightarrow> \<exists>v. get m k = Some v"
  using get_dom [of m k] by auto

lemma remove_absent: "k \<notin> set (keys m) \<Longrightarrow> keys (remove_op k m) = keys m"
  by (simp add: keys_remove filter_id_conv) metis

lemma keys_insert_remove_fresh:
  "k \<notin> set (keys m) \<Longrightarrow> keys (remove_op k (insert_op k v m)) = keys m"
  by (simp add: keys_remove keys_insert filter_id_conv) metis

lemma length_keys_insert_fresh:
  "k \<notin> set (keys m) \<Longrightarrow> length (keys (insert_op k v m)) = Suc (length (keys m))"
  by (simp add: keys_insert)

lemma length_keys_remove:
  assumes "wf_map m" "k \<in> set (keys m)"
  shows "length (keys m) = Suc (length (keys (remove_op k m)))"
proof -
  from wf_distinct [OF assms(1)] assms(2) have "length (filter (\<lambda>j. j = k) (keys m)) = 1"
    by (simp add: distinct_length_filter)
  with sum_length_filter_compl [of "\<lambda>j. j = k" "keys m"] show ?thesis
    by (simp add: keys_remove)
qed

end

lemma im_delete_fst: "map fst (AList.delete k m) = filter (\<lambda>j. j \<noteq> k) (map fst m)"
  by (induction m) auto

interpretation im: ordered_map "[]" im_insert im_shift_remove im_get im_keys im_wf
proof (unfold_locales, goal_cases)
  case (5 m k) show ?case by (auto simp: im_get_def im_keys_def map_of_eq_None_iff)
next
  case (9 k m) show ?case by (simp add: im_shift_remove_def im_keys_def im_delete_fst)
qed (auto simp: im_get_def im_insert_def im_shift_remove_def im_keys_def im_wf_def
      update_keys update_conv' delete_conv' distinct_update im_delete_fst)

lemmas im_simps [simp] = im.keys_empty im.get_insert im.get_remove im.keys_insert im.keys_remove

lemma im_values_shift_insert_fresh:
  "k \<notin> set (im_keys m) \<Longrightarrow> im_insert k v m = m @ [(k, v)]"
  unfolding im_insert_def im_keys_def by (induction m) auto

lemma im_shift_remove_absent: "k \<notin> set (im_keys m) \<Longrightarrow> im_shift_remove k m = m"
  unfolding im_shift_remove_def im_keys_def by (induction m) auto

lemma im_shift_remove_append:
  "im_shift_remove k (m @ n) = im_shift_remove k m @ im_shift_remove k n"
  by (simp add: im_shift_remove_def AList.delete_eq)

lemma im_insert_remove_fresh:
  assumes "k \<notin> set (im_keys m)"
  shows "im_shift_remove k (im_insert k v m) = m"
  using assms by (simp add: im_values_shift_insert_fresh im_shift_remove_append
      im_shift_remove_absent) (simp add: im_shift_remove_def)

lemma im_insert_same: "im_get m k = Some v \<Longrightarrow> im_insert k v m = m"
  unfolding im_get_def im_insert_def by (induction m) (auto split: if_splits)

lemma im_insert_insert: "im_insert k v (im_insert k w m) = im_insert k v m"
  unfolding im_insert_def by (induction m) auto

section \<open>Keeping the first of several elements with the same key\<close>

fun dedup_by :: "('a \<Rightarrow> 'b) \<Rightarrow> 'a list \<Rightarrow> 'a list" where
  "dedup_by f [] = []"
| "dedup_by f (x # xs) = x # filter (\<lambda>y. f y \<noteq> f x) (dedup_by f xs)"

lemma dedup_by_subset: "set (dedup_by f xs) \<subseteq> set xs"
  by (induction xs) auto

lemma dedup_by_keys: "f ` set (dedup_by f xs) = f ` set xs"
proof (induction xs)
  case (Cons x xs)
  have "f ` set (dedup_by f (x # xs)) = insert (f x) (f ` set (dedup_by f xs))" by auto
  with Cons show ?case by simp
qed simp

lemma dedup_by_distinct: "distinct (map f (dedup_by f xs))"
  by (induction xs) (auto simp: distinct_map_filter)

lemma dedup_by_append:
  "dedup_by f (xs @ ys) = dedup_by f xs @ filter (\<lambda>y. f y \<notin> f ` set xs) (dedup_by f ys)"
  by (induction xs) (auto simp: filter_filter conj_commute intro: filter_cong)

lemma filter_absorb: "x \<in> S \<Longrightarrow> filter (\<lambda>y. f y \<notin> S) (filter (\<lambda>y. f y \<noteq> x) ys) = filter (\<lambda>y. f y \<notin> S) ys"
  by (induction ys) auto

lemma filter_insert:
  "filter (\<lambda>y. f y \<notin> S) (filter (\<lambda>y. f y \<noteq> x) ys) = filter (\<lambda>y. f y \<notin> insert x S) ys"
  by (induction ys) auto

end
