(* ===== verification/Flags.thy ===== *)
theory Flags
  imports Prelude
begin

text \<open>
  \<open>src/lib.rs\<close>: the \<open>OpenFlags\<close> bit set of \<open>dlopen\<close>, a \<open>u32\<close>, with the tests the
  registry and the loader make on it, and \<open>src/error.rs\<close>: the error type of the crate.
\<close>

section \<open>Open flags\<close>

type_synonym open_flags = u32

definition RTLD_LOCAL :: open_flags where "RTLD_LOCAL = 0"
definition RTLD_LAZY :: open_flags where "RTLD_LAZY = 1"
definition RTLD_NOW :: open_flags where "RTLD_NOW = 2"
definition RTLD_NOLOAD :: open_flags where "RTLD_NOLOAD = 4"
definition RTLD_DEEPBIND :: open_flags where "RTLD_DEEPBIND = 8"
definition RTLD_GLOBAL :: open_flags where "RTLD_GLOBAL = 256"
definition RTLD_NODELETE :: open_flags where "RTLD_NODELETE = 4096"

lemmas rtld_flag_defs = RTLD_LOCAL_def RTLD_LAZY_def RTLD_NOW_def RTLD_NOLOAD_def
  RTLD_DEEPBIND_def RTLD_GLOBAL_def RTLD_NODELETE_def

definition flags_contain :: "open_flags \<Rightarrow> open_flags \<Rightarrow> bool" where
  "flags_contain f g = (f AND g = g)"

definition is_global :: "open_flags \<Rightarrow> bool" where
  "is_global f = flags_contain f RTLD_GLOBAL"

definition is_nodelete :: "open_flags \<Rightarrow> bool" where
  "is_nodelete f = flags_contain f RTLD_NODELETE"

definition is_now :: "open_flags \<Rightarrow> bool" where
  "is_now f = flags_contain f RTLD_NOW"

definition is_noload :: "open_flags \<Rightarrow> bool" where
  "is_noload f = flags_contain f RTLD_NOLOAD"

definition is_lazy :: "open_flags \<Rightarrow> bool" where
  "is_lazy f = flags_contain f RTLD_LAZY"

definition is_deepbind :: "open_flags \<Rightarrow> bool" where
  "is_deepbind f = flags_contain f RTLD_DEEPBIND"

definition promotable :: "open_flags \<Rightarrow> open_flags" where
  "promotable f = f AND (RTLD_GLOBAL OR RTLD_NODELETE)"

lemmas flag_tests = is_global_def is_nodelete_def is_now_def is_noload_def is_lazy_def
  is_deepbind_def

text \<open>Each single-bit test reads one bit, so a union of flag sets satisfies it iff a part does.\<close>

lemma flags_contain_iff: "flags_contain f g \<longleftrightarrow> (\<forall>n. bit g n \<longrightarrow> bit f n)"
proof
  assume "flags_contain f g"
  then have eq: "f AND g = g" by (simp add: flags_contain_def)
  show "\<forall>n. bit g n \<longrightarrow> bit f n"
  proof (intro allI impI)
    fix n assume "bit g n"
    then have "bit (f AND g) n" by (simp only: eq)
    then show "bit f n" by (simp add: bit_and_iff)
  qed
next
  assume sub: "\<forall>n. bit g n \<longrightarrow> bit f n"
  have "f AND g = g" by (rule bit_eqI) (use sub in \<open>auto simp: bit_and_iff\<close>)
  then show "flags_contain f g" by (simp add: flags_contain_def)
qed

lemma flags_contain_power: "n < 32 \<Longrightarrow> flags_contain (f :: open_flags) (2 ^ n) = bit f n"
  by (simp add: flags_contain_iff bit_exp_iff)

lemma flag_bits:
  "is_lazy f = bit f 0" "is_now f = bit f 1" "is_noload f = bit f 2" "is_deepbind f = bit f 3"
  "is_global f = bit f 8" "is_nodelete f = bit f 12"
  using flags_contain_power [of 0 f] flags_contain_power [of 1 f] flags_contain_power [of 2 f]
    flags_contain_power [of 3 f] flags_contain_power [of 8 f] flags_contain_power [of 12 f]
  by (simp_all add: flag_tests rtld_flag_defs)

lemma is_global_or [simp]: "is_global (f OR g) \<longleftrightarrow> is_global f \<or> is_global g"
  by (simp add: flag_bits bit_or_iff)

lemma is_nodelete_or [simp]: "is_nodelete (f OR g) \<longleftrightarrow> is_nodelete f \<or> is_nodelete g"
  by (simp add: flag_bits bit_or_iff)

lemma bit_RTLD_GLOBAL: "bit RTLD_GLOBAL n \<longleftrightarrow> n = 8"
proof -
  have pow: "RTLD_GLOBAL = 2 ^ 8" by (simp add: RTLD_GLOBAL_def)
  show ?thesis unfolding pow bit_exp_iff by (auto simp: possible_bit_def)
qed

lemma bit_RTLD_NODELETE: "bit RTLD_NODELETE n \<longleftrightarrow> n = 12"
proof -
  have pow: "RTLD_NODELETE = 2 ^ 12" by (simp add: RTLD_NODELETE_def)
  show ?thesis unfolding pow bit_exp_iff by (auto simp: possible_bit_def)
qed

lemma bit_promotable: "bit (promotable f) n \<longleftrightarrow> bit f n \<and> (n = 8 \<or> n = 12)"
  by (simp add: promotable_def bit_and_iff bit_or_iff bit_RTLD_GLOBAL bit_RTLD_NODELETE)

lemma is_global_promotable [simp]: "is_global (promotable f) = is_global f"
  by (simp add: flag_bits bit_promotable)

lemma is_nodelete_promotable [simp]: "is_nodelete (promotable f) = is_nodelete f"
  by (simp add: flag_bits bit_promotable)

lemma is_global_bits [simp]:
  "is_global RTLD_GLOBAL" "\<not> is_global RTLD_NODELETE" "\<not> is_global RTLD_NOW" "\<not> is_global 0"
  "is_nodelete RTLD_NODELETE" "\<not> is_nodelete RTLD_GLOBAL" "\<not> is_nodelete 0"
  "\<not> is_nodelete RTLD_NOW"
  by (simp_all add: flag_tests flags_contain_def rtld_flag_defs)

lemma contain_promotable_iff:
  "flags_contain f (promotable g) \<longleftrightarrow>
     (is_global g \<longrightarrow> is_global f) \<and> (is_nodelete g \<longrightarrow> is_nodelete f)"
  by (auto simp: flags_contain_iff bit_promotable flag_bits)

section \<open>Errors\<close>

text \<open>
  \<open>elf_loader::Error\<close> is opaque but for the \<open>CustomError::Message\<close> constructor the crate
  uses itself. An I/O error carries the \<open>ErrorKind\<close> the search tests and its message.
\<close>

datatype elf_error = Elf_Message string | Elf_Native nat

datatype io_kind = NotFound | OtherKind

datatype error =
    LoaderError elf_error
  | FindLibError string
  | FindSymbolError string
  | IteratorPhdrError "32 word"
  | ParseLdCacheError string
  | InvalidPath
  | Unsupported
  | IO io_kind string

definition find_lib_error :: "string \<Rightarrow> error" where
  "find_lib_error msg = FindLibError msg"

definition find_symbol_error :: "string \<Rightarrow> error" where
  "find_symbol_error msg = FindSymbolError msg"

definition parse_ld_cache_error :: "string \<Rightarrow> error" where
  "parse_ld_cache_error msg = ParseLdCacheError msg"

text \<open>\<open>Display for Error\<close>; the text of a native loader error is the loader's own.\<close>

fun error_to_string :: "(elf_error \<Rightarrow> string) \<Rightarrow> error \<Rightarrow> string" where
  "error_to_string show_elf (LoaderError err) = show_elf err"
| "error_to_string show_elf (FindLibError msg) = msg"
| "error_to_string show_elf (FindSymbolError msg) = msg"
| "error_to_string show_elf (IteratorPhdrError err) = ''iterator phdr error: Any { .. }''"
| "error_to_string show_elf (ParseLdCacheError msg) = msg"
| "error_to_string show_elf InvalidPath = ''invalid path''"
| "error_to_string show_elf Unsupported = ''unsupported''"
| "error_to_string show_elf (IO kind msg) = ''IO error: '' @ msg"

text \<open>\<open>From<elf_loader::Error>\<close> and \<open>into_linker_error\<close>: the conversion at the boundary to
  the linker in both directions.\<close>

definition error_of_elf :: "elf_error \<Rightarrow> error" where
  "error_of_elf err = LoaderError err"

fun into_linker_error :: "(elf_error \<Rightarrow> string) \<Rightarrow> error \<Rightarrow> elf_error" where
  "into_linker_error show_elf (LoaderError err) = err"
| "into_linker_error show_elf err = Elf_Message (error_to_string show_elf err)"

lemma into_linker_error_roundtrip [simp]: "into_linker_error show_elf (error_of_elf e) = e"
  by (simp add: error_of_elf_def)

end
