(* ===== verification/Link_Context.thy ===== *)
theory Link_Context
  imports Flags
begin

text \<open>
  The data of a loaded library (\<open>src/core_impl/types.rs\<close>, the accessors of
  \<open>LoadedDylib\<close>) and the interface of \<open>elf_loader::linker::LinkContext\<close>, the graph of
  committed modules the registry keeps. \<open>elf_loader\<close> is not part of the repository: its
  operations are the record \<open>link_ops\<close>, an argument of every definition that calls them,
  and what the registry relies on is the locale \<open>link_context\<close>. The last section gives an
  executable instance, an insertion-ordered store, on which the locale is interpreted.
\<close>

section \<open>Loaded libraries\<close>

record file_identity =
  fi_dev :: u64
  fi_ino :: u64

record elf_phdr =
  ph_type :: u32
  ph_offset :: usize
  ph_vaddr :: usize
  ph_memsz :: usize

type_synonym elf_dyn = "u64 \<times> u64"

record extra_data =
  ed_c_name :: "string option"
  ed_link_map :: "usize option"
  ed_needed_libs :: "string list"
  ed_dynamic_table :: "elf_dyn list option"
  ed_file_identity :: "file_identity option"

definition extra_data_default :: extra_data where
  "extra_data_default = \<lparr>ed_c_name = None, ed_link_map = None, ed_needed_libs = [],
     ed_dynamic_table = None, ed_file_identity = None\<rparr>"

text \<open>What the crate reads of a \<open>LoadedCore<ExtraData>\<close> through its accessors.\<close>

record dylib =
  dl_name :: string
  dl_base :: usize
  dl_mapped_len :: usize
  dl_user_data :: extra_data
  dl_phdrs :: "elf_phdr list option"
  dl_tls_mod_id :: "usize option"

text \<open>\<open>shortname_from_name\<close>: \<open>rsplit\<close> on either separator always yields a first piece.\<close>

definition is_path_sep :: "char \<Rightarrow> bool" where
  "is_path_sep c \<longleftrightarrow> c = CHR ''/'' \<or> c = CHR 0x5C"

definition shortname_from_name :: "string \<Rightarrow> string" where
  "shortname_from_name name =
     (if name = [] then ''main''
      else rev (takeWhile (\<lambda>c. \<not> is_path_sep c) (rev name)))"

definition dylib_shortname :: "dylib \<Rightarrow> string" where
  "dylib_shortname lib = shortname_from_name (dl_name lib)"

definition dylib_needed_libs :: "dylib \<Rightarrow> string list" where
  "dylib_needed_libs lib = ed_needed_libs (dl_user_data lib)"

lemma shortname_no_sep: "name \<noteq> [] \<Longrightarrow> c \<in> set (shortname_from_name name) \<Longrightarrow> \<not> is_path_sep c"
  by (auto simp: shortname_from_name_def dest: set_takeWhileD)

lemma shortname_suffix: "name \<noteq> [] \<Longrightarrow> suffix (shortname_from_name name) name"
  by (simp add: shortname_from_name_def suffix_to_prefix takeWhile_is_prefix)

lemma shortname_idem:
  assumes "shortname_from_name name \<noteq> []"
  shows "shortname_from_name (shortname_from_name name) = shortname_from_name name"
proof (cases "name = []")
  case True
  then show ?thesis by (simp add: shortname_from_name_def is_path_sep_def)
next
  case False
  let ?s = "takeWhile (\<lambda>c. \<not> is_path_sep c) (rev name)"
  from False assms have "?s \<noteq> []" by (auto simp: shortname_from_name_def)
  moreover have "takeWhile (\<lambda>c. \<not> is_path_sep c) ?s = ?s"
    by simp
  ultimately show ?thesis using False by (simp add: shortname_from_name_def)
qed

section \<open>The interface of the link context\<close>

text \<open>\<open>GlobalMeta\<close>: the metadata the registry attaches to a committed module.\<close>

record global_meta =
  gm_flags :: open_flags
  gm_libnames :: "string list"

definition global_meta_default :: global_meta where
  "global_meta_default = \<lparr>gm_flags = 0, gm_libnames = []\<rparr>"

record ('c, 'i) link_ops =
  lc_new :: 'c
  lc_key_id :: "'c \<Rightarrow> string \<Rightarrow> 'i option"
  lc_key :: "'c \<Rightarrow> 'i \<Rightarrow> string option"
  lc_contains :: "'c \<Rightarrow> 'i \<Rightarrow> bool"
  lc_contains_key :: "'c \<Rightarrow> string \<Rightarrow> bool"
  lc_get :: "'c \<Rightarrow> 'i \<Rightarrow> dylib option"
  lc_meta :: "'c \<Rightarrow> 'i \<Rightarrow> global_meta option"
  lc_set_meta :: "'i \<Rightarrow> global_meta \<Rightarrow> 'c \<Rightarrow> 'c"
  lc_direct_deps :: "'c \<Rightarrow> 'i \<Rightarrow> 'i list option"
  lc_dependency_modules :: "'c \<Rightarrow> 'i \<Rightarrow> dylib list"
  lc_load_order :: "'c \<Rightarrow> 'i list"
  lc_insert_with_meta ::
    "string \<Rightarrow> dylib \<Rightarrow> string list \<Rightarrow> global_meta \<Rightarrow> 'c \<Rightarrow> 'c option"
  lc_remove :: "'i \<Rightarrow> 'c \<Rightarrow> (global_meta \<times> 'c) option"

text \<open>
  Two observations the contract is stated with: the names of the committed modules in load
  order, and the module and metadata stored under a name.
\<close>

definition lc_names :: "('c, 'i) link_ops \<Rightarrow> 'c \<Rightarrow> string list" where
  "lc_names ops c = List.map_filter (lc_key ops c) (lc_load_order ops c)"

definition lc_view :: "('c, 'i) link_ops \<Rightarrow> 'c \<Rightarrow> string \<Rightarrow> (dylib \<times> global_meta) option" where
  "lc_view ops c k =
     (case lc_key_id ops c k of
        None \<Rightarrow> None
      | Some i \<Rightarrow>
          (case (lc_get ops c i, lc_meta ops c i) of
             (Some lib, Some meta) \<Rightarrow> Some (lib, meta)
           | _ \<Rightarrow> None))"

text \<open>
  \<^item> names are interned: \<open>key_id\<close> and \<open>key\<close> are inverse to each other;
  \<^item> a committed id has a module, metadata, a name and resolvable direct dependencies, and
    \<open>load_order\<close> lists exactly the committed ids, each once;
  \<^item> \<open>insert_with_meta\<close> refuses a committed key and otherwise appends to the load order;
    writing through \<open>meta_mut\<close> and \<open>remove\<close> touch the given module only, and the
    former keeps the ids;
  \<^item> the flattened scope of a module, when present, starts with the module.
\<close>

locale link_context =
  fixes ops :: "('c, 'i) link_ops"
    and ok :: "'c \<Rightarrow> bool"
  assumes ok_new: "ok (lc_new ops)"
    and order_new: "lc_load_order ops (lc_new ops) = []"
    and key_id_key: "ok c \<Longrightarrow> lc_key_id ops c k = Some i \<longleftrightarrow> lc_key ops c i = Some k"
    and contains_key: "ok c \<Longrightarrow> lc_contains_key ops c k \<longleftrightarrow>
          (\<exists>i. lc_key_id ops c k = Some i \<and> lc_contains ops c i)"
    and contains_get: "ok c \<Longrightarrow> lc_contains ops c i \<longleftrightarrow> lc_get ops c i \<noteq> None"
    and contains_meta: "ok c \<Longrightarrow> lc_contains ops c i \<longleftrightarrow> lc_meta ops c i \<noteq> None"
    and contains_name: "ok c \<Longrightarrow> lc_contains ops c i \<Longrightarrow> lc_key ops c i \<noteq> None"
    and order_distinct: "ok c \<Longrightarrow> distinct (lc_load_order ops c)"
    and order_set: "ok c \<Longrightarrow> set (lc_load_order ops c) = {i. lc_contains ops c i}"
    and deps_resolve: "ok c \<Longrightarrow> lc_contains ops c i \<Longrightarrow>
          \<exists>ds. lc_direct_deps ops c i = Some ds \<and> (\<forall>d \<in> set ds. lc_key ops c d \<noteq> None)"
    and scope_head: "ok c \<Longrightarrow> lc_contains ops c i \<Longrightarrow> lc_dependency_modules ops c i \<noteq> [] \<Longrightarrow>
          lc_get ops c i = Some (hd (lc_dependency_modules ops c i))"
    and insert_duplicate: "ok c \<Longrightarrow> lc_contains_key ops c k \<Longrightarrow>
          lc_insert_with_meta ops k lib ds meta c = None"
    and insert_fresh: "ok c \<Longrightarrow> \<not> lc_contains_key ops c k \<Longrightarrow>
          \<exists>c'. lc_insert_with_meta ops k lib ds meta c = Some c' \<and> ok c' \<and>
               lc_names ops c' = lc_names ops c @ [k] \<and>
               lc_view ops c' = (lc_view ops c)(k \<mapsto> (lib, meta))"
    and set_meta: "ok c \<Longrightarrow> lc_view ops c k = Some (lib, old) \<Longrightarrow> lc_key_id ops c k = Some i \<Longrightarrow>
          ok (lc_set_meta ops i meta c) \<and>
          lc_names ops (lc_set_meta ops i meta c) = lc_names ops c \<and>
          lc_view ops (lc_set_meta ops i meta c) = (lc_view ops c)(k \<mapsto> (lib, meta)) \<and>
          lc_key_id ops (lc_set_meta ops i meta c) = lc_key_id ops c"
    and remove: "ok c \<Longrightarrow> lc_view ops c k = Some (lib, meta) \<Longrightarrow> lc_key_id ops c k = Some i \<Longrightarrow>
          \<exists>c'. lc_remove ops i c = Some (meta, c') \<and> ok c' \<and>
               lc_names ops c' = filter (\<lambda>n. n \<noteq> k) (lc_names ops c) \<and>
               lc_view ops c' = (lc_view ops c)(k := None)"
begin

lemma view_Some_iff: "ok c \<Longrightarrow> lc_view ops c k = Some (lib, meta) \<longleftrightarrow>
    (\<exists>i. lc_key_id ops c k = Some i \<and> lc_contains ops c i \<and>
         lc_get ops c i = Some lib \<and> lc_meta ops c i = Some meta)"
  by (auto simp: lc_view_def contains_get split: option.splits)

lemma view_contains_key: "ok c \<Longrightarrow> lc_contains_key ops c k \<longleftrightarrow> lc_view ops c k \<noteq> None"
  using contains_meta [of c] by (force simp: contains_key view_Some_iff contains_get)

lemma names_set: "ok c \<Longrightarrow> set (lc_names ops c) = {k. lc_view ops c k \<noteq> None}"
proof -
  assume c: "ok c"
  have "k \<in> set (lc_names ops c) \<longleftrightarrow> lc_contains_key ops c k" for k
  proof
    assume "k \<in> set (lc_names ops c)"
    then obtain i where "i \<in> set (lc_load_order ops c)" "lc_key ops c i = Some k"
      by (auto simp: lc_names_def List.map_filter_def)
    with c show "lc_contains_key ops c k"
      by (auto simp: contains_key key_id_key order_set)
  next
    assume "lc_contains_key ops c k"
    with c obtain i where "lc_key ops c i = Some k" "i \<in> set (lc_load_order ops c)"
      by (auto simp: contains_key key_id_key order_set)
    then show "k \<in> set (lc_names ops c)"
      by (force simp: lc_names_def List.map_filter_def)
  qed
  with c show ?thesis by (auto simp: view_contains_key)
qed

lemma names_map: "ok c \<Longrightarrow> lc_names ops c = map (\<lambda>i. the (lc_key ops c i)) (lc_load_order ops c)"
  unfolding lc_names_def List.map_filter_def
  using contains_name order_set by (auto simp: filter_id_conv)

lemma names_distinct: "ok c \<Longrightarrow> distinct (lc_names ops c)"
proof -
  assume c: "ok c"
  have "inj_on (\<lambda>i. the (lc_key ops c i)) (set (lc_load_order ops c))"
  proof (rule inj_onI)
    fix i j
    assume "i \<in> set (lc_load_order ops c)" "j \<in> set (lc_load_order ops c)"
      and eq: "the (lc_key ops c i) = the (lc_key ops c j)"
    with c contains_name order_set obtain k where "lc_key ops c i = Some k" "lc_key ops c j = Some k"
      by (metis mem_Collect_eq option.collapse)
    with c show "i = j" by (metis key_id_key option.inject)
  qed
  with c show ?thesis by (simp add: names_map distinct_map order_distinct)
qed

lemma names_new: "lc_names ops (lc_new ops) = []"
  by (simp add: lc_names_def order_new List.map_filter_def)

lemma view_new: "lc_view ops (lc_new ops) = Map.empty"
  using names_set [OF ok_new] by (simp add: names_new fun_eq_iff)

lemma set_meta_get:
  assumes "ok c" "lc_view ops c k = Some (lib, old)" "lc_key_id ops c k = Some i"
  shows "lc_get ops (lc_set_meta ops i meta c) i = Some lib"
proof -
  note c = set_meta [OF assms, of meta]
  then have ok': "ok (lc_set_meta ops i meta c)"
    and view: "lc_view ops (lc_set_meta ops i meta c) k = Some (lib, meta)" by simp_all
  from view [unfolded view_Some_iff [OF ok']] c assms(3) show ?thesis by auto
qed

lemma load_order_views:
  "ok c \<Longrightarrow> i \<in> set (lc_load_order ops c) \<Longrightarrow>
    \<exists>k lib meta. lc_key ops c i = Some k \<and> lc_get ops c i = Some lib \<and>
      lc_meta ops c i = Some meta \<and> lc_view ops c k = Some (lib, meta)"
proof -
  assume c: "ok c" and "i \<in> set (lc_load_order ops c)"
  then have i: "lc_contains ops c i" by (simp add: order_set)
  with c obtain k lib meta where "lc_key ops c i = Some k" "lc_get ops c i = Some lib"
    "lc_meta ops c i = Some meta"
    using contains_name contains_get contains_meta by blast
  with c i show ?thesis by (auto simp: view_Some_iff key_id_key)
qed

end

section \<open>An executable instance\<close>

text \<open>
  Keys are their own ids; a node stores the module, its metadata and its dependency keys.
  The scope of a module is the breadth-first closure over the recorded dependencies.
\<close>

type_synonym list_ctx = "(string, dylib \<times> global_meta \<times> string list) index_map"

definition list_deps :: "list_ctx \<Rightarrow> string \<Rightarrow> string list" where
  "list_deps c k = (case im_get c k of
      None \<Rightarrow> [] | Some (_, _, ds) \<Rightarrow> filter (\<lambda>d. d \<in> set (im_keys c)) ds)"

fun list_closure :: "nat \<Rightarrow> list_ctx \<Rightarrow> string list \<Rightarrow> string list \<Rightarrow> string list" where
  "list_closure 0 c seen queue = seen"
| "list_closure (Suc n) c seen [] = seen"
| "list_closure (Suc n) c seen (k # queue) =
     (if k \<in> set seen then list_closure n c seen queue
      else list_closure n c (seen @ [k]) (queue @ list_deps c k))"

definition list_scope :: "list_ctx \<Rightarrow> string \<Rightarrow> dylib list" where
  "list_scope c k =
     List.map_filter (\<lambda>j. map_option fst (im_get c j))
       (list_closure (Suc (length c + length (concat (map (snd \<circ> snd \<circ> snd) c)))) c [] [k])"

definition list_ops :: "(list_ctx, string) link_ops" where
  "list_ops = \<lparr>
     lc_new = [],
     lc_key_id = (\<lambda>c k. if k \<in> set (im_keys c) then Some k else None),
     lc_key = (\<lambda>c k. if k \<in> set (im_keys c) then Some k else None),
     lc_contains = (\<lambda>c k. k \<in> set (im_keys c)),
     lc_contains_key = (\<lambda>c k. k \<in> set (im_keys c)),
     lc_get = (\<lambda>c k. map_option fst (im_get c k)),
     lc_meta = (\<lambda>c k. map_option (fst \<circ> snd) (im_get c k)),
     lc_set_meta = (\<lambda>k meta c. case im_get c k of
        None \<Rightarrow> c | Some (lib, _, ds) \<Rightarrow> im_insert k (lib, meta, ds) c),
     lc_direct_deps = (\<lambda>c k. if k \<in> set (im_keys c) then Some (list_deps c k) else None),
     lc_dependency_modules = list_scope,
     lc_load_order = im_keys,
     lc_insert_with_meta = (\<lambda>k lib ds meta c.
        if k \<in> set (im_keys c) then None else Some (im_insert k (lib, meta, ds) c)),
     lc_remove = (\<lambda>k c. case im_get c k of
        None \<Rightarrow> None | Some (_, meta, _) \<Rightarrow> Some (meta, im_shift_remove k c))\<rparr>"

lemma list_ops_simps [simp]:
  "lc_new list_ops = []"
  "lc_key_id list_ops c k = (if k \<in> set (im_keys c) then Some k else None)"
  "lc_key list_ops c k = (if k \<in> set (im_keys c) then Some k else None)"
  "lc_contains list_ops c k \<longleftrightarrow> k \<in> set (im_keys c)"
  "lc_contains_key list_ops c k \<longleftrightarrow> k \<in> set (im_keys c)"
  "lc_get list_ops c k = map_option fst (im_get c k)"
  "lc_meta list_ops c k = map_option (fst \<circ> snd) (im_get c k)"
  "lc_set_meta list_ops k meta c = (case im_get c k of
     None \<Rightarrow> c | Some (lib, _, ds) \<Rightarrow> im_insert k (lib, meta, ds) c)"
  "lc_direct_deps list_ops c k = (if k \<in> set (im_keys c) then Some (list_deps c k) else None)"
  "lc_dependency_modules list_ops c k = list_scope c k"
  "lc_load_order list_ops c = im_keys c"
  "lc_insert_with_meta list_ops k lib ds meta c =
     (if k \<in> set (im_keys c) then None else Some (im_insert k (lib, meta, ds) c))"
  "lc_remove list_ops k c = (case im_get c k of
     None \<Rightarrow> None | Some (_, meta, _) \<Rightarrow> Some (meta, im_shift_remove k c))"
  by (simp_all add: list_ops_def)

lemma list_closure_head: "seen \<noteq> [] \<Longrightarrow> hd (list_closure n c seen queue) = hd seen"
  by (induction n c seen queue rule: list_closure.induct) auto

lemma list_closure_nonempty: "seen \<noteq> [] \<Longrightarrow> list_closure n c seen queue \<noteq> []"
  by (induction n c seen queue rule: list_closure.induct) auto

lemma list_scope_head:
  assumes "im_get c k = Some (lib, meta, ds)"
  shows "list_scope c k \<noteq> [] \<and> hd (list_scope c k) = lib"
proof -
  let ?n = "length c + length (concat (map (snd \<circ> snd \<circ> snd) c))"
  let ?q = "list_closure ?n c [k] (list_deps c k)"
  have "?q \<noteq> []" "hd ?q = k" by (simp_all add: list_closure_head list_closure_nonempty)
  then obtain rest where "?q = k # rest" by (cases ?q) auto
  then show ?thesis using assms by (simp add: list_scope_def List.map_filter_def)
qed

lemma list_view: "lc_view list_ops c k = map_option (\<lambda>(lib, meta, _). (lib, meta)) (im_get c k)"
  using im.get_dom [of c k] by (auto simp: lc_view_def split: option.splits)

lemma list_names: "lc_names list_ops c = im_keys c"
  by (simp add: lc_names_def List.map_filter_def map_idI)

interpretation list_ctx: link_context list_ops im_wf
proof (unfold_locales, goal_cases)
  case (10 c i)
  then show ?case by (auto simp: list_deps_def split: option.splits)
next
  case (11 c i)
  then obtain lib meta ds where "im_get c i = Some (lib, meta, ds)"
    using im.key_get_Some [of i c] by auto
  with list_scope_head [OF this] show ?case by simp
next
  case (13 c k lib ds meta)
  then show ?case by (auto simp: list_view list_names im.wf_insert fun_eq_iff)
next
  case (14 c k lib old i meta)
  then show ?case
    by (auto simp: list_view list_names fun_eq_iff im.wf_insert split: if_splits)
next
  case (15 c k lib meta i)
  then show ?case
    by (auto simp: list_view list_names fun_eq_iff im.wf_remove split: if_splits)
qed (auto simp: im.wf_empty im.get_dom im.wf_distinct split: if_splits dest: im.get_Some_key)

end
