(* ===== verification/Registry.thy ===== *)
theory Registry
  imports Link_Context
begin

text \<open>
  \<open>src/core_impl/register.rs\<close>: the registry (\<open>Manager\<close>) of every library the process has
  loaded or is loading. Its state is the record \<open>manager\<close>; the operations follow the order
  of the source and take the operations \<open>ops\<close> of the link context as their first argument.
  An operation that the source ends with \<open>expect\<close> or \<open>panic!\<close> returns a \<open>res\<close>.
  \<open>debug_assert!\<close>s are compiled out of a release build: they are no branch of an operation,
  and the lemmas at the end show where they hold.
\<close>

section \<open>State\<close>

record pending_dylib =
  pd_inner :: "dylib option"
  pd_flags :: open_flags
  pd_libnames :: "string list"

definition pending_reserved :: "open_flags \<Rightarrow> pending_dylib" where
  "pending_reserved flags = \<lparr>pd_inner = None, pd_flags = flags, pd_libnames = []\<rparr>"

datatype library_lookup = PendingLib string | Relocated string string

fun is_relocated :: "library_lookup \<Rightarrow> bool" where
  "is_relocated (Relocated s n) = True"
| "is_relocated (PendingLib s) = False"

fun lookup_shortname :: "library_lookup \<Rightarrow> string" where
  "lookup_shortname (PendingLib s) = s"
| "lookup_shortname (Relocated s n) = s"

fun lookup_name :: "library_lookup \<Rightarrow> string option" where
  "lookup_name (Relocated s n) = Some n"
| "lookup_name (PendingLib s) = None"

record 'c manager =
  pending :: "(string, pending_dylib) index_map"
  global :: "(string, dylib) index_map"
  aliases :: "string \<rightharpoonup> string"
  identities :: "file_identity \<rightharpoonup> string"
  link_ctx :: 'c
  adds :: u64
  subs :: u64

definition manager_new :: "('c, 'i) link_ops \<Rightarrow> 'c manager" where
  "manager_new ops = \<lparr>pending = [], global = [], aliases = Map.empty, identities = Map.empty,
     link_ctx = lc_new ops, adds = 0, subs = 0\<rparr>"

text \<open>\<open>ElfLibrary\<close>: a handle; \<open>deps\<close> is the flattened search list.\<close>

record elf_library =
  el_inner :: dylib
  el_deps :: "dylib list option"

section \<open>Lookup\<close>

definition committed_id :: "('c, 'i) link_ops \<Rightarrow> 'c manager \<Rightarrow> string \<Rightarrow> 'i option" where
  "committed_id ops m key =
     (case lc_key_id ops (link_ctx m) key of
        None \<Rightarrow> None
      | Some i \<Rightarrow> if lc_contains ops (link_ctx m) i then Some i else None)"

definition contains_canonical_key :: "('c, 'i) link_ops \<Rightarrow> 'c manager \<Rightarrow> string \<Rightarrow> bool" where
  "contains_canonical_key ops m key \<longleftrightarrow>
     im_get (pending m) key \<noteq> None \<or> committed_id ops m key \<noteq> None"

definition committed_lookup ::
  "('c, 'i) link_ops \<Rightarrow> 'c manager \<Rightarrow> string \<Rightarrow> library_lookup option" where
  "committed_lookup ops m key =
     (case committed_id ops m key of
        None \<Rightarrow> None
      | Some i \<Rightarrow>
          (case lc_get ops (link_ctx m) i of
             None \<Rightarrow> None
           | Some inner \<Rightarrow> Some (Relocated key (dl_name inner))))"

definition pending_lookup :: "'c manager \<Rightarrow> string \<Rightarrow> library_lookup option" where
  "pending_lookup m key = map_option (\<lambda>_. PendingLib key) (im_get (pending m) key)"

definition lookup :: "('c, 'i) link_ops \<Rightarrow> 'c manager \<Rightarrow> string \<Rightarrow> library_lookup option" where
  "lookup ops m name =
     (case committed_lookup ops m name of
        Some lib \<Rightarrow> Some lib
      | None \<Rightarrow>
          (case pending_lookup m name of
             Some lib \<Rightarrow> Some lib
           | None \<Rightarrow>
               (case aliases m name of
                  None \<Rightarrow> None
                | Some canonical \<Rightarrow>
                    (case committed_lookup ops m canonical of
                       Some lib \<Rightarrow> Some lib
                     | None \<Rightarrow> pending_lookup m canonical))))"

definition canonical_name_owned ::
  "('c, 'i) link_ops \<Rightarrow> 'c manager \<Rightarrow> string \<Rightarrow> string option" where
  "canonical_name_owned ops m name = map_option lookup_shortname (lookup ops m name)"

definition lookup_by_identity ::
  "('c, 'i) link_ops \<Rightarrow> 'c manager \<Rightarrow> file_identity \<Rightarrow> library_lookup option" where
  "lookup_by_identity ops m ident =
     (case identities m ident of None \<Rightarrow> None | Some name \<Rightarrow> lookup ops m name)"

definition committed_flags ::
  "('c, 'i) link_ops \<Rightarrow> 'c manager \<Rightarrow> string \<Rightarrow> open_flags option" where
  "committed_flags ops m name =
     (case committed_id ops m name of
        None \<Rightarrow> None
      | Some i \<Rightarrow> map_option gm_flags (lc_meta ops (link_ctx m) i))"

definition manager_flags ::
  "('c, 'i) link_ops \<Rightarrow> 'c manager \<Rightarrow> string \<Rightarrow> open_flags option" where
  "manager_flags ops m name =
     (case committed_flags ops m name of
        Some f \<Rightarrow> Some f
      | None \<Rightarrow>
          (case im_get (pending m) name of
             Some lib \<Rightarrow> Some (pd_flags lib)
           | None \<Rightarrow>
               (case aliases m name of
                  None \<Rightarrow> None
                | Some canonical \<Rightarrow>
                    (case committed_flags ops m canonical of
                       Some f \<Rightarrow> Some f
                     | None \<Rightarrow> map_option pd_flags (im_get (pending m) canonical)))))"

definition all_values :: "('c, 'i) link_ops \<Rightarrow> 'c manager \<Rightarrow> dylib list" where
  "all_values ops m = List.map_filter (lc_get ops (link_ctx m)) (lc_load_order ops (link_ctx m))"

definition global_values :: "'c manager \<Rightarrow> dylib list" where
  "global_values m = im_values (global m)"

section \<open>Scopes\<close>

fun canonical_deps_loop ::
  "('c, 'i) link_ops \<Rightarrow> 'c manager \<Rightarrow> string list \<Rightarrow> string set \<Rightarrow> string list \<Rightarrow> string list"
where
  "canonical_deps_loop ops m [] seen deps = deps"
| "canonical_deps_loop ops m (needed # rest) seen deps =
     (case lookup ops m needed of
        None \<Rightarrow> canonical_deps_loop ops m rest seen deps
      | Some dep \<Rightarrow>
          (let shortname = lookup_shortname dep in
             if shortname \<in> seen then canonical_deps_loop ops m rest seen deps
             else canonical_deps_loop ops m rest (insert shortname seen) (deps @ [shortname])))"

definition canonical_direct_deps ::
  "('c, 'i) link_ops \<Rightarrow> 'c manager \<Rightarrow> dylib \<Rightarrow> string list" where
  "canonical_direct_deps ops m lib = canonical_deps_loop ops m (dylib_needed_libs lib) {} []"

fun push_unique :: "dylib list \<Rightarrow> string set \<Rightarrow> dylib list \<Rightarrow> string set \<times> dylib list" where
  "push_unique [] seen scope = (seen, scope)"
| "push_unique (lib # libs) seen scope =
     (if dylib_shortname lib \<in> seen then push_unique libs seen scope
      else push_unique libs (insert (dylib_shortname lib) seen) (scope @ [lib]))"

definition relocation_scope ::
  "'c manager \<Rightarrow> dylib list \<Rightarrow> open_flags \<Rightarrow> dylib list" where
  "relocation_scope m group_scope flags =
     (if is_deepbind flags
      then (case push_unique group_scope {} [] of
              (seen, scope) \<Rightarrow> snd (push_unique (global_values m) seen scope))
      else (case push_unique (global_values m) {} [] of
              (seen, scope) \<Rightarrow> snd (push_unique group_scope seen scope)))"

definition library_scope_by_id ::
  "('c, 'i) link_ops \<Rightarrow> 'c manager \<Rightarrow> 'i \<Rightarrow> dylib list option" where
  "library_scope_by_id ops m i =
     (let deps = lc_dependency_modules ops (link_ctx m) i in
        if deps \<noteq> [] then Some deps
        else map_option (\<lambda>entry. [entry]) (lc_get ops (link_ctx m) i))"

definition library_scope ::
  "('c, 'i) link_ops \<Rightarrow> 'c manager \<Rightarrow> string \<Rightarrow> dylib list option" where
  "library_scope ops m name =
     (case canonical_name_owned ops m name of
        None \<Rightarrow> None
      | Some canonical \<Rightarrow>
          (case committed_id ops m canonical of
             None \<Rightarrow> None
           | Some i \<Rightarrow> library_scope_by_id ops m i))"

definition main_library :: "('c, 'i) link_ops \<Rightarrow> 'c manager \<Rightarrow> elf_library option" where
  "main_library ops m =
     (case lc_load_order ops (link_ctx m) of
        [] \<Rightarrow> None
      | i # _ \<Rightarrow>
          (case lc_get ops (link_ctx m) i of
             None \<Rightarrow> None
           | Some lib \<Rightarrow>
               (case library_scope_by_id ops m i of
                  None \<Rightarrow> None
                | Some deps \<Rightarrow> Some \<lparr>el_inner = lib, el_deps = Some deps\<rparr>)))"

definition get_lib :: "('c, 'i) link_ops \<Rightarrow> 'c manager \<Rightarrow> string \<Rightarrow> elf_library option" where
  "get_lib ops m name =
     (case canonical_name_owned ops m name of
        None \<Rightarrow> None
      | Some canonical \<Rightarrow>
          (case committed_id ops m canonical of
             None \<Rightarrow> None
           | Some i \<Rightarrow>
               (case library_scope_by_id ops m i of
                  None \<Rightarrow> None
                | Some deps \<Rightarrow>
                    map_option (\<lambda>inner. \<lparr>el_inner = inner, el_deps = Some deps\<rparr>)
                      (lc_get ops (link_ctx m) i))))"

section \<open>What the linker sees of the registry\<close>

definition visible_contains :: "('c, 'i) link_ops \<Rightarrow> 'c manager \<Rightarrow> string \<Rightarrow> bool" where
  "visible_contains ops m name =
     (case canonical_name_owned ops m name of
        None \<Rightarrow> False
      | Some canonical \<Rightarrow> lc_contains_key ops (link_ctx m) canonical)"

text \<open>A dependency id that does not resolve to a key is an \<open>expect\<close> failure.\<close>

fun dep_keys :: "('c, 'i) link_ops \<Rightarrow> 'c \<Rightarrow> string \<Rightarrow> 'i list \<Rightarrow> (error, string list) res" where
  "dep_keys ops c msg [] = Ok []"
| "dep_keys ops c msg (d # ds) =
     (case lc_key ops c d of
        None \<Rightarrow> Panic msg
      | Some k \<Rightarrow> bind_res (dep_keys ops c msg ds) (\<lambda>ks. Ok (k # ks)))"

definition visible_direct_deps ::
  "('c, 'i) link_ops \<Rightarrow> 'c manager \<Rightarrow> string \<Rightarrow> (error, string list option) res" where
  "visible_direct_deps ops m name =
     (case canonical_name_owned ops m name of
        None \<Rightarrow> Ok None
      | Some canonical \<Rightarrow>
          (case committed_id ops m canonical of
             Some i \<Rightarrow>
               (case lc_direct_deps ops (link_ctx m) i of
                  None \<Rightarrow> Ok None
                | Some ds \<Rightarrow>
                    bind_res (dep_keys ops (link_ctx m)
                        ''direct dependency id must resolve in global link context'' ds)
                      (\<lambda>ks. Ok (Some ks)))
           | None \<Rightarrow>
               (case im_get (pending m) canonical of
                  None \<Rightarrow> Ok None
                | Some lib \<Rightarrow> Ok (map_option (canonical_direct_deps ops m) (pd_inner lib)))))"

definition visible_loaded :: "('c, 'i) link_ops \<Rightarrow> 'c manager \<Rightarrow> string \<Rightarrow> dylib option" where
  "visible_loaded ops m name =
     (case canonical_name_owned ops m name of
        None \<Rightarrow> None
      | Some canonical \<Rightarrow>
          (case (case committed_id ops m canonical of
                   None \<Rightarrow> None | Some i \<Rightarrow> lc_get ops (link_ctx m) i) of
             Some lib \<Rightarrow> Some lib
           | None \<Rightarrow>
               (case im_get (pending m) canonical of None \<Rightarrow> None | Some p \<Rightarrow> pd_inner p)))"

section \<open>Operations that change the registry\<close>

definition add_global :: "string \<Rightarrow> dylib \<Rightarrow> 'c manager \<Rightarrow> 'c manager" where
  "add_global name lib m = m\<lparr>global := im_insert name lib (global m)\<rparr>"

definition add_loaded ::
  "('c, 'i) link_ops \<Rightarrow> string \<Rightarrow> dylib \<Rightarrow> open_flags \<Rightarrow> 'c manager \<Rightarrow> (error, 'c manager) res" where
  "add_loaded ops name lib flags m =
     (case lc_insert_with_meta ops name lib (canonical_direct_deps ops m lib)
             \<lparr>gm_flags = flags, gm_libnames = []\<rparr> (link_ctx m) of
        None \<Rightarrow> Panic ''registry insert must not insert duplicate keys''
      | Some c \<Rightarrow> Ok (m\<lparr>link_ctx := c, adds := adds m + 1\<rparr>))"

definition add_pending_reservation :: "string \<Rightarrow> open_flags \<Rightarrow> 'c manager \<Rightarrow> 'c manager" where
  "add_pending_reservation name flags m =
     m\<lparr>pending := im_insert name (pending_reserved flags) (pending m), adds := adds m + 1\<rparr>"

definition add_alias ::
  "('c, 'i) link_ops \<Rightarrow> string \<Rightarrow> string \<Rightarrow> 'c manager \<Rightarrow> (error, 'c manager) res" where
  "add_alias ops canonical alias m =
     (if contains_canonical_key ops m alias then Ok m
      else if aliases m alias \<noteq> None then Ok m
      else
        (case im_get (pending m) canonical of
           Some lib \<Rightarrow>
             Ok (m\<lparr>pending := im_insert canonical (lib\<lparr>pd_libnames := pd_libnames lib @ [alias]\<rparr>)
                               (pending m),
                   aliases := (aliases m)(alias \<mapsto> canonical)\<rparr>)
         | None \<Rightarrow>
             (case lc_key_id ops (link_ctx m) canonical of
                None \<Rightarrow> Panic ''Canonical library must be registered before adding aliases''
              | Some i \<Rightarrow>
                  (case lc_meta ops (link_ctx m) i of
                     None \<Rightarrow> Panic ''Canonical library must be registered before adding aliases''
                   | Some meta \<Rightarrow>
                       Ok (m\<lparr>link_ctx := lc_set_meta ops i
                                (meta\<lparr>gm_libnames := gm_libnames meta @ [alias]\<rparr>) (link_ctx m),
                             aliases := (aliases m)(alias \<mapsto> canonical)\<rparr>)))))"

fun add_aliases ::
  "('c, 'i) link_ops \<Rightarrow> string \<Rightarrow> string list \<Rightarrow> 'c manager \<Rightarrow> (error, 'c manager) res" where
  "add_aliases ops canonical [] m = Ok m"
| "add_aliases ops canonical (alias # rest) m =
     bind_res (add_alias ops canonical alias m) (add_aliases ops canonical rest)"

definition add_identity :: "file_identity \<Rightarrow> string \<Rightarrow> 'c manager \<Rightarrow> 'c manager" where
  "add_identity ident name m = m\<lparr>identities := (identities m)(ident \<mapsto> name)\<rparr>"

definition add_identity_opt :: "file_identity option \<Rightarrow> string \<Rightarrow> 'c manager \<Rightarrow> 'c manager" where
  "add_identity_opt ident name m =
     (case ident of None \<Rightarrow> m | Some i \<Rightarrow> add_identity i name m)"

text \<open>\<open>identities.retain(|_, v| v != shortname)\<close> and the loop over \<open>libnames\<close>.\<close>

definition retain_identities ::
  "string \<Rightarrow> (file_identity \<rightharpoonup> string) \<Rightarrow> (file_identity \<rightharpoonup> string)" where
  "retain_identities shortname ids =
     (\<lambda>i. case ids i of None \<Rightarrow> None | Some v \<Rightarrow> if v \<noteq> shortname then Some v else None)"

fun remove_aliases :: "string list \<Rightarrow> (string \<rightharpoonup> string) \<Rightarrow> (string \<rightharpoonup> string)" where
  "remove_aliases [] al = al"
| "remove_aliases (a # as) al = remove_aliases as (al(a := None))"

definition finish_remove :: "string \<Rightarrow> string list \<Rightarrow> 'c manager \<Rightarrow> 'c manager" where
  "finish_remove shortname libnames m =
     m\<lparr>subs := subs m + 1,
       global := im_shift_remove shortname (global m),
       aliases := remove_aliases libnames (aliases m),
       identities := retain_identities shortname (identities m)\<rparr>"

definition remove ::
  "('c, 'i) link_ops \<Rightarrow> string \<Rightarrow> 'c manager \<Rightarrow> (error, 'c manager) res" where
  "remove ops shortname m =
     (case im_get (pending m) shortname of
        Some lib \<Rightarrow>
          Ok (finish_remove shortname (pd_libnames lib)
                (m\<lparr>pending := im_shift_remove shortname (pending m)\<rparr>))
      | None \<Rightarrow>
          (case committed_id ops m shortname of
             None \<Rightarrow> Panic ''Library is not registered''
           | Some i \<Rightarrow>
               (case lc_remove ops i (link_ctx m) of
                  None \<Rightarrow> Panic ''Library is not registered''
                | Some (meta, c) \<Rightarrow>
                    Ok (finish_remove shortname (gm_libnames meta) (m\<lparr>link_ctx := c\<rparr>)))))"

definition promote ::
  "('c, 'i) link_ops \<Rightarrow> string \<Rightarrow> open_flags \<Rightarrow> 'c manager \<Rightarrow> (error, 'c manager) res" where
  "promote ops shortname flags m =
     (case committed_id ops m shortname of
        None \<Rightarrow> Panic ''Library must be registered''
      | Some i \<Rightarrow>
          (case lc_meta ops (link_ctx m) i of
             None \<Rightarrow> Panic ''Library must be registered''
           | Some meta \<Rightarrow>
               if flags_contain (gm_flags meta) (promotable flags) then Ok m
               else
                 (let m' = m\<lparr>link_ctx := lc_set_meta ops i
                        (meta\<lparr>gm_flags := gm_flags meta OR promotable flags\<rparr>) (link_ctx m)\<rparr> in
                    if is_global flags
                    then (case lc_get ops (link_ctx m') i of
                            None \<Rightarrow> Panic ''Promoted library must be committed''
                          | Some core \<Rightarrow> Ok (add_global shortname core m'))
                    else Ok m')))"

text \<open>The same two functions in a build with \<open>debug_assertions\<close>.\<close>

definition add_global_debug :: "string \<Rightarrow> dylib \<Rightarrow> 'c manager \<Rightarrow> (error, 'c manager) res" where
  "add_global_debug name lib m =
     (if im_get (global m) name \<noteq> None then Panic ''Library is already in global scope''
      else Ok (add_global name lib m))"

definition promote_debug ::
  "('c, 'i) link_ops \<Rightarrow> string \<Rightarrow> open_flags \<Rightarrow> 'c manager \<Rightarrow> (error, 'c manager) res" where
  "promote_debug ops shortname flags m =
     (case committed_id ops m shortname of
        None \<Rightarrow> Panic ''Library must be registered''
      | Some i \<Rightarrow>
          (case lc_meta ops (link_ctx m) i of
             None \<Rightarrow> Panic ''Library must be registered''
           | Some meta \<Rightarrow>
               if flags_contain (gm_flags meta) (promotable flags) then Ok m
               else
                 (let m' = m\<lparr>link_ctx := lc_set_meta ops i
                        (meta\<lparr>gm_flags := gm_flags meta OR promotable flags\<rparr>) (link_ctx m)\<rparr> in
                    if is_global flags
                    then (case lc_get ops (link_ctx m') i of
                            None \<Rightarrow> Panic ''Promoted library must be committed''
                          | Some core \<Rightarrow> add_global_debug shortname core m')
                    else Ok m')))"

definition promoted_name ::
  "('c, 'i) link_ops \<Rightarrow> string \<Rightarrow> open_flags \<Rightarrow> 'c manager \<Rightarrow>
     (error, string option \<times> 'c manager) res" where
  "promoted_name ops name flags m =
     (case canonical_name_owned ops m name of
        None \<Rightarrow> Ok (None, m)
      | Some canonical \<Rightarrow>
          bind_res (promote ops canonical flags m) (\<lambda>m'. Ok (Some canonical, m')))"

definition open_existing ::
  "('c, 'i) link_ops \<Rightarrow> string \<Rightarrow> open_flags \<Rightarrow> 'c manager \<Rightarrow>
     (error, elf_library option \<times> 'c manager) res" where
  "open_existing ops name flags m =
     bind_res (promoted_name ops name flags m)
       (\<lambda>(canonical, m'). Ok (case canonical of None \<Rightarrow> None | Some c \<Rightarrow> get_lib ops m' c, m'))"

definition normalized_flags :: "string \<Rightarrow> open_flags \<Rightarrow> open_flags" where
  "normalized_flags name flags =
     (if sublist ''libc'' name \<or> sublist ''libpthread'' name \<or> sublist ''libdl'' name \<or>
         sublist ''libgcc_s'' name \<or> sublist ''ld-linux'' name \<or> sublist ''ld-musl'' name
      then flags OR RTLD_NODELETE else flags)"

definition libc_compat_aliases :: "string \<Rightarrow> string list" where
  "libc_compat_aliases shortname =
     (if shortname = ''libc.so.6''
      then [''libdl.so.2'', ''libpthread.so.0'', ''libutil.so.1'', ''librt.so.1'', ''libanl.so.1'']
      else if shortname = ''ld-linux-x86-64.so.2'' then [''ld-linux.so.2'']
      else [])"

definition reserve_pending ::
  "('c, 'i) link_ops \<Rightarrow> string \<Rightarrow> string \<Rightarrow> file_identity option \<Rightarrow> open_flags \<Rightarrow> 'c manager \<Rightarrow>
     (error, 'c manager) res" where
  "reserve_pending ops shortname full_name ident flags m =
     add_aliases ops shortname (libc_compat_aliases shortname)
       (add_identity_opt ident shortname
         (add_pending_reservation shortname (normalized_flags full_name flags) m))"

definition register_loaded ::
  "('c, 'i) link_ops \<Rightarrow> dylib \<Rightarrow> open_flags \<Rightarrow> 'c manager \<Rightarrow> (error, 'c manager) res" where
  "register_loaded ops lib flags m =
     (let name = dl_name lib;
          is_main = (name = []);
          shortname = dylib_shortname lib;
          flags = normalized_flags name flags
      in bind_res (add_loaded ops shortname lib flags m) (\<lambda>m1.
         bind_res (add_aliases ops shortname (libc_compat_aliases shortname)
                    (add_identity_opt (ed_file_identity (dl_user_data lib)) shortname m1)) (\<lambda>m2.
         Ok (if is_global flags \<or> is_main then add_global shortname lib m2 else m2))))"

text \<open>One turn of the loop of \<open>merge_link_context\<close>; \<open>continue\<close> leaves the registry as it is.\<close>

definition merge_one ::
  "('c, 'i) link_ops \<Rightarrow> 'c \<Rightarrow> open_flags \<Rightarrow> 'i \<Rightarrow> 'c manager \<Rightarrow> (error, 'c manager) res" where
  "merge_one ops source flags i m =
     (case lc_key ops source i of
        None \<Rightarrow> Panic ''committed id must resolve in source link context''
      | Some key \<Rightarrow>
          if lc_contains_key ops (link_ctx m) key then Ok m
          else
            (case lc_get ops source i of
               None \<Rightarrow> Ok m
             | Some module \<Rightarrow>
                 bind_res (dep_keys ops source
                     ''direct dependency id must resolve in source link context''
                     (case lc_direct_deps ops source i of None \<Rightarrow> [] | Some ds \<Rightarrow> ds)) (\<lambda>direct_deps.
                   (let p = im_get (pending m) key;
                        meta = (case p of
                          Some lib \<Rightarrow> \<lparr>gm_flags = pd_flags lib, gm_libnames = pd_libnames lib\<rparr>
                        | None \<Rightarrow> \<lparr>gm_flags = normalized_flags (dl_name module) flags,
                                   gm_libnames = []\<rparr>)
                    in (case lc_insert_with_meta ops key module direct_deps meta (link_ctx m) of
                          None \<Rightarrow> Panic ''load merge must not insert duplicate keys''
                        | Some c \<Rightarrow>
                            bind_res
                              (add_aliases ops key (libc_compat_aliases key)
                                (add_identity_opt (ed_file_identity (dl_user_data module)) key
                                  (m\<lparr>pending := im_shift_remove key (pending m), link_ctx := c,
                                     adds := (if p \<noteq> None then adds m else adds m + 1)\<rparr>)))
                              (\<lambda>m'. Ok (if is_global (gm_flags meta) then add_global key module m'
                                        else m')))))))"

fun merge_link_context ::
  "('c, 'i) link_ops \<Rightarrow> 'c \<Rightarrow> open_flags \<Rightarrow> 'i list \<Rightarrow> 'c manager \<Rightarrow> (error, 'c manager) res" where
  "merge_link_context ops source flags [] m = Ok m"
| "merge_link_context ops source flags (i # committed) m =
     bind_res (merge_one ops source flags i m) (merge_link_context ops source flags committed)"

definition rebuild_entry ::
  "('c, 'i) link_ops \<Rightarrow> 'c manager \<Rightarrow> 'i \<Rightarrow>
     (error, string \<times> dylib \<times> string list \<times> global_meta) res" where
  "rebuild_entry ops m i =
     (case lc_key ops (link_ctx m) i of
        None \<Rightarrow> Panic ''load_order entries must resolve to interned keys''
      | Some key \<Rightarrow>
          (case lc_get ops (link_ctx m) i of
             None \<Rightarrow> Panic ''load_order entries must resolve to committed modules''
           | Some module \<Rightarrow>
               (case lc_meta ops (link_ctx m) i of
                  None \<Rightarrow> Panic ''load_order entries must resolve to committed metadata''
                | Some meta \<Rightarrow> Ok (key, module, canonical_direct_deps ops m module, meta))))"

fun rebuild_entries ::
  "('c, 'i) link_ops \<Rightarrow> 'c manager \<Rightarrow> 'i list \<Rightarrow>
     (error, (string \<times> dylib \<times> string list \<times> global_meta) list) res" where
  "rebuild_entries ops m [] = Ok []"
| "rebuild_entries ops m (i # is) =
     bind_res (rebuild_entry ops m i) (\<lambda>e.
       bind_res (rebuild_entries ops m is) (\<lambda>es. Ok (e # es)))"

fun insert_entries ::
  "('c, 'i) link_ops \<Rightarrow> (string \<times> dylib \<times> string list \<times> global_meta) list \<Rightarrow> 'c \<Rightarrow>
     (error, 'c) res" where
  "insert_entries ops [] c = Ok c"
| "insert_entries ops ((key, module, deps, meta) # es) c =
     (case lc_insert_with_meta ops key module deps meta c of
        None \<Rightarrow> Panic ''registry rebuild must not insert duplicate keys''
      | Some c' \<Rightarrow> insert_entries ops es c')"

definition rebuild_link_ctx ::
  "('c, 'i) link_ops \<Rightarrow> 'c manager \<Rightarrow> (error, 'c manager) res" where
  "rebuild_link_ctx ops m =
     bind_res (rebuild_entries ops m (lc_load_order ops (link_ctx m))) (\<lambda>es.
       bind_res (insert_entries ops es (lc_new ops)) (\<lambda>c. Ok (m\<lparr>link_ctx := c\<rparr>)))"

section \<open>Closing a handle\<close>

text \<open>
  \<open>Drop for ElfLibrary\<close> up to the calls of \<open>finalize\<close>: the registry afterwards and the
  libraries to finalize. The reference count of a library is kept by \<open>Arc\<close> in the loader:
  \<open>rc\<close> gives it for the registry and the list of removed libraries at that moment.
\<close>

definition drop_threshold :: "open_flags \<Rightarrow> nat" where
  "drop_threshold flags = 3 + (if is_global flags then 1 else 0)"

fun drop_deps ::
  "('c, 'i) link_ops \<Rightarrow> ('c manager \<Rightarrow> dylib list \<Rightarrow> dylib \<Rightarrow> nat) \<Rightarrow> dylib list \<Rightarrow>
     'c manager \<times> dylib list \<Rightarrow> (error, 'c manager \<times> dylib list) res" where
  "drop_deps ops rc [] (m, removed) = Ok (m, removed)"
| "drop_deps ops rc (dep # deps) (m, removed) =
     (case manager_flags ops m (dylib_shortname dep) of
        None \<Rightarrow> drop_deps ops rc deps (m, removed)
      | Some flags \<Rightarrow>
          if is_nodelete flags then drop_deps ops rc deps (m, removed)
          else if rc m removed dep = drop_threshold flags
          then bind_res (remove ops (dylib_shortname dep) m)
                 (\<lambda>m'. drop_deps ops rc deps (m', removed @ [dep]))
          else drop_deps ops rc deps (m, removed))"

definition drop_elf_library ::
  "('c, 'i) link_ops \<Rightarrow> ('c manager \<Rightarrow> dylib list \<Rightarrow> dylib \<Rightarrow> nat) \<Rightarrow> elf_library \<Rightarrow>
     'c manager \<Rightarrow> (error, 'c manager \<times> dylib list) res" where
  "drop_elf_library ops rc lib m =
     (let shortname = dylib_shortname (el_inner lib) in
      case manager_flags ops m shortname of
        None \<Rightarrow> Ok (m, [])
      | Some flags \<Rightarrow>
          if is_nodelete flags then Ok (m, [])
          else if rc m [] (el_inner lib) = drop_threshold flags
          then bind_res (remove ops shortname m) (\<lambda>m'.
                 (case el_deps lib of
                    None \<Rightarrow> Ok (m', [el_inner lib])
                  | Some deps \<Rightarrow> drop_deps ops rc (drop 1 deps) (m', [el_inner lib])))
          else Ok (m, []))"

end
