(* ===== verification/Registry_Inv.thy ===== *)
theory Registry_Inv
  imports Registry
begin

text \<open>
  The invariant of the registry and its preservation by every operation. The lemmas are
  proved once for any link context (inside \<open>link_context\<close>); the properties at the end state
  them over the definitions of \<open>Registry\<close> with the contract as a hypothesis.
\<close>

section \<open>The invariant\<close>

text \<open>The names a registered library also answers to.\<close>

definition libnames_of :: "('c, 'i) link_ops \<Rightarrow> 'c manager \<Rightarrow> string \<Rightarrow> string list" where
  "libnames_of ops m k =
     (case (im_get (pending m) k, lc_view ops (link_ctx m) k) of
        (Some p, _) \<Rightarrow> pd_libnames p
      | (None, Some (_, meta)) \<Rightarrow> gm_libnames meta
      | (None, None) \<Rightarrow> [])"

definition registered :: "('c, 'i) link_ops \<Rightarrow> 'c manager \<Rightarrow> string \<Rightarrow> bool" where
  "registered ops m k \<longleftrightarrow> im_get (pending m) k \<noteq> None \<or> lc_view ops (link_ctx m) k \<noteq> None"

text \<open>A library is loading or committed, never both, and a reservation holds no module.\<close>

definition inv_keys :: "('c, 'i) link_ops \<Rightarrow> ('c \<Rightarrow> bool) \<Rightarrow> 'c manager \<Rightarrow> bool" where
  "inv_keys ops ok m \<longleftrightarrow> ok (link_ctx m) \<and> im_wf (pending m) \<and> im_wf (global m) \<and>
     (\<forall>k p. im_get (pending m) k = Some p \<longrightarrow>
        pd_inner p = None \<and> lc_view ops (link_ctx m) k = None)"

text \<open>The alias map is the inverse of the alias lists.\<close>

definition inv_aliases :: "('c, 'i) link_ops \<Rightarrow> 'c manager \<Rightarrow> bool" where
  "inv_aliases ops m \<longleftrightarrow> (\<forall>a k. aliases m a = Some k \<longleftrightarrow> a \<in> set (libnames_of ops m k))"

text \<open>An identity names a registered library.\<close>

definition inv_identities :: "('c, 'i) link_ops \<Rightarrow> 'c manager \<Rightarrow> bool" where
  "inv_identities ops m \<longleftrightarrow> (\<forall>i k. identities m i = Some k \<longrightarrow> registered ops m k)"

text \<open>The global scope holds exactly the committed libraries with \<open>RTLD_GLOBAL\<close>.\<close>

definition inv_global_at :: "('c, 'i) link_ops \<Rightarrow> 'c manager \<Rightarrow> string \<Rightarrow> bool" where
  "inv_global_at ops m k \<longleftrightarrow> (\<forall>lib. im_get (global m) k = Some lib \<longleftrightarrow>
     (\<exists>meta. lc_view ops (link_ctx m) k = Some (lib, meta) \<and> is_global (gm_flags meta)))"

definition inv_global :: "('c, 'i) link_ops \<Rightarrow> 'c manager \<Rightarrow> bool" where
  "inv_global ops m \<longleftrightarrow> (\<forall>k. inv_global_at ops m k)"

text \<open>\<open>adds - subs\<close> counts the registered libraries, as \<open>dl_iterate_phdr\<close> reports them.\<close>

definition inv_counters :: "('c, 'i) link_ops \<Rightarrow> 'c manager \<Rightarrow> bool" where
  "inv_counters ops m \<longleftrightarrow>
     adds m - subs m = of_nat (length (im_keys (pending m)) + length (lc_names ops (link_ctx m)))"

definition base_inv :: "('c, 'i) link_ops \<Rightarrow> ('c \<Rightarrow> bool) \<Rightarrow> 'c manager \<Rightarrow> bool" where
  "base_inv ops ok m \<longleftrightarrow>
     inv_keys ops ok m \<and> inv_aliases ops m \<and> inv_identities ops m \<and> inv_counters ops m"

definition manager_inv :: "('c, 'i) link_ops \<Rightarrow> ('c \<Rightarrow> bool) \<Rightarrow> 'c manager \<Rightarrow> bool" where
  "manager_inv ops ok m \<longleftrightarrow> base_inv ops ok m \<and> inv_global ops m"

lemmas base_inv_defs = base_inv_def inv_keys_def inv_aliases_def inv_identities_def
  inv_counters_def
lemmas manager_inv_defs = manager_inv_def base_inv_defs inv_global_def inv_global_at_def

text \<open>
  Two registries that hold the same libraries with the same flags and differ in the alias
  lists only.
\<close>

definition same_libs :: "('c, 'i) link_ops \<Rightarrow> 'c manager \<Rightarrow> 'c manager \<Rightarrow> bool" where
  "same_libs ops m m' \<longleftrightarrow>
     im_keys (pending m') = im_keys (pending m) \<and>
     (\<forall>k. map_option (\<lambda>p. (pd_inner p, pd_flags p)) (im_get (pending m') k) =
          map_option (\<lambda>p. (pd_inner p, pd_flags p)) (im_get (pending m) k)) \<and>
     lc_names ops (link_ctx m') = lc_names ops (link_ctx m) \<and>
     (\<forall>k. map_option (\<lambda>(lib, meta). (lib, gm_flags meta)) (lc_view ops (link_ctx m') k) =
          map_option (\<lambda>(lib, meta). (lib, gm_flags meta)) (lc_view ops (link_ctx m) k)) \<and>
     global m' = global m \<and> identities m' = identities m \<and> adds m' = adds m \<and> subs m' = subs m"

definition keeps :: "('c, 'i) link_ops \<Rightarrow> 'c manager \<Rightarrow> 'c manager \<Rightarrow> bool" where
  "keeps ops m m' \<longleftrightarrow> (\<forall>k lib meta. lc_view ops (link_ctx m) k = Some (lib, meta) \<longrightarrow>
     (\<exists>meta'. lc_view ops (link_ctx m') k = Some (lib, meta') \<and> gm_flags meta' = gm_flags meta))"

lemma keeps_view:
  "keeps ops m m' \<Longrightarrow> lc_view ops (link_ctx m) k \<noteq> None \<Longrightarrow> lc_view ops (link_ctx m') k \<noteq> None"
  unfolding keeps_def by fastforce

lemma keeps_refl [simp]: "keeps ops m m"
  by (simp add: keeps_def)

lemma same_libs_refl [simp]: "same_libs ops m m"
  by (simp add: same_libs_def)

lemma same_libs_trans: "same_libs ops m m' \<Longrightarrow> same_libs ops m' m'' \<Longrightarrow> same_libs ops m m''"
  by (simp add: same_libs_def)

lemma same_libs_view:
  assumes "same_libs ops m m'" "lc_view ops (link_ctx m) k = Some (lib, meta)"
  shows "\<exists>meta'. lc_view ops (link_ctx m') k = Some (lib, meta') \<and> gm_flags meta' = gm_flags meta"
proof -
  from assms have "map_option (\<lambda>(lib, meta). (lib, gm_flags meta)) (lc_view ops (link_ctx m') k) =
    Some (lib, gm_flags meta)" by (simp add: same_libs_def)
  then show ?thesis by auto
qed

lemma same_libs_view_None:
  "same_libs ops m m' \<Longrightarrow> lc_view ops (link_ctx m') k = None \<longleftrightarrow> lc_view ops (link_ctx m) k = None"
  using option.map_disc_iff unfolding same_libs_def by (elim conjE allE [of _ k]) fastforce

lemma same_libs_pending_None:
  "same_libs ops m m' \<Longrightarrow> im_get (pending m') k = None \<longleftrightarrow> im_get (pending m) k = None"
  using option.map_disc_iff unfolding same_libs_def by (elim conjE allE [of _ k]) fastforce

lemma same_libs_registered: "same_libs ops m m' \<Longrightarrow> registered ops m' = registered ops m"
  by (rule ext) (simp only: registered_def same_libs_view_None same_libs_pending_None)

lemma same_libs_inv_global_at:
  assumes "same_libs ops m m'"
  shows "inv_global_at ops m' k = inv_global_at ops m k"
proof -
  have "(\<exists>meta. lc_view ops (link_ctx m') k = Some (lib, meta) \<and> is_global (gm_flags meta)) \<longleftrightarrow>
        (\<exists>meta. lc_view ops (link_ctx m) k = Some (lib, meta) \<and> is_global (gm_flags meta))" for lib
    using same_libs_view [OF assms] same_libs_view_None [OF assms, of k]
    by (cases "lc_view ops (link_ctx m) k") fastforce+
  with assms show ?thesis by (simp add: inv_global_at_def same_libs_def)
qed

text \<open>Fields an operation does not write.\<close>

lemma manager_frames [simp]:
  "libnames_of ops (m\<lparr>identities := x\<rparr>) = libnames_of ops m"
  "libnames_of ops (m\<lparr>global := g\<rparr>) = libnames_of ops m"
  "libnames_of ops (m\<lparr>aliases := a\<rparr>) = libnames_of ops m"
  "libnames_of ops (m\<lparr>adds := n\<rparr>) = libnames_of ops m"
  "libnames_of ops (m\<lparr>subs := n\<rparr>) = libnames_of ops m"
  "registered ops (m\<lparr>identities := x\<rparr>) = registered ops m"
  "registered ops (m\<lparr>global := g\<rparr>) = registered ops m"
  "registered ops (m\<lparr>aliases := a\<rparr>) = registered ops m"
  "registered ops (m\<lparr>adds := n\<rparr>) = registered ops m"
  "registered ops (m\<lparr>subs := n\<rparr>) = registered ops m"
  by (simp_all add: libnames_of_def registered_def fun_eq_iff)

lemma add_identity_frame [simp]:
  "link_ctx (add_identity_opt i k m) = link_ctx m" "pending (add_identity_opt i k m) = pending m"
  "global (add_identity_opt i k m) = global m" "aliases (add_identity_opt i k m) = aliases m"
  "adds (add_identity_opt i k m) = adds m" "subs (add_identity_opt i k m) = subs m"
  by (simp_all add: add_identity_opt_def add_identity_def split: option.splits)

lemma add_global_frame [simp]:
  "link_ctx (add_global k lib m) = link_ctx m" "pending (add_global k lib m) = pending m"
  "aliases (add_global k lib m) = aliases m" "identities (add_global k lib m) = identities m"
  "adds (add_global k lib m) = adds m" "subs (add_global k lib m) = subs m"
  "keeps ops m' (add_global k lib m) = keeps ops m' m"
  by (simp_all add: add_global_def keeps_def)

lemma remove_aliases_apply:
  "remove_aliases as al a = (if a \<in> set as then None else al a)"
  by (induction as arbitrary: al) auto

lemma retain_identities_Some:
  "retain_identities s ids i = Some n \<longleftrightarrow> ids i = Some n \<and> n \<noteq> s"
  by (auto simp: retain_identities_def split: option.splits)

lemma im_keys_length_pending:
  "im_get p k = Some v \<Longrightarrow> im_wf p \<Longrightarrow>
     length (im_keys p) = Suc (length (im_keys (im_shift_remove k p)))"
  using im.length_keys_remove im.get_Some_key by metis

context link_context
begin

section \<open>Observations of the registry through the contract\<close>

lemma committed_id_None: "ok (link_ctx m) \<Longrightarrow>
    committed_id ops m k = None \<longleftrightarrow> lc_view ops (link_ctx m) k = None"
  using contains_meta [of "link_ctx m"] contains_get [of "link_ctx m"]
  by (force simp: committed_id_def lc_view_def split: option.splits)

lemma committed_id_Some: "ok (link_ctx m) \<Longrightarrow> lc_view ops (link_ctx m) k = Some (lib, meta) \<Longrightarrow>
    \<exists>i. committed_id ops m k = Some i \<and> lc_key_id ops (link_ctx m) k = Some i \<and>
        lc_contains ops (link_ctx m) i \<and>
        lc_get ops (link_ctx m) i = Some lib \<and> lc_meta ops (link_ctx m) i = Some meta"
  by (auto simp: view_Some_iff committed_id_def)

lemma committed_lookup_view: "ok (link_ctx m) \<Longrightarrow>
    committed_lookup ops m k = map_option (\<lambda>(lib, _). Relocated k (dl_name lib)) (lc_view ops (link_ctx m) k)"
  using committed_id_None [of m k] committed_id_Some [of m k]
  by (cases "lc_view ops (link_ctx m) k") (auto simp: committed_lookup_def)

lemma committed_flags_view: "ok (link_ctx m) \<Longrightarrow>
    committed_flags ops m k = map_option (gm_flags \<circ> snd) (lc_view ops (link_ctx m) k)"
  using committed_id_None [of m k] committed_id_Some [of m k]
  by (cases "lc_view ops (link_ctx m) k") (auto simp: committed_flags_def)

lemma contains_canonical_key_iff: "ok (link_ctx m) \<Longrightarrow>
    contains_canonical_key ops m k \<longleftrightarrow> registered ops m k"
  by (simp add: contains_canonical_key_def registered_def committed_id_None)

lemma not_contained_iff: "ok (link_ctx m) \<Longrightarrow>
    lc_contains_key ops (link_ctx m) k \<longleftrightarrow> lc_view ops (link_ctx m) k \<noteq> None"
  by (rule view_contains_key)

lemma length_names_remove:
  "ok c \<Longrightarrow> lc_view ops c k \<noteq> None \<Longrightarrow>
    length (lc_names ops c) = Suc (length (filter (\<lambda>n. n \<noteq> k) (lc_names ops c)))"
proof -
  assume c: "ok c" and "lc_view ops c k \<noteq> None"
  then have "k \<in> set (lc_names ops c)" by (simp add: names_set)
  with names_distinct [OF c] have "length (filter (\<lambda>n. n = k) (lc_names ops c)) = 1"
    by (simp add: distinct_length_filter)
  with sum_length_filter_compl [of "\<lambda>n. n = k" "lc_names ops c"] show ?thesis by simp
qed

section \<open>Effect of the operations\<close>

lemma add_loaded_Ok:
  assumes "ok (link_ctx m)" "lc_view ops (link_ctx m) k = None"
  shows "\<exists>c. add_loaded ops k lib f m = Ok (m\<lparr>link_ctx := c, adds := adds m + 1\<rparr>) \<and> ok c \<and>
     lc_names ops c = lc_names ops (link_ctx m) @ [k] \<and>
     lc_view ops c = (lc_view ops (link_ctx m))(k \<mapsto> (lib, \<lparr>gm_flags = f, gm_libnames = []\<rparr>))"
proof -
  have "\<not> lc_contains_key ops (link_ctx m) k" using assms by (simp add: not_contained_iff)
  from insert_fresh [OF assms(1) this, of lib "canonical_direct_deps ops m lib"
      "\<lparr>gm_flags = f, gm_libnames = []\<rparr>"]
  show ?thesis by (auto simp: add_loaded_def)
qed

lemma inv_new: "manager_inv ops ok (manager_new ops)"
  by (simp add: manager_inv_defs manager_new_def ok_new im.wf_empty view_new names_new
      libnames_of_def registered_def im.get_dom) (simp add: im_get_def)

lemma inv_add_pending_reservation:
  assumes "manager_inv ops ok m" "\<not> registered ops m k"
  shows "manager_inv ops ok (add_pending_reservation k f m)"
proof -
  let ?m = "add_pending_reservation k f m"
  from assms have fresh: "im_get (pending m) k = None" "lc_view ops (link_ctx m) k = None"
    by (simp_all add: registered_def)
  have names: "libnames_of ops ?m j = libnames_of ops m j" for j
    using fresh by (simp add: libnames_of_def add_pending_reservation_def pending_reserved_def)
  have reg: "registered ops ?m j \<longleftrightarrow> j = k \<or> registered ops m j" for j
    by (auto simp: registered_def add_pending_reservation_def)
  have "inv_keys ops ok ?m" "inv_global ops ?m" "inv_counters ops ?m"
    using assms(1) fresh im.get_dom [of "pending m" k]
    by (auto simp: manager_inv_defs add_pending_reservation_def pending_reserved_def im.wf_insert
        algebra_simps)
  moreover have "inv_aliases ops ?m" "inv_identities ops ?m"
    using assms(1) names reg
    by (auto simp: manager_inv_defs) (auto simp: add_pending_reservation_def)
  ultimately show ?thesis by (simp add: manager_inv_def base_inv_def)
qed

lemma inv_add_identity_opt:
  "manager_inv ops ok m \<Longrightarrow> registered ops m k \<Longrightarrow> manager_inv ops ok (add_identity_opt i k m)"
  by (cases i) (auto simp: add_identity_opt_def add_identity_def manager_inv_defs)

text \<open>An alias goes to the end of the list of the library that owns it.\<close>

lemma add_alias_Ok:
  assumes inv: "base_inv ops ok m" and reg: "registered ops m k"
  shows "\<exists>m'. add_alias ops k a m = Ok m' \<and> base_inv ops ok m' \<and> same_libs ops m m'"
proof (cases "registered ops m a \<or> aliases m a \<noteq> None")
  case True
  with inv show ?thesis
    by (auto simp: add_alias_def contains_canonical_key_iff base_inv_def inv_keys_def)
next
  case False
  then have unused: "aliases m a = None" "\<not> registered ops m a" by auto
  from inv have ok: "ok (link_ctx m)" by (simp add: base_inv_def inv_keys_def)
  from inv unused have free: "a \<notin> set (libnames_of ops m j)" for j
    by (auto simp: base_inv_def inv_aliases_def) (metis option.discI)
  show ?thesis
  proof (cases "im_get (pending m) k")
    case (Some p)
    let ?p = "p\<lparr>pd_libnames := pd_libnames p @ [a]\<rparr>"
    let ?m = "m\<lparr>pending := im_insert k ?p (pending m), aliases := (aliases m)(a \<mapsto> k)\<rparr>"
    have key: "k \<in> set (im_keys (pending m))" using Some by (rule im.get_Some_key)
    have names: "libnames_of ops ?m j =
        (if j = k then libnames_of ops m k @ [a] else libnames_of ops m j)" for j
      using Some by (simp add: libnames_of_def)
    have same: "same_libs ops m ?m" using Some key by (simp add: same_libs_def)
    have "base_inv ops ok ?m"
      using inv Some key names free same_libs_registered [OF same]
      by (auto simp: base_inv_defs im.wf_insert)
    with same show ?thesis
      using False Some ok by (auto simp: add_alias_def contains_canonical_key_iff)
  next
    case None
    with reg obtain lib meta where view: "lc_view ops (link_ctx m) k = Some (lib, meta)"
      by (auto simp: registered_def)
    from committed_id_Some [OF ok view] obtain i where i: "lc_key_id ops (link_ctx m) k = Some i"
      "lc_meta ops (link_ctx m) i = Some meta" by auto
    let ?meta = "meta\<lparr>gm_libnames := gm_libnames meta @ [a]\<rparr>"
    let ?c = "lc_set_meta ops i ?meta (link_ctx m)"
    let ?m = "m\<lparr>link_ctx := ?c, aliases := (aliases m)(a \<mapsto> k)\<rparr>"
    note c = set_meta [OF ok view i(1), of ?meta]
    have names: "libnames_of ops ?m j =
        (if j = k then libnames_of ops m k @ [a] else libnames_of ops m j)" for j
      using None view c by (simp add: libnames_of_def)
    have same: "same_libs ops m ?m" using view c by (simp add: same_libs_def)
    have "base_inv ops ok ?m"
      using inv None c names free same_libs_registered [OF same]
      by (auto simp: base_inv_defs)
    with same show ?thesis
      using False None ok i by (auto simp: add_alias_def contains_canonical_key_iff)
  qed
qed

lemma add_aliases_Ok:
  "base_inv ops ok m \<Longrightarrow> registered ops m k \<Longrightarrow>
     \<exists>m'. add_aliases ops k as m = Ok m' \<and> base_inv ops ok m' \<and> same_libs ops m m'"
proof (induction as arbitrary: m)
  case Nil
  then show ?case by simp
next
  case (Cons a as)
  from add_alias_Ok [OF Cons.prems, of a] obtain m1 where
    m1: "add_alias ops k a m = Ok m1" "base_inv ops ok m1" "same_libs ops m m1" by blast
  with Cons.prems have "registered ops m1 k" by (simp add: same_libs_registered)
  from Cons.IH [OF m1(2) this] m1 show ?case by (auto intro: same_libs_trans)
qed

lemma inv_global_at_upd [simp]:
  "inv_global_at ops (m\<lparr>identities := x\<rparr>) k = inv_global_at ops m k"
  "inv_global_at ops (m\<lparr>aliases := a\<rparr>) k = inv_global_at ops m k"
  "inv_global_at ops (m\<lparr>adds := n\<rparr>) k = inv_global_at ops m k"
  "inv_global_at ops (m\<lparr>subs := n\<rparr>) k = inv_global_at ops m k"
  "inv_global_at ops (m\<lparr>pending := p\<rparr>) k = inv_global_at ops m k"
  by (simp_all add: inv_global_at_def)

lemma inv_add_global:
  assumes "base_inv ops ok m" "\<And>j. j \<noteq> k \<Longrightarrow> inv_global_at ops m j"
    and "lc_view ops (link_ctx m) k = Some (lib, meta)" "is_global (gm_flags meta)"
  shows "manager_inv ops ok (add_global k lib m)"
  using assms by (auto simp: manager_inv_defs add_global_def im.wf_insert libnames_of_def registered_def)

lemma same_libs_manager_inv:
  "same_libs ops m m' \<Longrightarrow> base_inv ops ok m' \<Longrightarrow> inv_global ops m \<Longrightarrow> manager_inv ops ok m'"
  by (simp add: manager_inv_def inv_global_def same_libs_inv_global_at)

lemma inv_add_aliases:
  "manager_inv ops ok m \<Longrightarrow> registered ops m k \<Longrightarrow>
     \<exists>m'. add_aliases ops k as m = Ok m' \<and> manager_inv ops ok m' \<and> same_libs ops m m'"
  using add_aliases_Ok [of m k as] same_libs_manager_inv by (force simp: manager_inv_def)

lemma inv_reserve_pending:
  assumes "manager_inv ops ok m" "\<not> registered ops m k"
  shows "\<exists>m'. reserve_pending ops k full i f m = Ok m' \<and> manager_inv ops ok m' \<and>
     same_libs ops (add_identity_opt i k (add_pending_reservation k (normalized_flags full f) m)) m'"
proof -
  let ?m1 = "add_pending_reservation k (normalized_flags full f) m"
  let ?m2 = "add_identity_opt i k ?m1"
  have reg: "registered ops ?m1 k" by (simp add: add_pending_reservation_def registered_def)
  then have reg2: "registered ops ?m2 k"
    by (simp add: add_identity_opt_def add_identity_def split: option.splits)
  have "manager_inv ops ok ?m2"
    using inv_add_identity_opt [OF inv_add_pending_reservation [OF assms] reg] .
  from inv_add_aliases [OF this reg2] show ?thesis by (simp add: reserve_pending_def)
qed

section \<open>Removal\<close>

text \<open>
  What is left after a removal: the library is gone from both tables, from the global scope,
  from the aliases and from the identities, and nothing else changed.
\<close>

definition removed_from :: "string \<Rightarrow> 'c manager \<Rightarrow> 'c manager \<Rightarrow> bool" where
  "removed_from k m m' \<longleftrightarrow>
     pending m' = im_shift_remove k (pending m) \<and>
     global m' = im_shift_remove k (global m) \<and>
     lc_names ops (link_ctx m') = filter (\<lambda>n. n \<noteq> k) (lc_names ops (link_ctx m)) \<and>
     lc_view ops (link_ctx m') = (lc_view ops (link_ctx m))(k := None) \<and>
     aliases m' = (\<lambda>a. if aliases m a = Some k then None else aliases m a) \<and>
     identities m' = retain_identities k (identities m) \<and>
     adds m' = adds m \<and> subs m' = subs m + 1"

lemma removed_libnames:
  "removed_from k m m' \<Longrightarrow> libnames_of ops m' j = (if j = k then [] else libnames_of ops m j)"
  by (auto simp: removed_from_def libnames_of_def)

lemma removed_registered:
  "removed_from k m m' \<Longrightarrow> registered ops m' j \<longleftrightarrow> j \<noteq> k \<and> registered ops m j"
  by (auto simp: removed_from_def registered_def)

lemma inv_removed_from:
  assumes inv: "manager_inv ops ok m" and reg: "registered ops m k"
    and rem: "removed_from k m m'" and ok': "ok (link_ctx m')"
  shows "manager_inv ops ok m'"
proof -
  have "inv_keys ops ok m'"
    using inv ok' rem by (auto simp: manager_inv_defs removed_from_def im.wf_remove split: if_splits)
  moreover have "inv_aliases ops m'"
  proof -
    have "aliases m' a = Some j \<longleftrightarrow> j \<noteq> k \<and> aliases m a = Some j" for a j
      using rem by (auto simp: removed_from_def)
    with inv show ?thesis
      by (simp add: manager_inv_def base_inv_def inv_aliases_def removed_libnames [OF rem])
  qed
  moreover have "inv_identities ops m'"
    unfolding inv_identities_def removed_registered [OF rem]
    using inv rem by (auto simp: manager_inv_defs removed_from_def retain_identities_Some)
  moreover have "inv_global ops m'"
    using inv rem by (auto simp: manager_inv_defs removed_from_def)
  moreover have "inv_counters ops m'"
  proof -
    have ctx: "ok (link_ctx m)" "im_wf (pending m)"
      using inv by (auto simp: manager_inv_defs)
    have "length (im_keys (pending m)) + length (lc_names ops (link_ctx m)) =
        Suc (length (im_keys (pending m')) + length (lc_names ops (link_ctx m')))"
    proof (cases "im_get (pending m) k")
      case (Some p)
      then have "lc_view ops (link_ctx m) k = None" using inv by (auto simp: manager_inv_defs)
      then have "k \<notin> set (lc_names ops (link_ctx m))" using ctx by (simp add: names_set)
      then have "filter (\<lambda>n. n \<noteq> k) (lc_names ops (link_ctx m)) = lc_names ops (link_ctx m)"
        by (simp add: filter_id_conv) metis
      with im_keys_length_pending [OF Some ctx(2)] rem show ?thesis
        by (simp add: removed_from_def)
    next
      case None
      then have view: "lc_view ops (link_ctx m) k \<noteq> None" using reg by (simp add: registered_def)
      from None have "k \<notin> set (im_keys (pending m))" by (simp add: im.get_dom)
      with length_names_remove [OF ctx(1) view] rem show ?thesis
        by (simp add: removed_from_def im_shift_remove_absent)
    qed
    with inv rem show ?thesis
      by (simp add: manager_inv_defs removed_from_def algebra_simps)
  qed
  ultimately show ?thesis by (simp add: manager_inv_def base_inv_def)
qed

lemma remove_aliases_inverse:
  assumes "inv_aliases ops m"
  shows "remove_aliases (libnames_of ops m k) (aliases m) =
    (\<lambda>a. if aliases m a = Some k then None else aliases m a)"
  using assms by (simp add: fun_eq_iff remove_aliases_apply inv_aliases_def)

lemma remove_Ok:
  assumes inv: "manager_inv ops ok m" and reg: "registered ops m k"
  shows "\<exists>m'. remove ops k m = Ok m' \<and> manager_inv ops ok m' \<and> removed_from k m m'"
proof -
  from inv have ok: "ok (link_ctx m)" and al: "inv_aliases ops m" by (auto simp: manager_inv_defs)
  note drop_names = remove_aliases_inverse [OF al, of k]
  show ?thesis
  proof (cases "im_get (pending m) k")
    case (Some p)
    let ?m = "finish_remove k (pd_libnames p) (m\<lparr>pending := im_shift_remove k (pending m)\<rparr>)"
    from Some inv have gone: "lc_view ops (link_ctx m) k = None" by (auto simp: manager_inv_defs)
    then have "(lc_view ops (link_ctx m))(k := None) = lc_view ops (link_ctx m)"
      by (rule fun_upd_idem)
    moreover from gone ok have "k \<notin> set (lc_names ops (link_ctx m))" by (simp add: names_set)
    then have "filter (\<lambda>n. n \<noteq> k) (lc_names ops (link_ctx m)) = lc_names ops (link_ctx m)"
      by (simp add: filter_id_conv) metis
    moreover have "libnames_of ops m k = pd_libnames p" using Some by (simp add: libnames_of_def)
    ultimately have rem: "removed_from k m ?m"
      using drop_names by (simp add: removed_from_def finish_remove_def)
    then have "manager_inv ops ok ?m"
      using inv_removed_from [OF inv reg] ok by (simp add: finish_remove_def)
    with rem Some show ?thesis by (simp add: remove_def)
  next
    case None
    with reg obtain lib meta where view: "lc_view ops (link_ctx m) k = Some (lib, meta)"
      by (auto simp: registered_def)
    from committed_id_Some [OF ok view] obtain i where i: "committed_id ops m k = Some i"
      "lc_key_id ops (link_ctx m) k = Some i" by auto
    from local.remove [OF ok view i(2)] obtain c where c: "lc_remove ops i (link_ctx m) = Some (meta, c)"
      "ok c" "lc_names ops c = filter (\<lambda>n. n \<noteq> k) (lc_names ops (link_ctx m))"
      "lc_view ops c = (lc_view ops (link_ctx m))(k := None)" by blast
    let ?m = "finish_remove k (gm_libnames meta) (m\<lparr>link_ctx := c\<rparr>)"
    from None have "im_shift_remove k (pending m) = pending m"
      by (simp add: im_shift_remove_absent im.get_dom)
    moreover have "libnames_of ops m k = gm_libnames meta" using None view by (simp add: libnames_of_def)
    ultimately have rem: "removed_from k m ?m"
      using drop_names c by (simp add: removed_from_def finish_remove_def)
    then have "manager_inv ops ok ?m"
      using inv_removed_from [OF inv reg] c by (simp add: finish_remove_def)
    with rem None i c show ?thesis by (simp add: remove_def)
  qed
qed

lemma remove_unregistered:
  "ok (link_ctx m) \<Longrightarrow> \<not> registered ops m k \<Longrightarrow> remove ops k m = Panic ''Library is not registered''"
  using committed_id_None [of m k] by (simp add: remove_def registered_def)

section \<open>Promotion\<close>

lemma promote_Ok:
  assumes inv: "manager_inv ops ok m" and view: "lc_view ops (link_ctx m) k = Some (lib, meta)"
  shows "\<exists>m'. promote ops k f m = Ok m' \<and> manager_inv ops ok m' \<and>
     (\<exists>meta'. lc_view ops (link_ctx m') = (lc_view ops (link_ctx m))(k \<mapsto> (lib, meta')) \<and>
        gm_libnames meta' = gm_libnames meta \<and>
        gm_flags meta' = gm_flags meta OR promotable f) \<and>
     lc_names ops (link_ctx m') = lc_names ops (link_ctx m) \<and>
     pending m' = pending m \<and> aliases m' = aliases m \<and> identities m' = identities m \<and>
     adds m' = adds m \<and> subs m' = subs m"
proof -
  from inv have ok: "ok (link_ctx m)" by (simp add: manager_inv_defs)
  from committed_id_Some [OF ok view] obtain i where i: "committed_id ops m k = Some i"
    "lc_key_id ops (link_ctx m) k = Some i" "lc_meta ops (link_ctx m) i = Some meta" by auto
  let ?meta = "meta\<lparr>gm_flags := gm_flags meta OR promotable f\<rparr>"
  show ?thesis
  proof (cases "flags_contain (gm_flags meta) (promotable f)")
    case True
    then have "gm_flags meta OR promotable f = gm_flags meta"
      by (auto simp: flags_contain_iff bit_or_iff intro!: bit_eqI)
    with True inv view i show ?thesis
      by (intro exI [of _ m] conjI exI [of _ meta]) (auto simp: promote_def)
  next
    case False
    let ?c = "lc_set_meta ops i ?meta (link_ctx m)"
    let ?m = "m\<lparr>link_ctx := ?c\<rparr>"
    note c = set_meta [OF ok view i(2), of ?meta]
    have base: "base_inv ops ok ?m"
      using inv c view by (auto simp: manager_inv_defs libnames_of_def registered_def split: option.splits)
    have others: "j \<noteq> k \<Longrightarrow> inv_global_at ops ?m j" for j
      using inv c by (auto simp: manager_inv_defs)
    have viewk: "lc_view ops ?c k = Some (lib, ?meta)" using c by simp
    show ?thesis
    proof (cases "is_global f")
      case True
      have "lc_get ops ?c i = Some lib"
        using set_meta_get [OF ok view i(2)] .
      then show ?thesis
        using True False i inv_add_global [OF base others, of k lib ?meta] c viewk
        by (auto simp: promote_def add_global_def)
    next
      case nonglobal: False
      have "inv_global_at ops ?m k"
        using inv c view nonglobal by (auto simp: manager_inv_defs)
      with others have "inv_global ops ?m" by (metis inv_global_def)
      with base nonglobal False i c show ?thesis
        by (intro exI [of _ ?m]) (auto simp: promote_def manager_inv_def)
    qed
  qed
qed

section \<open>Registration, merging and rebuilding\<close>

text \<open>Entering a module in the link context, with its pending entry (if any) taken over.\<close>

lemma base_inv_commit:
  assumes inv: "manager_inv ops ok m" and free: "lc_view ops (link_ctx m) k = None"
    and c: "ok c" "lc_names ops c = lc_names ops (link_ctx m) @ [k]"
      "lc_view ops c = (lc_view ops (link_ctx m))(k \<mapsto> (lib, meta))"
    and meta: "gm_libnames meta = libnames_of ops m k"
  defines "m' \<equiv> m\<lparr>pending := im_shift_remove k (pending m), link_ctx := c,
      adds := (if im_get (pending m) k \<noteq> None then adds m else adds m + 1)\<rparr>"
  shows "base_inv ops ok m'" and "j \<noteq> k \<Longrightarrow> inv_global_at ops m' j" and "registered ops m' k"
    and "im_get (global m') k = None"
proof -
  have names: "libnames_of ops m' j = libnames_of ops m j" for j
    using meta free c by (auto simp: m'_def libnames_of_def split: option.splits)
  have reg: "registered ops m' j \<longleftrightarrow> j = k \<or> registered ops m j" for j
    using c by (auto simp: m'_def registered_def)
  have "inv_keys ops ok m'"
    using inv c by (auto simp: m'_def manager_inv_defs im.wf_remove)
  moreover have "inv_aliases ops m'"
    using inv names by (simp add: manager_inv_def base_inv_def inv_aliases_def) (simp add: m'_def)
  moreover have "inv_identities ops m'"
    using inv reg by (auto simp: manager_inv_def base_inv_def inv_identities_def) (auto simp: m'_def)
  moreover have "inv_counters ops m'"
  proof (cases "im_get (pending m) k")
    case None
    with inv c show ?thesis
      by (simp add: m'_def manager_inv_defs im.get_dom im_shift_remove_absent algebra_simps)
  next
    case (Some p)
    from inv have "im_wf (pending m)" by (simp add: manager_inv_defs)
    from im_keys_length_pending [OF Some this] Some inv c show ?thesis
      by (simp add: m'_def manager_inv_defs)
  qed
  ultimately show "base_inv ops ok m'" by (simp add: base_inv_def)
  show "j \<noteq> k \<Longrightarrow> inv_global_at ops m' j"
    using inv c by (auto simp: m'_def manager_inv_defs)
  show "registered ops m' k" using reg by simp
  show "im_get (global m') k = None"
    using inv free by (cases "im_get (global m) k") (auto simp: m'_def manager_inv_defs)
qed

text \<open>
  The common end of \<open>register_loaded\<close> and \<open>merge_link_context\<close>: identity, aliases and, for a
  global library, the global scope.
\<close>

lemma inv_publish:
  assumes base: "base_inv ops ok m" and others: "\<And>j. j \<noteq> k \<Longrightarrow> inv_global_at ops m j"
    and view: "lc_view ops (link_ctx m) k = Some (lib, meta)" and nog: "im_get (global m) k = None"
  shows "\<exists>m2. add_aliases ops k as (add_identity_opt i k m) = Ok m2 \<and>
     same_libs ops (add_identity_opt i k m) m2 \<and>
     manager_inv ops ok (if is_global (gm_flags meta) then add_global k lib m2 else m2)"
proof -
  let ?m1 = "add_identity_opt i k m"
  have reg: "registered ops m k" using view by (simp add: registered_def)
  have base1: "base_inv ops ok ?m1"
    using base reg by (cases i) (auto simp: add_identity_opt_def add_identity_def base_inv_defs)
  have reg1: "registered ops ?m1 k"
    using reg by (simp add: add_identity_opt_def add_identity_def split: option.splits)
  from add_aliases_Ok [OF base1 reg1] obtain m2 where
    m2: "add_aliases ops k as ?m1 = Ok m2" "base_inv ops ok m2" "same_libs ops ?m1 m2" by blast
  have glob1: "j \<noteq> k \<Longrightarrow> inv_global_at ops ?m1 j" for j
    using others by (simp add: add_identity_opt_def add_identity_def split: option.splits)
  then have glob2: "j \<noteq> k \<Longrightarrow> inv_global_at ops m2 j" for j
    using same_libs_inv_global_at [OF m2(3)] by simp
  have view1: "lc_view ops (link_ctx ?m1) k = Some (lib, meta)" and "im_get (global ?m1) k = None"
    using view nog by (simp_all add: add_identity_opt_def add_identity_def split: option.splits)
  with m2(3) have nog2: "im_get (global m2) k = None" by (simp add: same_libs_def)
  from same_libs_view [OF m2(3) view1] obtain meta2 where
    view2: "lc_view ops (link_ctx m2) k = Some (lib, meta2)" "gm_flags meta2 = gm_flags meta" by blast
  show ?thesis
  proof (cases "is_global (gm_flags meta)")
    case True
    with m2 view2 inv_add_global [OF m2(2) glob2 view2(1)] show ?thesis by auto
  next
    case False
    with view2 nog2 have "inv_global_at ops m2 k" by (simp add: inv_global_at_def)
    with glob2 have "inv_global ops m2" by (metis inv_global_def)
    with m2 False show ?thesis by (simp add: manager_inv_def)
  qed
qed

lemma inv_register_loaded:
  assumes inv: "manager_inv ops ok m" and fresh: "\<not> registered ops m (dylib_shortname lib)"
    and glob: "dl_name lib = [] \<Longrightarrow> is_global f"
  shows "\<exists>m'. register_loaded ops lib f m = Ok m' \<and> manager_inv ops ok m' \<and>
    lc_names ops (link_ctx m') = lc_names ops (link_ctx m) @ [dylib_shortname lib] \<and> im_keys (pending m') = im_keys (pending m)"
proof -
  let ?k = "dylib_shortname lib" and ?f = "normalized_flags (dl_name lib) f"
  let ?meta = "\<lparr>gm_flags = ?f, gm_libnames = []\<rparr>"
  have isg: "is_global ?f = is_global f" by (simp add: normalized_flags_def)
  from inv have ok: "ok (link_ctx m)" by (simp add: manager_inv_defs)
  from fresh have free: "im_get (pending m) ?k = None" "lc_view ops (link_ctx m) ?k = None"
    by (auto simp: registered_def)
  from add_loaded_Ok [OF ok free(2)] obtain c where
    add: "add_loaded ops ?k lib ?f m = Ok (m\<lparr>link_ctx := c, adds := adds m + 1\<rparr>)"
    and c: "ok c" "lc_names ops c = lc_names ops (link_ctx m) @ [?k]"
      "lc_view ops c = (lc_view ops (link_ctx m))(?k \<mapsto> (lib, ?meta))" by blast
  let ?m = "m\<lparr>link_ctx := c, adds := adds m + 1\<rparr>"
  have "im_shift_remove ?k (pending m) = pending m"
    using free by (simp add: im_shift_remove_absent im.get_dom)
  moreover have "gm_libnames ?meta = libnames_of ops m ?k" using free by (simp add: libnames_of_def)
  ultimately have base: "base_inv ops ok ?m" and others: "\<And>j. j \<noteq> ?k \<Longrightarrow> inv_global_at ops ?m j"
    and nog: "im_get (global ?m) ?k = None"
    using base_inv_commit [OF inv free(2) c] free by simp_all
  have view: "lc_view ops (link_ctx ?m) ?k = Some (lib, ?meta)" using c by simp
  from inv_publish [OF base others view nog, of "libc_compat_aliases ?k"
      "ed_file_identity (dl_user_data lib)"]
  obtain m2 where "add_aliases ops ?k (libc_compat_aliases ?k)
      (add_identity_opt (ed_file_identity (dl_user_data lib)) ?k ?m) = Ok m2"
    and "same_libs ops (add_identity_opt (ed_file_identity (dl_user_data lib)) ?k ?m) m2"
      "manager_inv ops ok (if is_global ?f then add_global ?k lib m2 else m2)" by auto
  moreover from this(2) c(2) have "lc_names ops (link_ctx m2) = lc_names ops (link_ctx m) @ [?k]" "im_keys (pending m2) = im_keys (pending m)"
    by (auto simp: same_libs_def add_identity_opt_def add_identity_def split: option.splits)
  ultimately show ?thesis using add glob isg by (auto simp: register_loaded_def Let_def add_global_def)
qed

lemma dep_keys_Ok: "(\<And>d. d \<in> set ds \<Longrightarrow> lc_key ops c d \<noteq> None) \<Longrightarrow> \<exists>ks. dep_keys ops c msg ds = Ok ks"
proof (induction ds)
  case (Cons d ds)
  then have "\<exists>ks. dep_keys ops c msg ds = Ok ks" "lc_key ops c d \<noteq> None" by simp_all
  then show ?case by (elim exE) auto
qed simp

text \<open>What was committed before stays committed, with the same module and flags.\<close>

lemma keeps_trans: "keeps ops m m' \<Longrightarrow> keeps ops m' m'' \<Longrightarrow> keeps ops m m''"
  unfolding keeps_def by metis

lemma inv_merge_one:
  assumes inv: "manager_inv ops ok m" and src: "ok source" and i: "lc_contains ops source i"
    and k: "lc_key ops source i = Some k"
  shows "\<exists>m'. merge_one ops source f i m = Ok m' \<and> manager_inv ops ok m' \<and> keeps ops m m' \<and>
     lc_view ops (link_ctx m') k \<noteq> None"
proof -
  from src i obtain lib where lib: "lc_get ops source i = Some lib" by (auto simp: contains_get)
  from deps_resolve [OF src i] obtain ds where ds: "lc_direct_deps ops source i = Some ds"
    "\<forall>d \<in> set ds. lc_key ops source d \<noteq> None" by blast
  from inv have ok: "ok (link_ctx m)" by (simp add: manager_inv_defs)
  show ?thesis
  proof (cases "lc_contains_key ops (link_ctx m) k")
    case True
    with k inv ok show ?thesis by (simp add: merge_one_def keeps_def not_contained_iff)
  next
    case False
    then have free: "lc_view ops (link_ctx m) k = None" using ok by (simp add: not_contained_iff)
    obtain ks where ks: "dep_keys ops source
        ''direct dependency id must resolve in source link context'' ds = Ok ks"
      using dep_keys_Ok ds(2) by blast
    let ?meta = "case im_get (pending m) k of
        Some p \<Rightarrow> \<lparr>gm_flags = pd_flags p, gm_libnames = pd_libnames p\<rparr>
      | None \<Rightarrow> \<lparr>gm_flags = normalized_flags (dl_name lib) f, gm_libnames = []\<rparr>"
    from insert_fresh [OF ok False, of lib ks ?meta] obtain c where
      ins: "lc_insert_with_meta ops k lib ks ?meta (link_ctx m) = Some c"
      and c: "ok c" "lc_names ops c = lc_names ops (link_ctx m) @ [k]"
        "lc_view ops c = (lc_view ops (link_ctx m))(k \<mapsto> (lib, ?meta))" by blast
    let ?m = "m\<lparr>pending := im_shift_remove k (pending m), link_ctx := c,
        adds := (if im_get (pending m) k \<noteq> None then adds m else adds m + 1)\<rparr>"
    have "gm_libnames ?meta = libnames_of ops m k"
      using free by (simp add: libnames_of_def split: option.splits)
    note commit = base_inv_commit [OF inv free c this]
    have view: "lc_view ops (link_ctx ?m) k = Some (lib, ?meta)" using c by simp
    from inv_publish [OF commit(1,2) view commit(4), of "libc_compat_aliases k"
        "ed_file_identity (dl_user_data lib)"]
    obtain m2 where m2: "add_aliases ops k (libc_compat_aliases k)
          (add_identity_opt (ed_file_identity (dl_user_data lib)) k ?m) = Ok m2"
        "same_libs ops (add_identity_opt (ed_file_identity (dl_user_data lib)) k ?m) m2"
        "manager_inv ops ok (if is_global (gm_flags ?meta) then add_global k lib m2 else m2)"
      by blast
    have keep: "keeps ops m m2"
      unfolding keeps_def
    proof (intro allI impI)
      fix j lib' meta'
      assume "lc_view ops (link_ctx m) j = Some (lib', meta')"
      moreover from this free have "j \<noteq> k" by auto
      ultimately have "lc_view ops (link_ctx (add_identity_opt (ed_file_identity (dl_user_data lib)) k ?m)) j
          = Some (lib', meta')" by (simp add: c(3))
      from same_libs_view [OF m2(2) this]
      show "\<exists>m'. lc_view ops (link_ctx m2) j = Some (lib', m') \<and> gm_flags m' = gm_flags meta'" .
    qed
    have "lc_view ops (link_ctx m2) k \<noteq> None"
      using same_libs_view [OF m2(2), of k] view by auto
    with keep m2 show ?thesis
      using k lib ds(1) ks ins False by (auto simp: merge_one_def Let_def)
  qed
qed

lemma inv_merge_link_context:
  "manager_inv ops ok m \<Longrightarrow> ok source \<Longrightarrow> (\<And>i. i \<in> set ids \<Longrightarrow> lc_contains ops source i) \<Longrightarrow>
     \<exists>m'. merge_link_context ops source f ids m = Ok m' \<and> manager_inv ops ok m' \<and> keeps ops m m' \<and>
       (\<forall>i \<in> set ids. \<exists>k. lc_key ops source i = Some k \<and> lc_view ops (link_ctx m') k \<noteq> None)"
proof (induction ids arbitrary: m)
  case (Cons i ids)
  from Cons.prems(2,3) contains_name obtain k where k: "lc_key ops source i = Some k" by fastforce
  from inv_merge_one [OF Cons.prems(1,2) _ k, of f] Cons.prems(3) obtain m1 where
    m1: "merge_one ops source f i m = Ok m1" "manager_inv ops ok m1" "keeps ops m m1"
      "lc_view ops (link_ctx m1) k \<noteq> None"
    by auto
  from Cons.IH [OF m1(2)] Cons.prems(2,3) obtain m' where
    m': "merge_link_context ops source f ids m1 = Ok m'" "manager_inv ops ok m'" "keeps ops m1 m'"
      "\<forall>i \<in> set ids. \<exists>k. lc_key ops source i = Some k \<and> lc_view ops (link_ctx m') k \<noteq> None"
    by auto
  from m'(3) m1(4) have "lc_view ops (link_ctx m') k \<noteq> None" by (rule keeps_view)
  moreover have "keeps ops m m'" using m1(3) m'(3) by (rule keeps_trans)
  moreover have "merge_link_context ops source f (i # ids) m = Ok m'" using m1(1) m'(1) by simp
  ultimately show ?case using k m'(2,4) by (intro exI [of _ m']) simp
qed simp

lemma rebuild_entries_Ok:
  "ok (link_ctx m) \<Longrightarrow> set is \<subseteq> set (lc_load_order ops (link_ctx m)) \<Longrightarrow>
     \<exists>es. rebuild_entries ops m is = Ok es \<and>
       map fst es = map (\<lambda>i. the (lc_key ops (link_ctx m) i)) is \<and>
       (\<forall>(k, lib, ds, meta) \<in> set es. lc_view ops (link_ctx m) k = Some (lib, meta))"
proof (induction "is")
  case (Cons i "is")
  then obtain es where es: "rebuild_entries ops m is = Ok es"
    "map fst es = map (\<lambda>i. the (lc_key ops (link_ctx m) i)) is"
    "\<forall>(k, lib, ds, meta) \<in> set es. lc_view ops (link_ctx m) k = Some (lib, meta)" by auto
  from Cons.prems load_order_views [of "link_ctx m" i] obtain k lib meta where
    "lc_key ops (link_ctx m) i = Some k" "lc_get ops (link_ctx m) i = Some lib"
    "lc_meta ops (link_ctx m) i = Some meta" "lc_view ops (link_ctx m) k = Some (lib, meta)" by auto
  with es show ?case by (simp add: rebuild_entry_def)
qed simp

lemma insert_entries_Ok:
  "ok c \<Longrightarrow> distinct (map fst es) \<Longrightarrow> (\<And>k. k \<in> fst ` set es \<Longrightarrow> lc_view ops c k = None) \<Longrightarrow>
     \<exists>c'. insert_entries ops es c = Ok c' \<and> ok c' \<and> lc_names ops c' = lc_names ops c @ map fst es \<and>
       lc_view ops c' = (\<lambda>k. case map_of es k of
          Some (lib, ds, meta) \<Rightarrow> Some (lib, meta) | None \<Rightarrow> lc_view ops c k)"
proof (induction es arbitrary: c)
  case (Cons e es)
  obtain k lib ds meta where e: "e = (k, lib, ds, meta)" by (cases e)
  with Cons.prems have "lc_view ops c k = None" by simp
  with Cons.prems(1) have "\<not> lc_contains_key ops c k" by (simp add: view_contains_key)
  from insert_fresh [OF Cons.prems(1) this, of lib ds meta] obtain c1 where
    c1: "lc_insert_with_meta ops k lib ds meta c = Some c1" "ok c1"
      "lc_names ops c1 = lc_names ops c @ [k]" "lc_view ops c1 = (lc_view ops c)(k \<mapsto> (lib, meta))"
    by blast
  have "distinct (map fst es)" and nk: "k \<notin> fst ` set es" using Cons.prems e by auto
  moreover have "j \<in> fst ` set es \<Longrightarrow> lc_view ops c1 j = None" for j
    using c1 nk Cons.prems(3) [of j] e by auto
  ultimately obtain c2 where c2: "insert_entries ops es c1 = Ok c2" "ok c2"
      "lc_names ops c2 = lc_names ops c1 @ map fst es"
      "lc_view ops c2 = (\<lambda>k. case map_of es k of
          Some (lib, ds, meta) \<Rightarrow> Some (lib, meta) | None \<Rightarrow> lc_view ops c1 k)"
    using Cons.IH [OF c1(2)] by blast
  from nk have "map_of es k = None" by (simp add: map_of_eq_None_iff)
  with c1 c2 e show ?case by (auto simp: fun_eq_iff split: option.splits)
qed simp

lemma rebuild_Ok:
  assumes inv: "manager_inv ops ok m"
  shows "\<exists>c. rebuild_link_ctx ops m = Ok (m\<lparr>link_ctx := c\<rparr>) \<and> ok c \<and>
     lc_names ops c = lc_names ops (link_ctx m) \<and> lc_view ops c = lc_view ops (link_ctx m) \<and>
     manager_inv ops ok (m\<lparr>link_ctx := c\<rparr>)"
proof -
  from inv have ok: "ok (link_ctx m)" by (simp add: manager_inv_defs)
  from rebuild_entries_Ok [OF ok, of "lc_load_order ops (link_ctx m)"] obtain es where
    es: "rebuild_entries ops m (lc_load_order ops (link_ctx m)) = Ok es"
      "map fst es = lc_names ops (link_ctx m)"
      "\<forall>(k, lib, ds, meta) \<in> set es. lc_view ops (link_ctx m) k = Some (lib, meta)"
    using ok by (auto simp: names_map)
  have "distinct (map fst es)" using es(2) names_distinct [OF ok] by simp
  from insert_entries_Ok [OF ok_new this] obtain c where
    c: "insert_entries ops es (lc_new ops) = Ok c" "ok c" "lc_names ops c = map fst es"
      "lc_view ops c = (\<lambda>k. case map_of es k of
          Some (lib, ds, meta) \<Rightarrow> Some (lib, meta) | None \<Rightarrow> lc_view ops (lc_new ops) k)"
    by (auto simp: view_new names_new)
  have view: "lc_view ops c = lc_view ops (link_ctx m)"
  proof
    fix k
    show "lc_view ops c k = lc_view ops (link_ctx m) k"
    proof (cases "map_of es k")
      case None
      then have "k \<notin> set (lc_names ops (link_ctx m))"
        using es(2) by (metis map_of_eq_None_iff set_map)
      with None c ok show ?thesis by (simp add: names_set view_new)
    next
      case (Some e)
      with es(3) map_of_SomeD [OF Some] show ?thesis by (cases e) (auto simp: c(4))
    qed
  qed
  have "libnames_of ops (m\<lparr>link_ctx := c\<rparr>) = libnames_of ops m"
    "registered ops (m\<lparr>link_ctx := c\<rparr>) = registered ops m"
    using view by (simp_all add: fun_eq_iff libnames_of_def registered_def)
  then have "manager_inv ops ok (m\<lparr>link_ctx := c\<rparr>)"
    using inv c(2,3) es(2) view by (simp add: manager_inv_defs)
  with es c view show ?thesis by (auto simp: rebuild_link_ctx_def)
qed

section \<open>Closing a handle\<close>

lemma manager_flags_direct:
  "ok (link_ctx m) \<Longrightarrow> aliases m s = None \<Longrightarrow> manager_flags ops m s =
     (case lc_view ops (link_ctx m) s of
        Some (_, meta) \<Rightarrow> Some (gm_flags meta) | None \<Rightarrow> map_option pd_flags (im_get (pending m) s))"
  by (auto simp: manager_flags_def committed_flags_view split: option.splits)

lemma drop_deps_Ok:
  "manager_inv ops ok m \<Longrightarrow> (\<And>d. d \<in> set deps \<Longrightarrow> aliases m (dylib_shortname d) = None) \<Longrightarrow>
     \<exists>m' rem. drop_deps ops rc deps (m, acc) = Ok (m', acc @ rem) \<and> manager_inv ops ok m' \<and>
       set rem \<subseteq> set deps \<and>
       (\<forall>d \<in> set rem. \<exists>f. manager_flags ops m (dylib_shortname d) = Some f \<and> \<not> is_nodelete f) \<and>
       (\<forall>k. k \<notin> dylib_shortname ` set rem \<longrightarrow>
          lc_view ops (link_ctx m') k = lc_view ops (link_ctx m) k \<and>
          im_get (pending m') k = im_get (pending m) k) \<and>
       (\<forall>k. k \<in> dylib_shortname ` set rem \<longrightarrow> \<not> registered ops m' k)"
proof (induction deps arbitrary: m acc)
  case Nil
  then show ?case by auto
next
  case (Cons d deps)
  let ?s = "dylib_shortname d"
  have ok: "ok (link_ctx m)" using Cons.prems(1) by (simp add: manager_inv_defs)
  have al: "aliases m ?s = None" using Cons.prems(2) by simp
  note flags = manager_flags_direct [OF ok al]
  have skip: ?case if "drop_deps ops rc (d # deps) (m, acc) = drop_deps ops rc deps (m, acc)"
  proof -
    from Cons.IH [OF Cons.prems(1), of acc] Cons.prems(2) obtain m' rem where
      "drop_deps ops rc deps (m, acc) = Ok (m', acc @ rem)" "manager_inv ops ok m'"
      "set rem \<subseteq> set deps"
      "\<forall>d \<in> set rem. \<exists>f. manager_flags ops m (dylib_shortname d) = Some f \<and> \<not> is_nodelete f"
      "\<forall>k. k \<notin> dylib_shortname ` set rem \<longrightarrow>
          lc_view ops (link_ctx m') k = lc_view ops (link_ctx m) k \<and>
          im_get (pending m') k = im_get (pending m) k"
      "\<forall>k. k \<in> dylib_shortname ` set rem \<longrightarrow> \<not> registered ops m' k" by auto
    then show ?thesis
      unfolding that by (intro exI [of _ m'] exI [of _ rem] conjI) (assumption | simp add: subset_insertI2)+
  qed
  show ?case
  proof (cases "manager_flags ops m ?s")
    case None
    then show ?thesis by (intro skip) simp
  next
    case (Some f)
    show ?thesis
    proof (cases "\<not> is_nodelete f \<and> rc m acc d = drop_threshold f")
      case False
      with Some show ?thesis by (intro skip) auto
    next
      case True
      have reg: "registered ops m ?s"
        using Some flags by (auto simp: registered_def split: option.splits)
      from remove_Ok [OF Cons.prems(1) reg] obtain m1 where
        m1: "remove ops ?s m = Ok m1" "manager_inv ops ok m1" "removed_from ?s m m1" by blast
      have al1: "aliases m1 (dylib_shortname e) = None" if "e \<in> set deps" for e
        using that m1(3) Cons.prems(2) by (simp add: removed_from_def)
      from Cons.IH [OF m1(2) al1] obtain m' rem where
        r: "drop_deps ops rc deps (m1, acc @ [d]) = Ok (m', (acc @ [d]) @ rem)"
          "manager_inv ops ok m'" "set rem \<subseteq> set deps"
          "\<forall>e \<in> set rem. \<exists>f. manager_flags ops m1 (dylib_shortname e) = Some f \<and> \<not> is_nodelete f"
          "\<forall>k. k \<notin> dylib_shortname ` set rem \<longrightarrow>
             lc_view ops (link_ctx m') k = lc_view ops (link_ctx m1) k \<and>
             im_get (pending m') k = im_get (pending m1) k"
          "\<forall>k. k \<in> dylib_shortname ` set rem \<longrightarrow> \<not> registered ops m' k"
        by blast
      have ok1: "ok (link_ctx m1)" using m1(2) by (simp add: manager_inv_defs)
      have earlier: "manager_flags ops m (dylib_shortname e) = Some g"
        if "e \<in> set rem" "manager_flags ops m1 (dylib_shortname e) = Some g" for e g
      proof -
        let ?e = "dylib_shortname e"
        have mem: "e \<in> set deps" using that(1) r(3) by blast
        then have "aliases m ?e = None" using Cons.prems(2) by simp
        note now = manager_flags_direct [OF ok1 al1 [OF mem]] and then' = manager_flags_direct [OF ok this]
        have "?e \<noteq> ?s" using that(2) m1(3) now by (auto simp: removed_from_def)
        with that(2) m1(3) now then' show ?thesis
          by (auto simp: removed_from_def split: option.splits)
      qed
      have "\<not> registered ops m' ?s"
        using r(5,6) m1(3) by (cases "?s \<in> dylib_shortname ` set rem")
          (auto simp: registered_def removed_from_def)
      then show ?thesis
        using Some True m1 r earlier
        by (intro exI [of _ m'] exI [of _ "d # rem"]) (auto simp: removed_from_def)
    qed
  qed
qed

lemma drop_Ok:
  assumes inv: "manager_inv ops ok m"
    and al: "\<And>d. d \<in> set (el_inner lib # deps) \<Longrightarrow> aliases m (dylib_shortname d) = None"
    and deps: "el_deps lib = Some (el_inner lib # deps)"
  shows "\<exists>m' rem. drop_elf_library ops rc lib m = Ok (m', rem) \<and> manager_inv ops ok m' \<and>
     set rem \<subseteq> set (el_inner lib # deps) \<and>
     (\<forall>d \<in> set rem. \<exists>f. manager_flags ops m (dylib_shortname d) = Some f \<and> \<not> is_nodelete f) \<and>
     (\<forall>k. k \<notin> dylib_shortname ` set rem \<longrightarrow>
        lc_view ops (link_ctx m') k = lc_view ops (link_ctx m) k \<and>
        im_get (pending m') k = im_get (pending m) k) \<and>
     (\<forall>k. k \<in> dylib_shortname ` set rem \<longrightarrow> \<not> registered ops m' k)"
proof (cases "manager_flags ops m (dylib_shortname (el_inner lib))")
  case None
  with inv show ?thesis by (auto simp: drop_elf_library_def)
next
  case (Some f)
  show ?thesis
  proof (cases "\<not> is_nodelete f \<and> rc m [] (el_inner lib) = drop_threshold f")
    case False
    with Some inv show ?thesis by (auto simp: drop_elf_library_def)
  next
    case True
    let ?all = "el_inner lib # deps"
    define rc' where "rc' m' acc d = (if acc = [] then drop_threshold f else rc m' acc d)"
      for m' acc d
    have "drop_deps ops rc' ?all (m, []) = bind_res (remove ops (dylib_shortname (el_inner lib)) m)
        (\<lambda>m'. drop_deps ops rc' deps (m', [el_inner lib]))"
      using True Some by (simp add: rc'_def)
    moreover have "drop_deps ops rc' ds (m', acc) = drop_deps ops rc ds (m', acc)"
      if "acc \<noteq> []" for ds m' acc
      using that
    proof (induction ds arbitrary: m' acc)
      case (Cons d ds)
      have "rc' m' acc d = rc m' acc d" using Cons.prems by (simp add: rc'_def)
      then show ?case using Cons by (simp split: option.splits)
    qed simp
    ultimately have eq: "drop_elf_library ops rc lib m = drop_deps ops rc' ?all (m, [])"
      using Some True deps by (simp add: drop_elf_library_def)
    show ?thesis
      unfolding eq using drop_deps_Ok [OF inv al, where rc = rc' and acc = "[]"]
      by (simp only: append_Nil)
  qed
qed

section \<open>Lookup\<close>

text \<open>
  Where a name leads: itself when it is registered, else the library it is an alias of.
\<close>

lemma lookup_cases:
  assumes "ok (link_ctx m)"
  shows "lookup ops m n =
    (let k = (if registered ops m n then n else case aliases m n of None \<Rightarrow> n | Some c \<Rightarrow> c) in
       case lc_view ops (link_ctx m) k of
         Some (lib, _) \<Rightarrow> Some (Relocated k (dl_name lib))
       | None \<Rightarrow> if im_get (pending m) k = None then None else Some (PendingLib k))"
proof (cases "registered ops m n")
  case True
  with assms show ?thesis
    by (auto simp: lookup_def committed_lookup_view pending_lookup_def registered_def split: option.splits)
next
  case False
  then have "lc_view ops (link_ctx m) n = None" "im_get (pending m) n = None"
    by (auto simp: registered_def)
  with assms False show ?thesis
    by (cases "aliases m n")
      (auto simp: lookup_def committed_lookup_view pending_lookup_def split: option.splits)
qed

lemma lookup_registered:
  "ok (link_ctx m) \<Longrightarrow> lookup ops m n = Some l \<Longrightarrow> registered ops m (lookup_shortname l)"
  by (auto simp: lookup_cases Let_def registered_def split: option.splits if_splits)

lemma lookup_canonical:
  "ok (link_ctx m) \<Longrightarrow> lookup ops m n = Some l \<Longrightarrow> lookup ops m (lookup_shortname l) = Some l"
  by (auto simp: lookup_cases Let_def registered_def split: option.splits if_splits)

lemma lookup_relocated_view:
  "ok (link_ctx m) \<Longrightarrow> lookup ops m n = Some (Relocated k nm) \<Longrightarrow>
     \<exists>lib meta. lc_view ops (link_ctx m) k = Some (lib, meta) \<and> nm = dl_name lib"
  by (auto simp: lookup_cases Let_def split: option.splits if_splits)

lemma lookup_total_on_registered:
  "ok (link_ctx m) \<Longrightarrow> registered ops m k \<Longrightarrow> \<exists>l. lookup ops m k = Some l \<and> lookup_shortname l = k"
  by (auto simp: lookup_cases Let_def registered_def split: option.splits)

lemma lookup_alias:
  "ok (link_ctx m) \<Longrightarrow> inv_aliases ops m \<Longrightarrow> \<not> registered ops m a \<Longrightarrow> aliases m a = Some k \<Longrightarrow>
     lookup ops m a = lookup ops m k \<and> registered ops m k"
proof -
  assume ok: "ok (link_ctx m)" and "inv_aliases ops m" "\<not> registered ops m a" "aliases m a = Some k"
  then have "a \<in> set (libnames_of ops m k)" by (simp add: inv_aliases_def)
  then have "registered ops m k"
    by (cases "lc_view ops (link_ctx m) k") (auto simp: libnames_of_def registered_def split: option.splits)
  with ok \<open>\<not> registered ops m a\<close> \<open>aliases m a = Some k\<close> show ?thesis by (simp add: lookup_cases)
qed

end

end
