(* ===== verification/Registry_Props.thy ===== *)
theory Registry_Props
  imports Registry_Inv
begin

text \<open>
  The registry as a state machine, one step per operation a thread performs under the write
  lock, and the properties of the registry: the invariant in every reachable state, what a
  removal leaves, promotion, closing a handle, the scopes, and the counters.
\<close>

section \<open>Steps\<close>

text \<open>
  The guards are the conditions under which the callers reach the operation: a name is
  reserved or registered after a failed lookup, the main program is registered as global,
  merged ids are the ones the linker committed, an alias is added to a library just found.
  An operation that panics makes no step.
\<close>

inductive manager_step ::
  "('c, 'i) link_ops \<Rightarrow> ('c \<Rightarrow> bool) \<Rightarrow> 'c manager \<Rightarrow> 'c manager \<Rightarrow> bool" for ops ok where
  reserve: "\<not> contains_canonical_key ops m k \<Longrightarrow> reserve_pending ops k full i f m = Ok m' \<Longrightarrow>
     manager_step ops ok m m'"
| register: "\<not> contains_canonical_key ops m (dylib_shortname lib) \<Longrightarrow>
     (dl_name lib = [] \<Longrightarrow> is_global f) \<Longrightarrow> register_loaded ops lib f m = Ok m' \<Longrightarrow>
     manager_step ops ok m m'"
| merge: "ok source \<Longrightarrow> (\<And>i. i \<in> set ids \<Longrightarrow> lc_contains ops source i) \<Longrightarrow>
     merge_link_context ops source f ids m = Ok m' \<Longrightarrow> manager_step ops ok m m'"
| reopen: "open_existing ops n f m = Ok (h, m') \<Longrightarrow> manager_step ops ok m m'"
| nickname: "lookup ops m n = Some l \<Longrightarrow> add_alias ops (lookup_shortname l) a m = Ok m' \<Longrightarrow>
     manager_step ops ok m m'"
| unload: "remove ops k m = Ok m' \<Longrightarrow> manager_step ops ok m m'"
| close: "drop_elf_library ops rc h m = Ok (m', removed) \<Longrightarrow> manager_step ops ok m m'"
| rebuild: "rebuild_link_ctx ops m = Ok m' \<Longrightarrow> manager_step ops ok m m'"

inductive manager_reachable ::
  "('c, 'i) link_ops \<Rightarrow> ('c \<Rightarrow> bool) \<Rightarrow> 'c manager \<Rightarrow> bool" for ops ok where
  init: "manager_reachable ops ok (manager_new ops)"
| step: "manager_reachable ops ok m \<Longrightarrow> manager_step ops ok m m' \<Longrightarrow> manager_reachable ops ok m'"

context link_context
begin

lemma inv_ctx: "manager_inv ops ok m \<Longrightarrow> ok (link_ctx m)"
  by (simp add: manager_inv_defs)

lemma inv_remove [inv_dests]:
  assumes "manager_inv ops ok m" "Registry.remove ops k m = Ok m'"
  shows "manager_inv ops ok m'"
  using remove_Ok [OF assms(1), of k] remove_unregistered [OF inv_ctx, OF assms(1), of k] assms(2)
  by (cases "registered ops m k") auto

lemma inv_drop_deps [inv_dests]:
  "manager_inv ops ok m \<Longrightarrow> drop_deps ops rc deps (m, acc) = Ok (m', rem) \<Longrightarrow> manager_inv ops ok m'"
proof (induction deps arbitrary: m acc)
  case (Cons d deps)
  then show ?case
    by (auto split: option.splits if_splits simp: bind_res_Ok_iff dest: inv_dests)
qed simp

lemma inv_drop [inv_dests]:
  "manager_inv ops ok m \<Longrightarrow> drop_elf_library ops rc h m = Ok (m', rem) \<Longrightarrow> manager_inv ops ok m'"
  by (auto simp: drop_elf_library_def Let_def bind_res_Ok_iff split: option.splits if_splits
      dest: inv_dests)

lemma promote_committed:
  "ok (link_ctx m) \<Longrightarrow> promote ops k f m = Ok m' \<Longrightarrow> lc_view ops (link_ctx m) k \<noteq> None"
  using committed_id_None [of m k] by (auto simp: promote_def split: option.splits)

lemma inv_promote [inv_dests]:
  assumes inv: "manager_inv ops ok m" and p: "promote ops k f m = Ok m'"
  shows "manager_inv ops ok m'"
proof -
  from promote_committed [OF inv_ctx [OF inv] p] obtain lib meta where
    "lc_view ops (link_ctx m) k = Some (lib, meta)" by auto
  from promote_Ok [OF inv this, of f] p show ?thesis by auto
qed

lemma inv_open_existing [inv_dests]:
  "manager_inv ops ok m \<Longrightarrow> open_existing ops n f m = Ok (h, m') \<Longrightarrow> manager_inv ops ok m'"
  by (auto simp: open_existing_def promoted_name_def bind_res_Ok_iff split: option.splits
      dest: inv_dests)

lemma inv_add_alias [inv_dests]:
  assumes "manager_inv ops ok m" "registered ops m k" "add_alias ops k a m = Ok m'"
  shows "manager_inv ops ok m'"
  using inv_add_aliases [OF assms(1,2), of "[a]"] assms(3) by auto

lemma inv_step: "manager_step ops ok m m' \<Longrightarrow> manager_inv ops ok m \<Longrightarrow> manager_inv ops ok m'"
proof (induction rule: manager_step.induct)
  case (reserve m k full i f m')
  then show ?case using inv_reserve_pending [of m k full i f] inv_ctx
    by (auto simp: contains_canonical_key_iff)
next
  case (register m lib f m')
  then show ?case using inv_register_loaded [of m lib f] inv_ctx
    by (auto simp: contains_canonical_key_iff)
next
  case (merge source ids f m m')
  then show ?case using inv_merge_link_context [of m source ids f] by auto
next
  case (nickname m n l a m')
  then show ?case using inv_add_alias lookup_registered inv_ctx by blast
next
  case (rebuild m m')
  then show ?case using rebuild_Ok by fastforce
qed (auto dest: inv_dests)

lemma inv_reachable: "manager_reachable ops ok m \<Longrightarrow> manager_inv ops ok m"
  by (induction rule: manager_reachable.induct) (auto intro: inv_new inv_step)

lemma lookup_key:
  "ok (link_ctx m) \<Longrightarrow> registered ops m k \<Longrightarrow> lookup ops m k =
     Some (case lc_view ops (link_ctx m) k of
       Some (lib, _) \<Rightarrow> Relocated k (dl_name lib) | None \<Rightarrow> PendingLib k)"
  by (auto simp: lookup_cases registered_def split: option.splits)

text \<open>A removed library is found under no name, and every other answer stays as it was.\<close>

lemma lookup_after_remove:
  assumes "manager_inv ops ok m" "Registry.remove ops k m = Ok m'"
  shows "lookup ops m' n = Some l \<Longrightarrow> lookup_shortname l \<noteq> k"
    and "lookup ops m n = Some l \<Longrightarrow> lookup_shortname l \<noteq> k \<Longrightarrow> lookup ops m' n = Some l"
    and "lookup_by_identity ops m' i = Some l \<Longrightarrow> lookup_shortname l \<noteq> k"
proof -
  have reg: "registered ops m k"
    using remove_unregistered [OF inv_ctx, OF assms(1), of k] assms(2) by force
  with remove_Ok [OF assms(1), of k] assms(2) have inv': "manager_inv ops ok m'"
    and rem: "removed_from k m m'" by auto
  note gone = removed_registered [OF rem]
  show first: "lookup ops m' n = Some l \<Longrightarrow> lookup_shortname l \<noteq> k" for n l
    using lookup_registered [OF inv_ctx, OF inv', of n l] gone by blast
  show "lookup_by_identity ops m' i = Some l \<Longrightarrow> lookup_shortname l \<noteq> k"
    using first by (auto simp: lookup_by_identity_def split: option.splits)
  assume l: "lookup ops m n = Some l" "lookup_shortname l \<noteq> k"
  from lookup_registered [OF inv_ctx [OF assms(1)] l(1)] have regl: "registered ops m (lookup_shortname l)" .
  let ?c = "lookup_shortname l"
  have ok: "ok (link_ctx m)" and ok': "ok (link_ctx m')" using assms(1) inv' by (simp_all add: inv_ctx)
  have regl': "registered ops m' ?c" using regl l(2) gone by simp
  have same: "lookup ops m' ?c = Some l"
    using lookup_canonical [OF ok l(1)] rem l(2)
    unfolding lookup_key [OF ok regl] lookup_key [OF ok' regl'] by (simp add: removed_from_def)
  show "lookup ops m' n = Some l"
  proof (cases "registered ops m n")
    case True
    with lookup_total_on_registered [OF ok this] l have "n = ?c" by auto
    with same show ?thesis by simp
  next
    case False
    then have "aliases m n = Some ?c" using l(1) regl by (auto simp: lookup_cases [OF ok] Let_def
        registered_def split: option.splits if_splits)
    then have "aliases m' n = Some ?c" using rem l(2) by (simp add: removed_from_def)
    moreover have "inv_aliases ops m'" using inv' by (simp add: manager_inv_def base_inv_def)
    ultimately have "lookup ops m' n = lookup ops m' ?c"
      using lookup_alias [OF ok'] False gone by blast
    with same show ?thesis by simp
  qed
qed

text \<open>A reopened library is the committed one, its scope starts with it, its flags are joined.\<close>

lemma get_lib_view:
  assumes ok: "ok (link_ctx m)" and view: "lc_view ops (link_ctx m) k = Some (lib, meta)"
  shows "\<exists>deps. get_lib ops m k = Some \<lparr>el_inner = lib, el_deps = Some (lib # deps)\<rparr>"
proof -
  have "registered ops m k" using view by (simp add: registered_def)
  with ok view have "canonical_name_owned ops m k = Some k"
    by (simp add: canonical_name_owned_def lookup_cases)
  moreover from committed_id_Some [OF ok view] obtain i where
    i: "committed_id ops m k = Some i" "lc_contains ops (link_ctx m) i"
      "lc_get ops (link_ctx m) i = Some lib" by auto
  moreover have "\<exists>deps. library_scope_by_id ops m i = Some (lib # deps)"
    using scope_head [OF ok i(2)] i(3)
    by (cases "lc_dependency_modules ops (link_ctx m) i") (auto simp: library_scope_by_id_def Let_def)
  ultimately show ?thesis by (auto simp: get_lib_def)
qed

lemma open_existing_Ok:
  assumes inv: "manager_inv ops ok m" and l: "lookup ops m n = Some (Relocated k nm)"
  shows "\<exists>lib meta deps m' meta'. open_existing ops n f m =
       Ok (Some \<lparr>el_inner = lib, el_deps = Some (lib # deps)\<rparr>, m') \<and> manager_inv ops ok m' \<and>
     lc_view ops (link_ctx m) k = Some (lib, meta) \<and>
     lc_view ops (link_ctx m') = (lc_view ops (link_ctx m))(k \<mapsto> (lib, meta')) \<and>
     gm_flags meta' = gm_flags meta OR promotable f \<and>
     (is_global f \<longrightarrow> lib \<in> set (global_values m')) \<and>
     adds m' = adds m \<and> subs m' = subs m"
proof -
  from lookup_relocated_view [OF inv_ctx [OF inv] l] obtain lib meta where
    view: "lc_view ops (link_ctx m) k = Some (lib, meta)" by blast
  from promote_Ok [OF inv view, of f] obtain m' meta' where
    m': "promote ops k f m = Ok m'" "manager_inv ops ok m'"
      "lc_view ops (link_ctx m') = (lc_view ops (link_ctx m))(k \<mapsto> (lib, meta'))"
      "gm_flags meta' = gm_flags meta OR promotable f" "adds m' = adds m" "subs m' = subs m" by blast
  have "lc_view ops (link_ctx m') k = Some (lib, meta')" using m'(3) by simp
  from get_lib_view [OF inv_ctx [OF m'(2)] this] obtain deps where
    h: "get_lib ops m' k = Some \<lparr>el_inner = lib, el_deps = Some (lib # deps)\<rparr>" by blast
  have "im_get (global m') k = Some lib" if "is_global f"
    using m'(2,3,4) that by (auto simp: manager_inv_def inv_global_def inv_global_at_def)
  then have glob: "is_global f \<longrightarrow> lib \<in> set (global_values m')"
    by (force simp: global_values_def im_values_def im_get_def dest!: map_of_SomeD)
  have "canonical_name_owned ops m n = Some k" using l by (simp add: canonical_name_owned_def)
  with m' h view glob show ?thesis
    by (simp add: open_existing_def promoted_name_def) blast
qed

text \<open>
  Aliases of a library that is still loading are recorded in its reservation: the committed
  libraries are not touched.
\<close>

lemma add_aliases_pending:
  assumes "ok (link_ctx m)" "im_get (pending m) k = Some p"
  shows "\<exists>new. add_aliases ops k as m = Ok (m\<lparr>
       pending := im_insert k (p\<lparr>pd_libnames := pd_libnames p @ new\<rparr>) (pending m),
       aliases := (\<lambda>a. if a \<in> set new then Some k else aliases m a)\<rparr>) \<and>
     (\<forall>a \<in> set new. aliases m a = None)"
  using assms
proof (induction as arbitrary: m p)
  case Nil
  then have "im_insert k p (pending m) = pending m" by (simp add: im_insert_same)
  with Nil show ?case by (intro exI [of _ "[]"]) simp
next
  case (Cons a as)
  show ?case
  proof (cases "registered ops m a \<or> aliases m a \<noteq> None")
    case True
    with Cons.prems have "add_alias ops k a m = Ok m"
      by (auto simp: add_alias_def contains_canonical_key_iff)
    with Cons.IH [OF Cons.prems] show ?thesis by simp
  next
    case False
    let ?p = "p\<lparr>pd_libnames := pd_libnames p @ [a]\<rparr>"
    let ?m = "m\<lparr>pending := im_insert k ?p (pending m), aliases := (aliases m)(a \<mapsto> k)\<rparr>"
    from False Cons.prems have add: "add_alias ops k a m = Ok ?m"
      by (simp add: add_alias_def contains_canonical_key_iff)
    from Cons.IH [of ?m ?p] Cons.prems obtain new where
      new: "add_aliases ops k as ?m = Ok (?m\<lparr>
         pending := im_insert k (?p\<lparr>pd_libnames := pd_libnames ?p @ new\<rparr>) (pending ?m),
         aliases := (\<lambda>b. if b \<in> set new then Some k else aliases ?m b)\<rparr>)"
        "\<forall>b \<in> set new. aliases ?m b = None" by auto
    have fresh: "\<forall>b \<in> set (a # new). aliases m b = None"
      using False new(2) by (auto split: if_splits)
    have "(\<lambda>b. if b \<in> set new then Some k else aliases ?m b) =
        (\<lambda>b. if b \<in> set (a # new) then Some k else aliases m b)" by auto
    with add new fresh show ?thesis
      by (intro exI [of _ "a # new"]) (simp add: im_insert_insert)
  qed
qed

text \<open>Undoing a reservation: only the counters remember it.\<close>

lemma reserve_remove:
  assumes inv: "manager_inv ops ok m" and fresh: "\<not> registered ops m k"
    and ident: "\<And>i. ident = Some i \<Longrightarrow> identities m i = None"
  shows "bind_res (reserve_pending ops k full ident f m) (remove ops k) =
     Ok (m\<lparr>adds := adds m + 1, subs := subs m + 1\<rparr>)"
proof -
  let ?p = "pending_reserved (normalized_flags full f)"
  define m1 where
    "m1 = add_identity_opt ident k (add_pending_reservation k (normalized_flags full f) m)"
  from fresh have none: "im_get (pending m) k = None" "lc_view ops (link_ctx m) k = None"
    by (simp_all add: registered_def)
  have m1: "pending m1 = im_insert k ?p (pending m)" "link_ctx m1 = link_ctx m"
    "aliases m1 = aliases m" "global m1 = global m" "adds m1 = adds m + 1" "subs m1 = subs m"
    by (simp_all add: m1_def add_identity_opt_def add_identity_def add_pending_reservation_def
        split: option.splits)
  have "im_get (pending m1) k = Some ?p" "ok (link_ctx m1)" using inv by (simp_all add: m1 inv_ctx)
  from add_aliases_pending [OF this(2,1), of "libc_compat_aliases k"] obtain new where
    new: "reserve_pending ops k full ident f m = Ok (m1\<lparr>
       pending := im_insert k (?p\<lparr>pd_libnames := pd_libnames ?p @ new\<rparr>) (pending m1),
       aliases := (\<lambda>a. if a \<in> set new then Some k else aliases m1 a)\<rparr>)"
      "\<forall>a \<in> set new. aliases m1 a = None"
    unfolding reserve_pending_def m1_def by blast
  have glob: "im_get (global m) k = None"
    using inv none(2) by (cases "im_get (global m) k") (auto simp: manager_inv_defs)
  have ids: "retain_identities k (identities m1) = identities m"
  proof
    fix i
    have "identities m i \<noteq> Some k" using inv fresh by (auto simp: manager_inv_defs)
    then show "retain_identities k (identities m1) i = identities m i"
      using ident by (auto simp: m1_def retain_identities_def add_identity_opt_def add_identity_def
          add_pending_reservation_def split: option.splits)
  qed
  have al: "remove_aliases new (\<lambda>a. if a \<in> set new then Some k else aliases m1 a) = aliases m"
    using new(2) m1(3) by (auto simp: remove_aliases_apply)
  have pend: "im_shift_remove k (im_insert k v (pending m1)) = pending m" for v
    using none(1) by (simp add: m1 im_insert_insert im_insert_remove_fresh im.get_dom)
  have gl: "im_shift_remove k (global m1) = global m"
    using glob by (simp add: m1 im_shift_remove_absent im.get_dom)
  have ln: "pd_libnames ?p = []" by (simp add: pending_reserved_def)
  show ?thesis
    using new(1) by (simp add: Registry.remove_def finish_remove_def ids al pend gl ln)
      (simp add: m1)
qed

text \<open>The three queries of the linker agree, and resolving dependencies does not panic.\<close>

lemma visible_agree:
  assumes inv: "manager_inv ops ok m"
  shows "visible_contains ops m n \<longleftrightarrow> (\<exists>l. lookup ops m n = Some l \<and> is_relocated l)"
    and "visible_contains ops m n \<longleftrightarrow> visible_loaded ops m n \<noteq> None"
    and "\<exists>r. visible_direct_deps ops m n = Ok r \<and> (visible_contains ops m n \<longleftrightarrow> r \<noteq> None)"
proof -
  note ok = inv_ctx [OF inv]
  note defs = visible_contains_def visible_loaded_def visible_direct_deps_def view_contains_key [OF ok]
  have "(visible_contains ops m n \<longleftrightarrow> (\<exists>l. lookup ops m n = Some l \<and> is_relocated l)) \<and>
    (visible_contains ops m n \<longleftrightarrow> visible_loaded ops m n \<noteq> None) \<and>
    (\<exists>r. visible_direct_deps ops m n = Ok r \<and> (visible_contains ops m n \<longleftrightarrow> r \<noteq> None))"
  proof (cases "lookup ops m n")
    case None
    then show ?thesis by (simp add: defs canonical_name_owned_def)
  next
    case (Some l)
    let ?k = "lookup_shortname l"
    have owned: "canonical_name_owned ops m n = Some ?k" using Some by (simp add: canonical_name_owned_def)
    have rel: "is_relocated l \<longleftrightarrow> lc_view ops (link_ctx m) ?k \<noteq> None"
      using Some lookup_cases [OF ok, of n] by (auto simp: Let_def split: option.splits if_splits)
    show ?thesis
    proof (cases "lc_view ops (link_ctx m) ?k")
      case None
      then have id: "committed_id ops m ?k = None" using committed_id_None [OF ok] by simp
      have "im_get (pending m) ?k = Some p \<Longrightarrow> pd_inner p = None" for p
        using inv by (simp add: manager_inv_defs)
      with None id Some owned rel show ?thesis by (auto simp: defs split: option.splits)
    next
      case (Some e)
      then obtain lib meta where view: "lc_view ops (link_ctx m) ?k = Some (lib, meta)" by (cases e) auto
      from committed_id_Some [OF ok view] obtain i where
        i: "committed_id ops m ?k = Some i" "lc_contains ops (link_ctx m) i"
          "lc_get ops (link_ctx m) i = Some lib" by blast
      from deps_resolve [OF ok i(2)] obtain ds where
        ds: "lc_direct_deps ops (link_ctx m) i = Some ds" "\<forall>d \<in> set ds. lc_key ops (link_ctx m) d \<noteq> None"
        by blast
      from dep_keys_Ok ds(2) obtain ks where
        "dep_keys ops (link_ctx m) ''direct dependency id must resolve in global link context'' ds = Ok ks"
        by blast
      with \<open>lookup ops m n = Some l\<close> view i ds(1) owned rel show ?thesis by (simp add: defs)
    qed
  qed
  then show "visible_contains ops m n \<longleftrightarrow> (\<exists>l. lookup ops m n = Some l \<and> is_relocated l)"
    and "visible_contains ops m n \<longleftrightarrow> visible_loaded ops m n \<noteq> None"
    and "\<exists>r. visible_direct_deps ops m n = Ok r \<and> (visible_contains ops m n \<longleftrightarrow> r \<noteq> None)" by blast+
qed

end

end
