(* ===== verification/Registry_Spec.thy ===== *)
theory Registry_Spec
  imports Registry_Props
begin

text \<open>
  What the registry promises, stated over its operations with the contract of the link
  context as a hypothesis. Scopes are compared with a one-line reference definition
  (\<open>dedup_by\<close>); the witnesses run on the executable link context \<open>list_ops\<close>.
\<close>

section \<open>Scopes\<close>

lemma push_unique_dedup:
  "push_unique libs seen scope =
     (seen \<union> dylib_shortname ` set libs,
      scope @ filter (\<lambda>l. dylib_shortname l \<notin> seen) (dedup_by dylib_shortname libs))"
proof (induction libs arbitrary: seen scope)
  case (Cons l libs)
  show ?case
    by (cases "dylib_shortname l \<in> seen")
      (simp_all add: Cons filter_absorb filter_insert insert_absorb del: filter_filter)
qed simp

definition scope_order :: "open_flags \<Rightarrow> dylib list \<Rightarrow> dylib list \<Rightarrow> dylib list" where
  "scope_order flags globals group_scope =
     (if is_deepbind flags then group_scope @ globals else globals @ group_scope)"

lemma canonical_deps_dedup:
  "canonical_deps_loop ops m needed seen deps = deps @ filter (\<lambda>k. k \<notin> seen)
     (dedup_by id (List.map_filter (canonical_name_owned ops m) needed))"
proof (induction needed arbitrary: seen deps)
  case (Cons n needed)
  show ?case
  proof (cases "lookup ops m n")
    case None
    with Cons show ?thesis by (simp add: canonical_name_owned_def List.map_filter_simps)
  next
    case (Some l)
    let ?s = "lookup_shortname l"
    have owned: "canonical_name_owned ops m n = Some ?s"
      using Some by (simp add: canonical_name_owned_def)
    have absorb: "?s \<in> seen \<Longrightarrow>
        filter (\<lambda>k. k \<noteq> ?s \<and> k \<notin> seen) ks = filter (\<lambda>k. k \<notin> seen) ks" for ks
      by (rule filter_cong) auto
    show ?thesis
      by (cases "?s \<in> seen")
        (simp_all add: Some owned Cons List.map_filter_simps absorb Let_def)
  qed
qed (simp add: List.map_filter_simps)

section \<open>A concrete registry\<close>

text \<open>The main program, libc and a library that needs it, as the host initialisation registers them.\<close>

definition ex_dylib :: "string \<Rightarrow> usize \<Rightarrow> string list \<Rightarrow> file_identity option \<Rightarrow> dylib" where
  "ex_dylib name base needed ident =
     \<lparr>dl_name = name, dl_base = base, dl_mapped_len = 0x1000,
      dl_user_data = extra_data_default\<lparr>ed_needed_libs := needed, ed_file_identity := ident\<rparr>,
      dl_phdrs = None, dl_tls_mod_id = None\<rparr>"

definition ex_main :: dylib where
  "ex_main = ex_dylib [] 0x400000 [''libm.so'', ''libc.so.6''] None"

definition ex_libc :: dylib where
  "ex_libc = ex_dylib ''/lib/libc.so.6'' 0x500000 [] (Some \<lparr>fi_dev = 1, fi_ino = 7\<rparr>)"

definition ex_libm :: dylib where
  "ex_libm = ex_dylib ''/lib/libm.so'' 0x600000 [''libc.so.6'', ''libdl.so.2''] None"

definition ex_register :: "dylib \<Rightarrow> open_flags \<Rightarrow> list_ctx manager \<Rightarrow> list_ctx manager" where
  "ex_register lib f m = res_get m (register_loaded list_ops lib f m)"

definition ex_m :: "list_ctx manager" where
  "ex_m = ex_register ex_libm RTLD_NOW (ex_register ex_libc RTLD_NOW
     (ex_register ex_main (RTLD_NOW OR RTLD_GLOBAL) (manager_new list_ops)))"

lemma ex_register_step:
  assumes "manager_reachable list_ops im_wf m"
    "\<not> contains_canonical_key list_ops m (dylib_shortname lib)" "dl_name lib = [] \<Longrightarrow> is_global f"
    "is_Ok (register_loaded list_ops lib f m)"
  shows "manager_reachable list_ops im_wf (ex_register lib f m)"
  using assms manager_step.register [OF assms(2,3) is_Ok_res_get [OF assms(4), of m]]
  unfolding ex_register_def by (blast intro: manager_reachable.step)

lemma ex_reachable: "manager_reachable list_ops im_wf ex_m"
  unfolding ex_m_def
  by (intro ex_register_step manager_reachable.init; code_simp)

section \<open>Properties\<close>





text \<open>
  Rolling back a reservation (\<open>reserve_pending\<close> then \<open>remove\<close>, what a failed
  \<open>dlopen\<close> does) restores the registry exactly: only the two counters remember it. The
  identity of the reserved file must not have been claimed by another library before.
\<close>

theorem reserve_then_remove_restores:
  assumes "link_context ops ok" "manager_reachable ops ok m" "\<not> contains_canonical_key ops m k"
    and "\<And>i. ident = Some i \<Longrightarrow> identities m i = None"
  shows "bind_res (reserve_pending ops k full ident f m) (remove ops k) =
    Ok (m\<lparr>adds := adds m + 1, subs := subs m + 1\<rparr>)"
proof -
  note L = assms(1) and inv = link_context.inv_reachable [OF assms(1,2)]
  have "\<not> registered ops m k"
    using assms(3) link_context.contains_canonical_key_iff [OF L link_context.inv_ctx [OF L inv]] by simp
  with link_context.reserve_remove [OF L inv] assms(4) show ?thesis by blast
qed

theorem reserve_then_remove_restores_witness:
  "bind_res (reserve_pending list_ops ''libx.so'' ''/lib/libx.so'' None RTLD_NOW ex_m)
     (remove list_ops ''libx.so'') = Ok (ex_m\<lparr>adds := adds ex_m + 1, subs := subs ex_m + 1\<rparr>)"
proof -
  have "\<not> contains_canonical_key list_ops ex_m ''libx.so''" by code_simp
  then show ?thesis
    by (intro reserve_then_remove_restores [OF list_ctx.link_context_axioms ex_reachable]) simp_all
qed

text \<open>
  C8. Reopening a committed library under any of its names (\<open>open_existing\<close>) does not
  panic: the handle is the committed library, its search list starts with the library, its
  flags become the union with the promotable flags, with \<open>RTLD_GLOBAL\<close> it joins the global
  scope, no other library changes and the counters stay.
\<close>

theorem open_existing_promotes:
  assumes "link_context ops ok" "manager_reachable ops ok m"
    and "lookup ops m n = Some (Relocated k nm)"
  shows "\<exists>lib meta deps m' meta'. open_existing ops n f m =
       Ok (Some \<lparr>el_inner = lib, el_deps = Some (lib # deps)\<rparr>, m') \<and>
     lc_view ops (link_ctx m) k = Some (lib, meta) \<and>
     lc_view ops (link_ctx m') = (lc_view ops (link_ctx m))(k \<mapsto> (lib, meta')) \<and>
     gm_flags meta' = gm_flags meta OR promotable f \<and>
     (is_global f \<longrightarrow> lib \<in> set (global_values m')) \<and>
     adds m' = adds m \<and> subs m' = subs m"
  using link_context.open_existing_Ok [OF assms(1) link_context.inv_reachable [OF assms(1,2)] assms(3)]
  by blast

theorem open_existing_promotes_witness:
  "\<exists>lib deps m'. open_existing list_ops ''libdl.so.2'' RTLD_GLOBAL ex_m =
     Ok (Some \<lparr>el_inner = lib, el_deps = Some (lib # deps)\<rparr>, m') \<and> lib \<in> set (global_values m')"
proof -
  have l: "lookup list_ops ex_m ''libdl.so.2'' = Some (Relocated ''libc.so.6'' ''/lib/libc.so.6'')"
    by code_simp
  have "is_global RTLD_GLOBAL" by code_simp
  with open_existing_promotes [OF list_ctx.link_context_axioms ex_reachable l, of RTLD_GLOBAL]
  show ?thesis by blast
qed

text \<open>
  C4. Closing a handle whose libraries answer to their own names only: no panic; exactly the
  reported libraries leave the registry, all of them from the handle's own search list; a
  library opened or normalised with \<open>RTLD_NODELETE\<close> stays committed, and every other entry
  is the same as before.
\<close>

theorem drop_unloads_only_own:
  assumes "link_context ops ok" "manager_reachable ops ok m"
    and "el_deps h = Some (el_inner h # deps)"
    and "\<And>d. d \<in> set (el_inner h # deps) \<Longrightarrow> aliases m (dylib_shortname d) = None"
  shows "\<exists>m' removed. drop_elf_library ops rc h m = Ok (m', removed) \<and>
    set removed \<subseteq> set (el_inner h # deps) \<and>
    (\<forall>d \<in> set removed. \<not> contains_canonical_key ops m' (dylib_shortname d)) \<and>
    (\<forall>k. k \<notin> dylib_shortname ` set removed \<longrightarrow>
       lc_view ops (link_ctx m') k = lc_view ops (link_ctx m) k \<and>
       im_get (pending m') k = im_get (pending m) k) \<and>
    (\<forall>k lib meta. lc_view ops (link_ctx m) k = Some (lib, meta) \<and> is_nodelete (gm_flags meta) \<longrightarrow>
       lc_view ops (link_ctx m') k = Some (lib, meta))"
proof -
  note L = assms(1) and inv = link_context.inv_reachable [OF assms(1,2)]
  note ok = link_context.inv_ctx [OF L inv]
  from link_context.drop_Ok [OF L inv assms(4,3), of rc] obtain m' removed where
    r: "drop_elf_library ops rc h m = Ok (m', removed)" "manager_inv ops ok m'"
      "set removed \<subseteq> set (el_inner h # deps)"
      "\<forall>d \<in> set removed. \<exists>f. manager_flags ops m (dylib_shortname d) = Some f \<and> \<not> is_nodelete f"
      "\<forall>k. k \<notin> dylib_shortname ` set removed \<longrightarrow>
         lc_view ops (link_ctx m') k = lc_view ops (link_ctx m) k \<and>
         im_get (pending m') k = im_get (pending m) k"
      "\<forall>k. k \<in> dylib_shortname ` set removed \<longrightarrow> \<not> registered ops m' k" by blast
  have "k \<notin> dylib_shortname ` set removed"
    if "lc_view ops (link_ctx m) k = Some (lib, meta)" "is_nodelete (gm_flags meta)" for k lib meta
    using r(3,4) that link_context.manager_flags_direct [OF L ok] assms(4) by fastforce
  then have nd: "\<forall>k lib meta. lc_view ops (link_ctx m) k = Some (lib, meta) \<and>
      is_nodelete (gm_flags meta) \<longrightarrow> lc_view ops (link_ctx m') k = Some (lib, meta)"
    using r(5) by metis
  have "\<forall>d \<in> set removed. \<not> contains_canonical_key ops m' (dylib_shortname d)"
    using r(6) link_context.contains_canonical_key_iff [OF L link_context.inv_ctx [OF L r(2)]] by blast
  with r(1,3,5) nd show ?thesis by blast
qed

theorem drop_unloads_only_own_witness:
  "\<exists>m' removed. drop_elf_library list_ops (\<lambda>m acc d. 3)
       \<lparr>el_inner = ex_libm, el_deps = Some [ex_libm, ex_libc]\<rparr> ex_m = Ok (m', removed) \<and>
     set removed \<subseteq> {ex_libm, ex_libc} \<and>
     (\<forall>d \<in> set removed. \<not> contains_canonical_key list_ops m' (dylib_shortname d))"
proof -
  have al: "aliases ex_m ''libm.so'' = None" "aliases ex_m ''libc.so.6'' = None" by code_simp+
  have "dylib_shortname ex_libm = ''libm.so''" "dylib_shortname ex_libc = ''libc.so.6''" by code_simp+
  with al have "\<And>d. d \<in> set [ex_libm, ex_libc] \<Longrightarrow> aliases ex_m (dylib_shortname d) = None" by auto
  then show ?thesis
    using drop_unloads_only_own [OF list_ctx.link_context_axioms ex_reachable,
        of "\<lparr>el_inner = ex_libm, el_deps = Some [ex_libm, ex_libc]\<rparr>" "[ex_libc]" "\<lambda>m acc d. 3"]
    by auto
qed

text \<open>
  C24. \<open>merge_link_context\<close> publishes every module the linker committed: no panic, each id's
  key is committed afterwards and no longer pending (the \<open>debug_assert!\<close> at its end holds),
  what was committed before keeps its module and flags, and the invariant holds again.
\<close>

theorem merge_publishes:
  assumes "link_context ops ok" "manager_reachable ops ok m" "ok source"
    and "\<And>i. i \<in> set ids \<Longrightarrow> lc_contains ops source i"
  shows "\<exists>m'. merge_link_context ops source f ids m = Ok m' \<and> manager_inv ops ok m' \<and>
    (\<forall>i \<in> set ids. \<exists>k. lc_key ops source i = Some k \<and> committed_id ops m' k \<noteq> None \<and>
       im_get (pending m') k = None) \<and>
    (\<forall>k lib meta. lc_view ops (link_ctx m) k = Some (lib, meta) \<longrightarrow>
       (\<exists>meta'. lc_view ops (link_ctx m') k = Some (lib, meta') \<and> gm_flags meta' = gm_flags meta))"
proof -
  note L = assms(1) and inv = link_context.inv_reachable [OF assms(1,2)]
  from link_context.inv_merge_link_context [OF L inv assms(3,4)] obtain m' where
    m': "merge_link_context ops source f ids m = Ok m'" "manager_inv ops ok m'" "keeps ops m m'"
      "\<forall>i \<in> set ids. \<exists>k. lc_key ops source i = Some k \<and> lc_view ops (link_ctx m') k \<noteq> None" by blast
  have "committed_id ops m' k \<noteq> None \<and> im_get (pending m') k = None"
    if "lc_view ops (link_ctx m') k \<noteq> None" for k
    using that m'(2) link_context.committed_id_None [OF L link_context.inv_ctx [OF L m'(2)]]
    by (cases "im_get (pending m') k") (auto simp: manager_inv_defs)
  with m' show ?thesis unfolding keeps_def by blast
qed

theorem merge_publishes_witness:
  "\<exists>m'. merge_link_context list_ops (link_ctx ex_m) RTLD_NOW [''libc.so.6'', ''libm.so'']
       (manager_new list_ops) = Ok m' \<and> committed_id list_ops m' ''libm.so'' \<noteq> None"
proof -
  have wf: "im_wf (link_ctx ex_m)" and "lc_contains list_ops (link_ctx ex_m) ''libc.so.6''"
    "lc_contains list_ops (link_ctx ex_m) ''libm.so''" by code_simp+
  then have "\<exists>m'. merge_link_context list_ops (link_ctx ex_m) RTLD_NOW [''libc.so.6'', ''libm.so'']
       (manager_new list_ops) = Ok m' \<and> (\<forall>i \<in> set [''libc.so.6'', ''libm.so''].
         \<exists>k. lc_key list_ops (link_ctx ex_m) i = Some k \<and> committed_id list_ops m' k \<noteq> None)"
    using merge_publishes [OF list_ctx.link_context_axioms manager_reachable.init wf,
        where ids = "[''libc.so.6'', ''libm.so'']" and f = RTLD_NOW]
    by (metis empty_iff empty_set set_ConsD)
  then show ?thesis by (auto split: if_splits simp del: merge_link_context.simps)
qed

text \<open>
  The relocation scope is the global scope and the load group, the group first under
  \<open>RTLD_DEEPBIND\<close>, keeping the first library of every short name: no short name occurs
  twice and none of the two lists is lost.
\<close>

theorem relocation_scope_dedup:
  "relocation_scope m group_scope flags =
     dedup_by dylib_shortname (scope_order flags (global_values m) group_scope) \<and>
   distinct (map dylib_shortname (relocation_scope m group_scope flags)) \<and>
   dylib_shortname ` set (relocation_scope m group_scope flags) =
     dylib_shortname ` (set (global_values m) \<union> set group_scope)"
proof -
  have eq: "relocation_scope m group_scope flags =
      dedup_by dylib_shortname (scope_order flags (global_values m) group_scope)"
    by (simp add: relocation_scope_def scope_order_def push_unique_dedup dedup_by_append)
  show ?thesis
    unfolding eq using dedup_by_distinct [of dylib_shortname]
    by (simp add: dedup_by_keys) (auto simp: scope_order_def)
qed

text \<open>
  The direct dependencies recorded for a library are the short names its \<open>DT_NEEDED\<close>
  entries resolve to, in order, without repetition and without the entries that resolve to
  nothing; each of them is registered.
\<close>

theorem canonical_direct_deps_resolved:
  assumes "link_context ops ok" "ok (link_ctx m)"
  shows "canonical_direct_deps ops m lib =
      dedup_by id (List.map_filter (canonical_name_owned ops m) (dylib_needed_libs lib)) \<and>
    distinct (canonical_direct_deps ops m lib) \<and>
    (\<forall>k \<in> set (canonical_direct_deps ops m lib). contains_canonical_key ops m k) \<and>
    (\<forall>n \<in> set (dylib_needed_libs lib). \<forall>l. lookup ops m n = Some l \<longrightarrow>
       lookup_shortname l \<in> set (canonical_direct_deps ops m lib))"
proof -
  let ?names = "List.map_filter (canonical_name_owned ops m) (dylib_needed_libs lib)"
  have eq: "canonical_direct_deps ops m lib = dedup_by id ?names"
    by (simp add: canonical_direct_deps_def canonical_deps_dedup)
  have set_eq: "set (canonical_direct_deps ops m lib) = set ?names"
    unfolding eq using dedup_by_keys [of id] by simp
  have "contains_canonical_key ops m k" if "k \<in> set ?names" for k
    using that link_context.lookup_registered [OF assms]
      link_context.contains_canonical_key_iff [OF assms]
    by (auto simp: List.map_filter_def canonical_name_owned_def)
  moreover have "\<forall>n \<in> set (dylib_needed_libs lib). \<forall>l. lookup ops m n = Some l \<longrightarrow>
      lookup_shortname l \<in> set ?names"
    by (force simp: List.map_filter_def canonical_name_owned_def)
  ultimately show ?thesis
    using eq set_eq dedup_by_distinct [of id ?names] by simp
qed

theorem canonical_direct_deps_resolved_witness:
  "canonical_direct_deps list_ops ex_m ex_libm = [''libc.so.6''] \<and>
   distinct (canonical_direct_deps list_ops ex_m ex_libm)"
proof -
  have "im_wf (link_ctx ex_m)" by code_simp
  moreover have "canonical_direct_deps list_ops ex_m ex_libm = [''libc.so.6'']" by code_simp
  ultimately show ?thesis
    using canonical_direct_deps_resolved [OF list_ctx.link_context_axioms] by blast
qed

text \<open>
  \<open>rebuild_link_ctx\<close> does not panic and keeps every committed module with its metadata
  and the load order; no other field of the registry changes and the invariant holds again.
\<close>

theorem rebuild_keeps_modules:
  assumes "link_context ops ok" "manager_reachable ops ok m"
  shows "\<exists>c. rebuild_link_ctx ops m = Ok (m\<lparr>link_ctx := c\<rparr>) \<and>
    lc_names ops c = lc_names ops (link_ctx m) \<and> lc_view ops c = lc_view ops (link_ctx m) \<and>
    manager_inv ops ok (m\<lparr>link_ctx := c\<rparr>)"
  using link_context.rebuild_Ok [OF assms(1) link_context.inv_reachable [OF assms]] by blast

theorem rebuild_keeps_modules_witness:
  "\<exists>c. rebuild_link_ctx list_ops ex_m = Ok (ex_m\<lparr>link_ctx := c\<rparr>) \<and>
     lc_names list_ops c = lc_names list_ops (link_ctx ex_m)"
  using rebuild_keeps_modules [OF list_ctx.link_context_axioms ex_reachable] by blast

text \<open>
  The three questions the linker asks of the registry agree and never panic: a name is
  visible exactly when it resolves to a committed library, that is when a module is returned
  for it and when its direct dependencies are.
\<close>

theorem visible_consistent:
  assumes "link_context ops ok" "manager_reachable ops ok m"
  shows "(visible_contains ops m n \<longleftrightarrow> (\<exists>l. lookup ops m n = Some l \<and> is_relocated l)) \<and>
    (visible_contains ops m n \<longleftrightarrow> visible_loaded ops m n \<noteq> None) \<and>
    (\<exists>r. visible_direct_deps ops m n = Ok r \<and> (visible_contains ops m n \<longleftrightarrow> r \<noteq> None))"
  using link_context.visible_agree [OF assms(1) link_context.inv_reachable [OF assms]] by blast

theorem visible_consistent_witness:
  "visible_contains list_ops ex_m ''libdl.so.2'' \<longleftrightarrow> visible_loaded list_ops ex_m ''libdl.so.2'' \<noteq> None"
  using visible_consistent [OF list_ctx.link_context_axioms ex_reachable] by blast

text \<open>
  C25. In a build with debug assertions \<open>promote\<close> behaves as in a release build except in
  one case, where it panics: a library that is already in the global scope is reopened with
  \<open>RTLD_GLOBAL\<close> and a promotable flag it does not have yet. The release build succeeds.
\<close>

theorem promote_debug_panic:
  assumes "link_context ops ok" "manager_reachable ops ok m"
    and "lc_view ops (link_ctx m) k = Some (lib, meta)"
  shows "(\<exists>m'. promote ops k f m = Ok m') \<and>
    promote_debug ops k f m =
      (if is_global f \<and> is_global (gm_flags meta) \<and> \<not> flags_contain (gm_flags meta) (promotable f)
       then Panic ''Library is already in global scope'' else promote ops k f m)"
proof -
  note L = assms(1) and inv = link_context.inv_reachable [OF assms(1,2)]
  note ok = link_context.inv_ctx [OF L inv]
  from link_context.promote_Ok [OF L inv assms(3), of f] obtain m' where m': "promote ops k f m = Ok m'"
    by blast
  from link_context.committed_id_Some [OF L ok assms(3)] obtain i where
    i: "committed_id ops m k = Some i" "lc_key_id ops (link_ctx m) k = Some i"
      "lc_meta ops (link_ctx m) i = Some meta" by blast
  have get: "lc_get ops (lc_set_meta ops i meta' (link_ctx m)) i = Some lib" for meta'
    by (rule link_context.set_meta_get [OF L ok assms(3) i(2)])
  have glob: "im_get (global m) k \<noteq> None \<longleftrightarrow> is_global (gm_flags meta)"
    using inv assms(3) by (auto simp: manager_inv_defs)
  show ?thesis
    using m' i get glob
    by (auto simp: promote_debug_def promote_def add_global_debug_def Let_def)
qed

theorem promote_debug_panic_witness:
  "promote_debug list_ops ''main'' (RTLD_GLOBAL OR RTLD_NODELETE) ex_m =
     Panic ''Library is already in global scope''"
proof -
  obtain lib meta where v: "lc_view list_ops (link_ctx ex_m) ''main'' = Some (lib, meta)"
    and f: "is_global (gm_flags meta)" "\<not> is_nodelete (gm_flags meta)"
    by (rule that [of ex_main "\<lparr>gm_flags = RTLD_NOW OR RTLD_GLOBAL, gm_libnames = []\<rparr>"]) code_simp+
  have "is_global (RTLD_GLOBAL OR RTLD_NODELETE)" by code_simp
  moreover have "\<not> flags_contain (gm_flags meta) (promotable (RTLD_GLOBAL OR RTLD_NODELETE))"
    using f(2) by (simp add: contain_promotable_iff)
  ultimately show ?thesis
    using promote_debug_panic [OF list_ctx.link_context_axioms ex_reachable v,
        of "RTLD_GLOBAL OR RTLD_NODELETE"] f(1) by simp
qed

text \<open>
  A reservation is visible at once under its short name and its file identity, as a
  library that is still loading, and never overwrites one that is there.
\<close>

theorem reserved_is_found:
  assumes "link_context ops ok" "manager_reachable ops ok m" "\<not> contains_canonical_key ops m k"
  shows "\<exists>m'. reserve_pending ops k full ident f m = Ok m' \<and>
    lookup ops m' k = Some (PendingLib k) \<and>
    (\<forall>i. ident = Some i \<longrightarrow> lookup_by_identity ops m' i = Some (PendingLib k)) \<and>
    manager_flags ops m' k = Some (normalized_flags full f) \<and>
    (\<forall>j. contains_canonical_key ops m j \<longrightarrow> lookup ops m' j = lookup ops m j)"
proof -
  note L = assms(1) and inv = link_context.inv_reachable [OF assms(1,2)]
  note ok = link_context.inv_ctx [OF L inv] and reg = link_context.contains_canonical_key_iff [OF L]
  have fresh: "\<not> registered ops m k" using assms(3) by (simp add: reg ok)
  let ?m1 = "add_identity_opt ident k (add_pending_reservation k (normalized_flags full f) m)"
  from link_context.inv_reserve_pending [OF L inv fresh, of full ident f] obtain m' where
    m': "reserve_pending ops k full ident f m = Ok m'" "manager_inv ops ok m'" "same_libs ops ?m1 m'"
    by blast
  note ok' = link_context.inv_ctx [OF L m'(2)]
  have ctx: "link_ctx ?m1 = link_ctx m" by (simp add: add_pending_reservation_def)
  have pend: "im_get (pending ?m1) j = (if j = k then Some (pending_reserved (normalized_flags full f))
      else im_get (pending m) j)" for j
    by (simp add: add_pending_reservation_def)
  have none: "lc_view ops (link_ctx m') k = None"
    using same_libs_view_None [OF m'(3), of k] fresh ctx by (simp add: registered_def)
  have regs: "registered ops m' j \<longleftrightarrow> j = k \<or> registered ops m j" for j
    using same_libs_registered [OF m'(3)] pend ctx by (auto simp: registered_def)
  have found: "lookup ops m' k = Some (PendingLib k)"
    using link_context.lookup_key [OF L ok', of k] regs none by simp
  have "lookup_by_identity ops m' i = Some (PendingLib k)" if "ident = Some i" for i
    using that m'(3) found by (simp add: lookup_by_identity_def same_libs_def add_identity_opt_def
        add_identity_def)
  moreover have "manager_flags ops m' k = Some (normalized_flags full f)"
  proof -
    have "map_option pd_flags (im_get (pending m') k) = Some (normalized_flags full f)"
      using m'(3) pend [of k] unfolding same_libs_def
      by (metis (no_types, lifting) map_option_eq_Some option.simps(9) pending_dylib.select_convs(2)
          pending_reserved_def snd_conv)
    with none ok' show ?thesis
      by (auto simp: manager_flags_def link_context.committed_flags_view [OF L])
  qed
  moreover have "lookup ops m' j = lookup ops m j" if "contains_canonical_key ops m j" for j
  proof -
    have r: "registered ops m j" "j \<noteq> k" using that fresh by (auto simp: reg ok)
    have "map_option (\<lambda>(lib, meta). (lib, gm_flags meta)) (lc_view ops (link_ctx m') j) =
        map_option (\<lambda>(lib, meta). (lib, gm_flags meta)) (lc_view ops (link_ctx m) j)"
      using m'(3) ctx by (simp add: same_libs_def)
    then show ?thesis
      using link_context.lookup_key [OF L ok r(1)] link_context.lookup_key [OF L ok', of j] regs r
      by (auto split: option.splits)
  qed
  ultimately show ?thesis using m'(1) found by blast
qed

theorem reserved_is_found_witness:
  "\<exists>m'. reserve_pending list_ops ''libx.so'' ''/lib/libx.so'' None RTLD_NOW ex_m = Ok m' \<and>
     lookup list_ops m' ''libx.so'' = Some (PendingLib ''libx.so'')"
proof -
  have "\<not> contains_canonical_key list_ops ex_m ''libx.so''" by code_simp
  from reserved_is_found [OF list_ctx.link_context_axioms ex_reachable this] show ?thesis by blast
qed

end
