(* ===== verification/Rust_Str.thy ===== *)
theory Rust_Str
  imports Prelude
begin

text \<open>
  The parts of \<open>core::str\<close> and \<open>alloc::string\<close> the sources use on bytes that come from
  files: UTF-8 validation (\<open>from_utf8\<close>), lossy decoding (\<open>from_utf8_lossy\<close>), encoding,
  white space, ASCII case folding, comparison, splitting and replacement. A decoded
  \<open>char\<close> is its scalar value, a \<^typ>\<open>nat\<close>; a byte read from a file is a \<^typ>\<open>u8\<close>.
\<close>

type_synonym code_point = nat

definition byte_char :: "u8 \<Rightarrow> char" where
  "byte_char b = char_of (unat b)"

definition str_of_bytes :: "u8 list \<Rightarrow> string" where
  "str_of_bytes = map byte_char"

definition bytes_of_str :: "string \<Rightarrow> u8 list" where
  "bytes_of_str s = map (\<lambda>c. of_nat (of_char c)) s"

lemma str_of_bytes_of_str [simp]: "str_of_bytes (bytes_of_str s) = s"
  by (simp add: str_of_bytes_def bytes_of_str_def byte_char_def unat_of_nat comp_def)

section \<open>UTF-8\<close>

definition is_cont :: "u8 \<Rightarrow> bool" where
  "is_cont b \<longleftrightarrow> 0x80 \<le> b \<and> b \<le> 0xBF"

text \<open>The ranges allowed for the second byte of a sequence of three or four.\<close>

definition second_ok :: "u8 \<Rightarrow> u8 \<Rightarrow> bool" where
  "second_ok b0 b1 =
     (if b0 = 0xE0 then 0xA0 \<le> b1 \<and> b1 \<le> 0xBF
      else if b0 = 0xED then 0x80 \<le> b1 \<and> b1 \<le> 0x9F
      else if b0 = 0xF0 then 0x90 \<le> b1 \<and> b1 \<le> 0xBF
      else if b0 = 0xF4 then 0x80 \<le> b1 \<and> b1 \<le> 0x8F
      else is_cont b1)"

definition utf8_width :: "u8 \<Rightarrow> nat" where
  "utf8_width b =
     (if b < 0x80 then 1
      else if 0xC2 \<le> b \<and> b \<le> 0xDF then 2
      else if 0xE0 \<le> b \<and> b \<le> 0xEF then 3
      else if 0xF0 \<le> b \<and> b \<le> 0xF4 then 4
      else 0)"

definition low6 :: "u8 \<Rightarrow> nat" where
  "low6 b = unat b mod 64"

text \<open>
  \<open>utf8_next\<close> reads one sequence: the scalar value and the rest, or the bytes after the
  maximal prefix that could have begun a sequence, which lossy decoding replaces.
\<close>

datatype utf8_item = Scalar code_point "u8 list" | Bad "u8 list"

fun utf8_next :: "u8 \<Rightarrow> u8 list \<Rightarrow> utf8_item" where
  "utf8_next b0 bs =
     (if utf8_width b0 = 1 then Scalar (unat b0) bs
      else if utf8_width b0 = 2 then
        (case bs of
           b1 # r \<Rightarrow> if is_cont b1 then Scalar (unat b0 mod 32 * 64 + low6 b1) r else Bad bs
         | [] \<Rightarrow> Bad bs)
      else if utf8_width b0 = 3 then
        (case bs of
           b1 # r1 \<Rightarrow>
             if second_ok b0 b1 then
               (case r1 of
                  b2 # r2 \<Rightarrow>
                    if is_cont b2
                    then Scalar (unat b0 mod 16 * 4096 + low6 b1 * 64 + low6 b2) r2 else Bad r1
                | [] \<Rightarrow> Bad r1)
             else Bad bs
         | [] \<Rightarrow> Bad bs)
      else if utf8_width b0 = 4 then
        (case bs of
           b1 # r1 \<Rightarrow>
             if second_ok b0 b1 then
               (case r1 of
                  b2 # r2 \<Rightarrow>
                    if is_cont b2 then
                      (case r2 of
                         b3 # r3 \<Rightarrow>
                           if is_cont b3
                           then Scalar (unat b0 mod 8 * 262144 + low6 b1 * 4096 + low6 b2 * 64
                                        + low6 b3) r3
                           else Bad r2
                       | [] \<Rightarrow> Bad r2)
                    else Bad r1
                | [] \<Rightarrow> Bad r1)
             else Bad bs
         | [] \<Rightarrow> Bad bs)
      else Bad bs)"

lemma utf8_next_length:
  "utf8_next b bs = Scalar c r \<Longrightarrow> length r \<le> length bs"
  "utf8_next b bs = Bad r \<Longrightarrow> length r \<le> length bs"
  by (auto split: if_splits list.splits)

declare utf8_next.simps [simp del]

function from_utf8_lossy :: "u8 list \<Rightarrow> code_point list" where
  "from_utf8_lossy [] = []"
| "from_utf8_lossy (b # bs) =
     (case utf8_next b bs of
        Scalar c r \<Rightarrow> c # from_utf8_lossy r
      | Bad r \<Rightarrow> 0xFFFD # from_utf8_lossy r)"
  by pat_completeness auto
termination
  by (relation "measure length") (auto dest: utf8_next_length)

function utf8_valid :: "u8 list \<Rightarrow> bool" where
  "utf8_valid [] = True"
| "utf8_valid (b # bs) =
     (case utf8_next b bs of Scalar c r \<Rightarrow> utf8_valid r | Bad r \<Rightarrow> False)"
  by pat_completeness auto
termination
  by (relation "measure length") (auto dest: utf8_next_length)

text \<open>\<open>core::str::from_utf8\<close>: the bytes themselves are the \<open>&str\<close>.\<close>

definition from_utf8 :: "u8 list \<Rightarrow> string option" where
  "from_utf8 bs = (if utf8_valid bs then Some (str_of_bytes bs) else None)"

definition encode_char :: "code_point \<Rightarrow> u8 list" where
  "encode_char c =
     (if c < 0x80 then [of_nat c]
      else if c < 0x800 then [of_nat (0xC0 + c div 64), of_nat (0x80 + c mod 64)]
      else if c < 0x10000 then
        [of_nat (0xE0 + c div 4096), of_nat (0x80 + c div 64 mod 64), of_nat (0x80 + c mod 64)]
      else
        [of_nat (0xF0 + c div 262144), of_nat (0x80 + c div 4096 mod 64),
         of_nat (0x80 + c div 64 mod 64), of_nat (0x80 + c mod 64)])"

definition utf8_encode :: "code_point list \<Rightarrow> u8 list" where
  "utf8_encode cs = concat (map encode_char cs)"

definition is_scalar :: "code_point \<Rightarrow> bool" where
  "is_scalar c \<longleftrightarrow> c < 0xD800 \<or> 0xDFFF < c \<and> c < 0x110000"

section \<open>Characters\<close>

text \<open>\<open>char::is_whitespace\<close>: the Unicode property \<open>White_Space\<close>.\<close>

definition is_whitespace :: "code_point \<Rightarrow> bool" where
  "is_whitespace c \<longleftrightarrow>
     9 \<le> c \<and> c \<le> 13 \<or> c = 0x20 \<or> c = 0x85 \<or> c = 0xA0 \<or> c = 0x1680 \<or>
     0x2000 \<le> c \<and> c \<le> 0x200A \<or> c = 0x2028 \<or> c = 0x2029 \<or> c = 0x202F \<or> c = 0x205F \<or>
     c = 0x3000"

definition code_points :: "string \<Rightarrow> code_point list" where
  "code_points s = map of_char s"

definition to_ascii_lower :: "code_point \<Rightarrow> code_point" where
  "to_ascii_lower c = (if 65 \<le> c \<and> c \<le> 90 then c + 32 else c)"

definition eq_ignore_ascii_case :: "code_point list \<Rightarrow> code_point list \<Rightarrow> bool" where
  "eq_ignore_ascii_case s t \<longleftrightarrow> map to_ascii_lower s = map to_ascii_lower t"

section \<open>Encoding and decoding\<close>

lemma u8_of_nat: "n < 256 \<Longrightarrow> unat (of_nat n :: u8) = n"
  by (simp add: unat_of_nat)

lemma u8_le_of_nat: "n < 256 \<Longrightarrow> k < 256 \<Longrightarrow> (of_nat n :: u8) \<le> of_nat k \<longleftrightarrow> n \<le> k"
  by (simp add: word_le_nat_alt u8_of_nat)

lemma u8_eq_of_nat: "n < 256 \<Longrightarrow> k < 256 \<Longrightarrow> (of_nat n :: u8) = of_nat k \<longleftrightarrow> n = k"
  by (metis u8_of_nat)

lemma cont_of_nat:
  assumes "n < 64"
  shows "is_cont (of_nat (0x80 + n))" "low6 (of_nat (0x80 + n)) = n"
proof -
  have eq: "unat (of_nat (0x80 + n) :: u8) = 0x80 + n" using assms by (intro u8_of_nat) simp
  show "is_cont (of_nat (0x80 + n))"
    unfolding is_cont_def word_le_nat_alt eq using assms by simp
  show "low6 (of_nat (0x80 + n)) = n"
    unfolding low6_def eq using assms mod_mult_self3 [of 2 64 n] by simp
qed

lemma width_of_nat:
  assumes "n < 256"
  shows "utf8_width (of_nat n) =
    (if n < 0x80 then 1 else if 0xC2 \<le> n \<and> n \<le> 0xDF then 2
     else if 0xE0 \<le> n \<and> n \<le> 0xEF then 3 else if 0xF0 \<le> n \<and> n \<le> 0xF4 then 4 else 0)"
  unfolding utf8_width_def word_le_nat_alt word_less_nat_alt u8_of_nat [OF assms] by simp

text \<open>The digits of a scalar value to base 64.\<close>

lemma split3:
  fixes c :: nat
  obtains a m l where "c = a * 4096 + m * 64 + l" "m < 64" "l < 64"
    "c div 4096 = a" "c div 64 mod 64 = m" "c mod 64 = l"
proof -
  have "c div 4096 = c div 64 div 64" by (simp add: div_mult2_eq [symmetric])
  moreover have "c = c div 64 * 64 + c mod 64" by simp
  moreover have "c div 64 = c div 64 div 64 * 64 + c div 64 mod 64" by simp
  ultimately have "c = c div 4096 * 4096 + c div 64 mod 64 * 64 + c mod 64" by linarith
  then show ?thesis by (rule that) simp_all
qed

lemma split4:
  fixes c :: nat
  obtains a k m l where "c = a * 262144 + k * 4096 + m * 64 + l" "k < 64" "m < 64" "l < 64"
    "c div 262144 = a" "c div 4096 mod 64 = k" "c div 64 mod 64 = m" "c mod 64 = l"
proof -
  obtain m l where c: "c = c div 4096 * 4096 + m * 64 + l" "m < 64" "l < 64"
    "c div 64 mod 64 = m" "c mod 64 = l" by (rule split3 [of c]) auto
  have "c div 262144 = c div 4096 div 64" by (simp add: div_mult2_eq [symmetric])
  moreover have "c div 4096 = c div 4096 div 64 * 64 + c div 4096 mod 64" by simp
  ultimately have "c = c div 262144 * 262144 + c div 4096 mod 64 * 4096 + m * 64 + l"
    using c(1) by linarith
  then show ?thesis by (rule that) (use c in simp_all)
qed

lemma second_of_nat:
  assumes "h < 256" "n < 64"
  shows "second_ok (of_nat h) (of_nat (0x80 + n)) \<longleftrightarrow>
    (h = 0xE0 \<longrightarrow> 32 \<le> n) \<and> (h = 0xED \<longrightarrow> n < 32) \<and> (h = 0xF0 \<longrightarrow> 16 \<le> n) \<and> (h = 0xF4 \<longrightarrow> n < 16)"
proof -
  have eq: "unat (of_nat (0x80 + n) :: u8) = 0x80 + n" "unat (of_nat h :: u8) = h"
    using assms by (simp_all add: u8_of_nat del: of_nat_add)
  have *: "(of_nat h :: u8) = w \<longleftrightarrow> h = unat w" for w using assms eq(2) by auto
  show ?thesis
    unfolding second_ok_def is_cont_def word_le_nat_alt eq * using assms(2) by auto
qed

lemma utf8_next_encode:
  assumes "is_scalar c" "encode_char c = b # bs"
  shows "utf8_next b (bs @ rest) = Scalar c rest"
proof -
  consider "c < 0x80" | "0x80 \<le> c" "c < 0x800" | "0x800 \<le> c" "c < 0x10000" | "0x10000 \<le> c" by linarith
  then show ?thesis
  proof cases
    case 1
    with assms(2) have "b = of_nat c" "bs = []" by (auto simp: encode_char_def)
    with 1 show ?thesis by (simp add: utf8_next.simps width_of_nat u8_of_nat)
  next
    case 2
    define h where "h = 0xC0 + c div 64"
    have h: "0xC2 \<le> h" "h \<le> 0xDF" using 2 by (auto simp: h_def)
    from 2 assms(2) have b: "b = of_nat h" "bs = [of_nat (0x80 + c mod 64)]"
      by (auto simp: encode_char_def h_def)
    have "utf8_width b = 2" using h by (simp add: b width_of_nat)
    moreover have "h mod 32 * 64 + c mod 64 = c"
    proof -
      have "c div 64 < 32" using 2 by auto
      then have "h mod 32 = c div 64" using mod_mult_self3 [of 6 32 "c div 64"] by (simp add: h_def)
      then show ?thesis by simp
    qed
    ultimately show ?thesis
      using h cont_of_nat [of "c mod 64"] by (simp add: utf8_next.simps b u8_of_nat)
  next
    case 3
    obtain a m l where c: "c = a * 4096 + m * 64 + l" "m < 64" "l < 64"
      "c div 4096 = a" "c div 64 mod 64 = m" "c mod 64 = l" by (rule split3 [of c])
    have a: "a < 16" using 3 c(1) by linarith
    from 3 assms(2) have b: "b = of_nat (0xE0 + a)" "bs = [of_nat (0x80 + m), of_nat (0x80 + l)]"
      by (auto simp: encode_char_def c(4-6))
    have h: "0xE0 + a < 256" using a by simp
    have w: "utf8_width b = 3" unfolding b width_of_nat [OF h] using a by simp
    have sec: "second_ok b (of_nat (0x80 + m))"
      unfolding b second_of_nat [OF h c(2)] using a c 3 assms(1) by (auto simp: is_scalar_def)
    have "(0xE0 + a) mod 16 = a" using a mod_mult_self3 [of 14 16 a] by simp
    then have val: "unat b mod 16 * 4096 + m * 64 + l = c" unfolding b u8_of_nat [OF h] using c(1) by simp
    show ?thesis
      using w sec val cont_of_nat [OF c(2)] cont_of_nat [OF c(3)]
      by (simp add: utf8_next.simps b(2) del: of_nat_add)
  next
    case 4
    then have top: "c < 0x110000" using assms(1) by (auto simp: is_scalar_def)
    obtain a k m l where c: "c = a * 262144 + k * 4096 + m * 64 + l" "k < 64" "m < 64" "l < 64"
      "c div 262144 = a" "c div 4096 mod 64 = k" "c div 64 mod 64 = m" "c mod 64 = l"
      by (rule split4 [of c])
    have a: "a < 5" using top c(1) by linarith
    from 4 assms(2) have b: "b = of_nat (0xF0 + a)"
      "bs = [of_nat (0x80 + k), of_nat (0x80 + m), of_nat (0x80 + l)]"
      by (auto simp: encode_char_def c(5-8))
    have h: "0xF0 + a < 256" using a by simp
    have w: "utf8_width b = 4" unfolding b width_of_nat [OF h] using a by simp
    have sec: "second_ok b (of_nat (0x80 + k))"
      unfolding b second_of_nat [OF h c(2)] using a c 4 top by auto
    have "(0xF0 + a) mod 8 = a" using a mod_mult_self3 [of 30 8 a] by simp
    then have val: "unat b mod 8 * 262144 + k * 4096 + m * 64 + l = c"
      unfolding b u8_of_nat [OF h] using c(1) by simp
    show ?thesis
      using w sec val cont_of_nat [OF c(2)] cont_of_nat [OF c(3)] cont_of_nat [OF c(4)]
      by (simp add: utf8_next.simps b(2) del: of_nat_add)
  qed
qed

lemma encode_char_nonempty: "encode_char c \<noteq> []"
  by (simp add: encode_char_def)

text \<open>Decoding inverts encoding, and what \<open>encode\<close> writes is valid.\<close>

lemma lossy_encode: "\<forall>c \<in> set cs. is_scalar c \<Longrightarrow>
    from_utf8_lossy (utf8_encode cs @ rest) = cs @ from_utf8_lossy rest"
proof (induction cs)
  case (Cons c cs)
  obtain b bs where b: "encode_char c = b # bs" using encode_char_nonempty by (cases "encode_char c") auto
  have "utf8_next b (bs @ utf8_encode cs @ rest) = Scalar c (utf8_encode cs @ rest)"
    using Cons.prems b by (intro utf8_next_encode) auto
  with Cons b show ?case by (simp add: utf8_encode_def)
qed (simp add: utf8_encode_def)

lemma valid_encode: "\<forall>c \<in> set cs. is_scalar c \<Longrightarrow> utf8_valid (utf8_encode cs)"
proof (induction cs)
  case (Cons c cs)
  obtain b bs where b: "encode_char c = b # bs" using encode_char_nonempty by (cases "encode_char c") auto
  have "utf8_next b (bs @ utf8_encode cs) = Scalar c (utf8_encode cs)"
    using Cons.prems b by (intro utf8_next_encode) auto
  with Cons b show ?case by (simp add: utf8_encode_def)
qed (simp add: utf8_encode_def)

text \<open>ASCII strings are their own encoding.\<close>

definition is_ascii :: "string \<Rightarrow> bool" where
  "is_ascii s \<longleftrightarrow> (\<forall>c \<in> set s. of_char c < (0x80 :: nat))"

lemma encode_ascii: "is_ascii s \<Longrightarrow> utf8_encode (code_points s) = bytes_of_str s"
  by (induction s)
    (auto simp: is_ascii_def utf8_encode_def code_points_def bytes_of_str_def encode_char_def)

lemma lossy_ascii: "is_ascii s \<Longrightarrow> from_utf8_lossy (bytes_of_str s) = code_points s"
proof -
  assume s: "is_ascii s"
  then have "\<forall>c \<in> set (code_points s). is_scalar c"
    by (auto simp: is_ascii_def code_points_def is_scalar_def)
  from lossy_encode [OF this, of "[]"] s show ?thesis by (simp add: encode_ascii)
qed

lemma valid_ascii: "is_ascii s \<Longrightarrow> utf8_valid (bytes_of_str s)"
proof -
  assume s: "is_ascii s"
  then have "\<forall>c \<in> set (code_points s). is_scalar c"
    by (auto simp: is_ascii_def code_points_def is_scalar_def)
  from valid_encode [OF this] s show ?thesis by (simp add: encode_ascii)
qed

end
