(* ===== verification/Linker_Script.thy ===== *)
theory Linker_Script
  imports Rust_Str
begin

text \<open>
  \<open>src/utils/linker_script.rs\<close>: the parser for the GNU linker scripts that stand in for
  shared libraries (\<open>GROUP ( libc.so.6 AS_NEEDED ( ld.so ) )\<close>). A token is the list of its
  characters. The loops over an index are recursions over the tokens that are left; an
  index past the end is the empty rest.
\<close>

section \<open>Tokens\<close>

type_synonym token = "code_point list"

abbreviation lparen :: code_point where "lparen \<equiv> 40"
abbreviation rparen :: code_point where "rparen \<equiv> 41"
abbreviation star :: code_point where "star \<equiv> 42"
abbreviation slash :: code_point where "slash \<equiv> 47"

definition peek_is :: "code_point \<Rightarrow> code_point list \<Rightarrow> bool" where
  "peek_is c cs = (case cs of [] \<Rightarrow> False | d # _ \<Rightarrow> d = c)"

fun skip_comment :: "code_point list \<Rightarrow> code_point list" where
  "skip_comment [] = []"
| "skip_comment (c # cs) = (if c = star \<and> peek_is slash cs then tl cs else skip_comment cs)"

definition in_token :: "code_point \<Rightarrow> bool" where
  "in_token c \<longleftrightarrow> \<not> (is_whitespace c \<or> c = lparen \<or> c = rparen)"

lemma skip_comment_length: "length (skip_comment cs) \<le> length cs"
  by (induction cs) auto

lemma skip_comment_tl [termination_simp]:
  "length (skip_comment (tl cs)) < Suc (length cs)"
  using skip_comment_length [of "tl cs"] by simp

lemma dropWhile_length [termination_simp]: "length (dropWhile P cs) < Suc (length cs)"
  by (simp add: length_dropWhile_le le_imp_less_Suc)

fun tokenize :: "code_point list \<Rightarrow> token list" where
  "tokenize [] = []"
| "tokenize (c # cs) =
     (if is_whitespace c then tokenize cs
      else if c = lparen \<or> c = rparen then [c] # tokenize cs
      else if c = slash \<and> peek_is star cs then tokenize (skip_comment (tl cs))
      else (c # takeWhile in_token cs) # tokenize (dropWhile in_token cs))"

lemma tokenize_space: "is_whitespace c \<Longrightarrow> tokenize (c # cs) = tokenize cs"
  by simp

lemma tokenize_paren: "c = lparen \<or> c = rparen \<Longrightarrow> tokenize (c # cs) = [c] # tokenize cs"
  by (auto simp: is_whitespace_def)

lemma tokenize_comment:
  "peek_is star cs \<Longrightarrow> tokenize (slash # cs) = tokenize (skip_comment (tl cs))"
  by (simp add: is_whitespace_def)

lemma tokenize_word: "in_token c \<Longrightarrow> \<not> (c = slash \<and> peek_is star cs) \<Longrightarrow>
    tokenize (c # cs) = (c # takeWhile in_token cs) # tokenize (dropWhile in_token cs)"
  by (auto simp: in_token_def)

lemmas tokenize_steps = tokenize_space tokenize_paren tokenize_comment tokenize_word

declare tokenize.simps(2) [simp del]

section \<open>Commands\<close>

definition starts_with_dash :: "token \<Rightarrow> bool" where
  "starts_with_dash t = (case t of [] \<Rightarrow> False | c # _ \<Rightarrow> c = 45)"

function (domintros) parse_group :: "token list \<Rightarrow> token list \<Rightarrow> token list \<times> token list" where
  "parse_group [] libs = ([], libs)"
| "parse_group (t # ts) libs =
     (if t = [rparen] then (ts, libs)
      else if t = code_points ''AS_NEEDED'' then
        (case ts of
           [] \<Rightarrow> ([], libs)
         | u # us \<Rightarrow>
             if u = [lparen]
             then (case parse_group us libs of (rest, libs') \<Rightarrow> parse_group rest libs')
             else parse_group us libs)
      else parse_group ts (if starts_with_dash t then libs else libs @ [t]))"
  by pat_completeness auto

lemma parse_group_length:
  "parse_group_dom (ts, libs) \<Longrightarrow> length (fst (parse_group ts libs)) \<le> length ts"
proof (induction ts libs rule: parse_group.pinduct)
  case (2 t ts libs)
  show ?case
  proof (cases "t = code_points ''AS_NEEDED'' \<and> ts \<noteq> [] \<and> hd ts = [lparen] \<and> t \<noteq> [rparen]")
    case True
    then obtain us where ts: "ts = [lparen] # us" by (cases ts) auto
    obtain rest libs' where r: "parse_group us libs = (rest, libs')" by fastforce
    have "length rest \<le> length us" using 2(2) [of "[lparen]" us] True ts r by auto
    moreover have "length (fst (parse_group rest libs')) \<le> length rest"
      using 2(3) [of "[lparen]" us] True ts r by auto
    ultimately show ?thesis using True ts r 2(1) by (simp add: parse_group.psimps)
  next
    case False
    then show ?thesis
      using 2 by (cases ts) (auto simp: parse_group.psimps split: if_splits)
  qed
qed (simp add: parse_group.psimps)

termination parse_group
  by (relation "measure (\<lambda>(ts, libs). length ts)")
    (auto dest!: parse_group_length split: prod.splits)

lemma parse_group_shorter: "parse_group ts libs = (rest, libs') \<Longrightarrow> length rest \<le> length ts"
proof (induction ts libs arbitrary: rest libs' rule: parse_group.induct)
  case (2 t ts libs)
  show ?case
  proof (cases "t = code_points ''AS_NEEDED'' \<and> ts \<noteq> [] \<and> hd ts = [lparen] \<and> t \<noteq> [rparen]")
    case True
    then obtain us where ts: "ts = [lparen] # us" by (cases ts) auto
    obtain r1 l1 where r: "parse_group us libs = (r1, l1)" by fastforce
    with 2 True ts show ?thesis by (fastforce split: prod.splits)
  next
    case False
    with 2 show ?thesis by (cases ts) (fastforce split: if_splits)+
  qed
qed simp

definition is_input_command :: "token \<Rightarrow> bool" where
  "is_input_command t \<longleftrightarrow> eq_ignore_ascii_case t (code_points ''GROUP'') \<or>
     eq_ignore_ascii_case t (code_points ''INPUT'')"

function script_loop :: "token list \<Rightarrow> token list \<Rightarrow> token list" where
  "script_loop [] libs = libs"
| "script_loop (t # ts) libs =
     (if is_input_command t then
        (case ts of
           [] \<Rightarrow> libs
         | u # us \<Rightarrow>
             if u = [lparen]
             then (case parse_group us libs of (rest, libs') \<Rightarrow> script_loop rest libs')
             else script_loop (u # us) libs)
      else script_loop ts libs)"
  by pat_completeness auto
termination
  by (relation "measure (\<lambda>(ts, libs). length ts)") (auto dest: parse_group_shorter split: prod.splits)

definition get_linker_script_libs :: "u8 list \<Rightarrow> string list" where
  "get_linker_script_libs content =
     map (\<lambda>t. str_of_bytes (utf8_encode t)) (script_loop (tokenize (from_utf8_lossy content)) [])"

section \<open>Shape of the tokens\<close>

lemma takeWhile_token: "c \<in> set (takeWhile in_token cs) \<Longrightarrow> in_token c"
  by (rule set_takeWhileD [THEN conjunct2])

lemma tokenize_shape:
  "t \<in> set (tokenize cs) \<Longrightarrow> t = [lparen] \<or> t = [rparen] \<or> t \<noteq> [] \<and> (\<forall>c \<in> set t. in_token c)"
proof (induction cs rule: tokenize.induct)
  case (2 c cs)
  consider (space) "is_whitespace c" | (paren) "\<not> is_whitespace c" "c = lparen \<or> c = rparen"
    | (comment) "\<not> is_whitespace c" "c = slash \<and> peek_is star cs"
    | (word) "in_token c" "\<not> (c = slash \<and> peek_is star cs)" by (auto simp: in_token_def)
  then show ?case
  proof cases
    case word
    then have no: "\<not> is_whitespace c" "\<not> (c = lparen \<or> c = rparen)" by (auto simp: in_token_def)
    from word 2(5) have "t = c # takeWhile in_token cs \<or> t \<in> set (tokenize (dropWhile in_token cs))"
      by (simp add: tokenize_word)
    then show ?thesis
    proof
      assume "t = c # takeWhile in_token cs"
      with word(1) show ?thesis by (auto dest: takeWhile_token)
    next
      assume "t \<in> set (tokenize (dropWhile in_token cs))"
      with 2(4) no word(2) show ?thesis by blast
    qed
  next
    case comment
    with 2(5) have "t \<in> set (tokenize (skip_comment (tl cs)))" by (simp add: tokenize_comment)
    with 2(3) comment show ?thesis by simp
  next
    case paren
    with 2(5) have "t = [c] \<or> t \<in> set (tokenize cs)" by (simp add: tokenize_paren)
    with 2(2) paren show ?thesis by blast
  qed (use 2(1,5) in \<open>simp add: tokenize_space\<close>)
qed simp

section \<open>Scripts as syntax trees\<close>

datatype script_item = Lib_Item token | As_Needed "script_item list"

datatype statement = Inputs token "script_item list" | Other "token list"

fun item_tokens :: "script_item \<Rightarrow> token list" where
  "item_tokens (Lib_Item t) = [t]"
| "item_tokens (As_Needed xs) =
     code_points ''AS_NEEDED'' # [lparen] # concat (map item_tokens xs) @ [[rparen]]"

fun item_libs :: "script_item \<Rightarrow> token list" where
  "item_libs (Lib_Item t) = (if starts_with_dash t then [] else [t])"
| "item_libs (As_Needed xs) = concat (map item_libs xs)"

fun item_ok :: "script_item \<Rightarrow> bool" where
  "item_ok (Lib_Item t) \<longleftrightarrow> t \<noteq> [] \<and> (\<forall>c \<in> set t. in_token c) \<and> t \<noteq> code_points ''AS_NEEDED''"
| "item_ok (As_Needed xs) \<longleftrightarrow> (\<forall>x \<in> set xs. item_ok x)"

fun statement_tokens :: "statement \<Rightarrow> token list" where
  "statement_tokens (Inputs cmd xs) = cmd # [lparen] # concat (map item_tokens xs) @ [[rparen]]"
| "statement_tokens (Other ts) = ts"

fun statement_libs :: "statement \<Rightarrow> token list" where
  "statement_libs (Inputs cmd xs) = concat (map item_libs xs)"
| "statement_libs (Other ts) = []"

fun statement_ok :: "statement \<Rightarrow> bool" where
  "statement_ok (Inputs cmd xs) \<longleftrightarrow> is_input_command cmd \<and> (\<forall>x \<in> set xs. item_ok x)"
| "statement_ok (Other ts) \<longleftrightarrow> (\<forall>t \<in> set ts. \<not> is_input_command t)"

lemma as_needed_not_rparen [simp]: "code_points ''AS_NEEDED'' \<noteq> [rparen]"
  by (simp add: code_points_def)

lemma item_ok_not_rparen: "item_ok (Lib_Item t) \<Longrightarrow> t \<noteq> [rparen]"
  by (auto simp: in_token_def)

lemma parse_items:
  "(\<And>y ts libs. y \<in> set xs \<Longrightarrow>
      parse_group (item_tokens y @ ts) libs = parse_group ts (libs @ item_libs y)) \<Longrightarrow>
   parse_group (concat (map item_tokens xs) @ ts) libs =
     parse_group ts (libs @ concat (map item_libs xs))"
  by (induction xs arbitrary: libs) simp_all

lemma parse_item:
  "item_ok x \<Longrightarrow> parse_group (item_tokens x @ ts) libs = parse_group ts (libs @ item_libs x)"
proof (induction x arbitrary: ts libs)
  case (Lib_Item t)
  with item_ok_not_rparen [OF this] show ?case by simp
next
  case (As_Needed xs)
  then have "parse_group (concat (map item_tokens xs) @ [rparen] # ts) libs =
      (ts, libs @ concat (map item_libs xs))"
    by (subst parse_items) auto
  then show ?case by simp
qed

lemma script_statement:
  assumes "statement_ok st"
  shows "script_loop (statement_tokens st @ ts) libs = script_loop ts (libs @ statement_libs st)"
proof (cases st)
  case (Inputs cmd xs)
  with assms have "parse_group (concat (map item_tokens xs) @ [rparen] # ts) libs =
      (ts, libs @ concat (map item_libs xs))"
    by (subst parse_items) (auto simp: parse_item)
  with Inputs assms show ?thesis by simp
next
  case (Other us)
  have "\<forall>t \<in> set us. \<not> is_input_command t \<Longrightarrow> script_loop (us @ ts) libs = script_loop ts libs"
    by (induction us) auto
  with Other assms show ?thesis by simp
qed

lemma script_statements:
  "\<forall>st \<in> set sts. statement_ok st \<Longrightarrow>
     script_loop (concat (map statement_tokens sts)) libs = libs @ concat (map statement_libs sts)"
  by (induction sts arbitrary: libs) (simp_all add: script_statement)

section \<open>Text of a script\<close>

text \<open>
  Tokens are separated by white space and comments; the first separator after a token is
  white space (a comment that touches a token would become part of it).
\<close>

datatype gap = Space code_point | Comment "code_point list"

fun no_comment_end :: "code_point list \<Rightarrow> bool" where
  "no_comment_end [] \<longleftrightarrow> True"
| "no_comment_end (c # cs) \<longleftrightarrow> \<not> (c = star \<and> peek_is slash cs) \<and> no_comment_end cs"

fun gap_text :: "gap \<Rightarrow> code_point list" where
  "gap_text (Space c) = [c]"
| "gap_text (Comment body) = [slash, star] @ body @ [star, slash]"

fun gap_ok :: "gap \<Rightarrow> bool" where
  "gap_ok (Space c) \<longleftrightarrow> is_whitespace c"
| "gap_ok (Comment body) \<longleftrightarrow> no_comment_end (body @ [star])"

definition separator_ok :: "gap list \<Rightarrow> bool" where
  "separator_ok gs \<longleftrightarrow> gs \<noteq> [] \<and> (\<exists>c. hd gs = Space c) \<and> (\<forall>g \<in> set gs. gap_ok g)"

definition separator_text :: "gap list \<Rightarrow> code_point list" where
  "separator_text gs = concat (map gap_text gs)"

definition token_ok :: "token \<Rightarrow> bool" where
  "token_ok t \<longleftrightarrow> t = [lparen] \<or> t = [rparen] \<or>
     t \<noteq> [] \<and> (\<forall>c \<in> set t. in_token c) \<and> \<not> (hd t = slash \<and> peek_is star (tl t))"

definition script_text :: "(token \<times> gap list) list \<Rightarrow> code_point list" where
  "script_text tgs = concat (map (\<lambda>(t, gs). t @ separator_text gs) tgs)"

lemma skip_comment_body: "no_comment_end (body @ [star]) \<Longrightarrow>
    skip_comment (body @ star # slash # rest) = rest"
proof (induction body)
  case Nil
  then show ?case by (simp add: peek_is_def)
next
  case (Cons c body)
  have "peek_is slash (body @ star # slash # rest) = peek_is slash (body @ [star])"
    by (cases body) (simp_all add: peek_is_def)
  with Cons show ?case by auto
qed

lemma tokenize_gap: "gap_ok g \<Longrightarrow> tokenize (gap_text g @ rest) = tokenize rest"
  by (cases g) (simp_all add: skip_comment_body peek_is_def tokenize_comment tokenize_space)

lemma tokenize_separator: "\<forall>g \<in> set gs. gap_ok g \<Longrightarrow> tokenize (separator_text gs @ rest) = tokenize rest"
  by (induction gs) (simp_all add: separator_text_def tokenize_gap)

lemma tokenize_token:
  assumes "token_ok t" "is_whitespace w"
  shows "tokenize (t @ w # rest) = t # tokenize (w # rest)"
proof (cases "t = [lparen] \<or> t = [rparen]")
  case True
  then show ?thesis using tokenize_paren by auto
next
  case False
  with assms(1) obtain c cs where t: "t = c # cs" "in_token c" "\<forall>d \<in> set cs. in_token d"
    "\<not> (c = slash \<and> peek_is star cs)" by (cases t) (auto simp: token_ok_def)
  have stop: "\<not> in_token w" using assms(2) by (simp add: in_token_def)
  have "\<not> (c = slash \<and> peek_is star (cs @ w # rest))"
    using t(4) assms(2) by (cases cs) (auto simp: peek_is_def is_whitespace_def)
  with t stop show ?thesis by (simp add: tokenize_word takeWhile_append dropWhile_append)
qed

lemma tokenize_script:
  "(\<And>t gs. (t, gs) \<in> set tgs \<Longrightarrow> token_ok t \<and> separator_ok gs) \<Longrightarrow>
     tokenize (script_text tgs) = map fst tgs"
proof (induction tgs)
  case (Cons tg tgs)
  obtain t gs where tg: "tg = (t, gs)" by (cases tg)
  with Cons.prems have ok: "token_ok t" "separator_ok gs" by auto
  then obtain w gs' where gs: "gs = Space w # gs'" by (cases gs) (auto simp: separator_ok_def)
  with ok have w: "is_whitespace w" and all: "\<forall>g \<in> set gs. gap_ok g" by (auto simp: separator_ok_def)
  have "tokenize (t @ separator_text gs @ script_text tgs) =
      t # tokenize (separator_text gs @ script_text tgs)"
    using tokenize_token [OF ok(1) w] by (simp add: gs separator_text_def)
  moreover have "tokenize (script_text tgs) = map fst tgs" by (rule Cons.IH) (use Cons.prems in auto)
  ultimately show ?case using all tg by (simp add: script_text_def tokenize_separator)
qed (simp add: script_text_def)

section \<open>Properties\<close>

text \<open>
  C26. Parsing the text of a script gives its libraries: for any sequence of statements with
  \<open>GROUP\<close> or \<open>INPUT\<close> in any case, items nested in \<open>AS_NEEDED\<close> to any depth, options
  that begin with a dash left out, other commands ignored, and any white space and comments
  between the tokens, encoded as UTF-8.
\<close>

theorem linker_script_roundtrip:
  assumes "\<forall>st \<in> set sts. statement_ok st"
    and "map fst tgs = concat (map statement_tokens sts)"
    and "\<And>t gs. (t, gs) \<in> set tgs \<Longrightarrow> token_ok t \<and> separator_ok gs"
    and "\<forall>c \<in> set (script_text tgs). is_scalar c"
  shows "get_linker_script_libs (utf8_encode (script_text tgs)) =
    map (\<lambda>t. str_of_bytes (utf8_encode t)) (concat (map statement_libs sts))"
proof -
  have "from_utf8_lossy (utf8_encode (script_text tgs)) = script_text tgs"
    using lossy_encode [of "script_text tgs" "[]"] assms(4) by simp
  then show ?thesis
    using tokenize_script [OF assms(3)] assms(2) script_statements [OF assms(1), of "[]"]
    by (simp add: get_linker_script_libs_def)
qed

theorem linker_script_roundtrip_witness:
  "get_linker_script_libs (bytes_of_str
       ''Group ( /lib/libc.so.6 /* note */ AS_NEEDED ( ld.so -lm ) ) '') =
     [''/lib/libc.so.6'', ''ld.so'']"
proof -
  let ?sp = "[Space 32]"
  let ?tgs = "[(code_points ''Group'', ?sp), ([lparen], ?sp),
    (code_points ''/lib/libc.so.6'', [Space 32, Comment (code_points '' note ''), Space 32]),
    (code_points ''AS_NEEDED'', ?sp), ([lparen], ?sp), (code_points ''ld.so'', ?sp),
    (code_points ''-lm'', ?sp), ([rparen], ?sp), ([rparen], ?sp)]"
  let ?sts = "[Inputs (code_points ''Group'') [Lib_Item (code_points ''/lib/libc.so.6''),
    As_Needed [Lib_Item (code_points ''ld.so''), Lib_Item (code_points ''-lm'')]]]"
  note cps = code_points_def is_whitespace_def in_token_def peek_is_def is_scalar_def
  have 1: "\<forall>st \<in> set ?sts. statement_ok st"
    by (simp add: cps is_input_command_def eq_ignore_ascii_case_def to_ascii_lower_def)
  have 2: "map fst ?tgs = concat (map statement_tokens ?sts)" by simp
  have 3: "\<forall>x \<in> set ?tgs. token_ok (fst x) \<and> separator_ok (snd x)"
    by (simp add: cps separator_ok_def token_ok_def)
  have 4: "\<forall>c \<in> set (script_text ?tgs). is_scalar c"
    by (simp add: cps script_text_def separator_text_def)
  have "get_linker_script_libs (utf8_encode (script_text ?tgs)) =
      map (\<lambda>t. str_of_bytes (utf8_encode t)) (concat (map statement_libs ?sts))"
    by (rule linker_script_roundtrip [OF 1 2 _ 4]) (use 3 in auto)
  moreover have "utf8_encode (script_text ?tgs) =
      bytes_of_str ''Group ( /lib/libc.so.6 /* note */ AS_NEEDED ( ld.so -lm ) ) ''"
    by (simp add: cps script_text_def separator_text_def utf8_encode_def encode_char_def bytes_of_str_def)
  moreover have "map (\<lambda>t. str_of_bytes (utf8_encode t)) (concat (map statement_libs ?sts)) =
      map (\<lambda>s. str_of_bytes (bytes_of_str s)) [''/lib/libc.so.6'', ''ld.so'']"
    by (simp add: starts_with_dash_def encode_ascii is_ascii_def) (simp add: code_points_def)
  ultimately show ?thesis by simp
qed

lemma parse_group_libs:
  "parse_group ts libs = (rest, libs') \<Longrightarrow> set rest \<subseteq> set ts \<and>
     set libs' \<subseteq> set libs \<union> {t \<in> set ts. \<not> starts_with_dash t \<and> t \<noteq> [rparen]}"
proof (induction ts libs arbitrary: rest libs' rule: parse_group.induct)
  case (2 t ts libs)
  show ?case
  proof (cases "t = code_points ''AS_NEEDED'' \<and> ts \<noteq> [] \<and> hd ts = [lparen]")
    case True
    then obtain us where ts: "ts = [lparen] # us" by (cases ts) auto
    obtain r1 l1 where r: "parse_group us libs = (r1, l1)" by fastforce
    with 2(5) True ts have rest: "parse_group r1 l1 = (rest, libs')" by simp
    have "set r1 \<subseteq> set us" "set l1 \<subseteq> set libs \<union> {t \<in> set us. \<not> starts_with_dash t \<and> t \<noteq> [rparen]}"
      using 2(1) [of "[lparen]" us r1 l1] True ts r by auto
    moreover have "set rest \<subseteq> set r1"
      "set libs' \<subseteq> set l1 \<union> {t \<in> set r1. \<not> starts_with_dash t \<and> t \<noteq> [rparen]}"
      using 2(2) [of "[lparen]" us] True ts r rest by auto
    ultimately show ?thesis using ts by auto
  next
    case False
    with 2(3,4,5) show ?thesis by (cases ts) (fastforce split: if_splits)+
  qed
qed simp

lemma script_loop_libs:
  "set (script_loop ts libs) \<subseteq> set libs \<union> {t \<in> set ts. \<not> starts_with_dash t \<and> t \<noteq> [rparen]}"
proof (induction ts libs rule: script_loop.induct)
  case (2 t ts libs)
  show ?case
  proof (cases "is_input_command t \<and> ts \<noteq> [] \<and> hd ts = [lparen]")
    case True
    then obtain us where ts: "ts = [lparen] # us" by (cases ts) auto
    obtain rest libs' where r: "parse_group us libs = (rest, libs')" by fastforce
    with 2(1) True ts have "set (script_loop rest libs') \<subseteq>
        set libs' \<union> {t \<in> set rest. \<not> starts_with_dash t \<and> t \<noteq> [rparen]}" by auto
    with parse_group_libs [OF r] True ts r show ?thesis by (auto 4 3)
  next
    case False
    with 2(2,3) show ?thesis by (cases ts) (fastforce split: if_splits)+
  qed
qed simp

text \<open>
  Every library name the parser returns, for any file content, is a token of the text:
  not empty, without white space and parentheses unless it is a parenthesis itself.
\<close>

theorem linker_script_names_are_tokens:
  "lib \<in> set (get_linker_script_libs content) \<Longrightarrow>
     \<exists>t \<in> set (tokenize (from_utf8_lossy content)). lib = str_of_bytes (utf8_encode t) \<and>
       \<not> starts_with_dash t \<and> (t = [lparen] \<or> t \<noteq> [] \<and> (\<forall>c \<in> set t. in_token c))"
proof -
  let ?ts = "tokenize (from_utf8_lossy content)"
  assume "lib \<in> set (get_linker_script_libs content)"
  then obtain t where t: "t \<in> set (script_loop ?ts [])" "lib = str_of_bytes (utf8_encode t)"
    by (auto simp: get_linker_script_libs_def)
  with script_loop_libs [of ?ts "[]"] have "t \<in> set ?ts" "\<not> starts_with_dash t" "t \<noteq> [rparen]" by auto
  with t(2) tokenize_shape show ?thesis by blast
qed

theorem linker_script_names_are_tokens_witness:
  "\<exists>t \<in> set (tokenize (from_utf8_lossy (bytes_of_str ''INPUT ( a )''))).
     ''a'' = str_of_bytes (utf8_encode t) \<and> \<not> starts_with_dash t"
proof -
  have "''a'' \<in> set (get_linker_script_libs (bytes_of_str ''INPUT ( a )''))"
  proof -
    have "is_ascii ''INPUT ( a )''" by (simp add: is_ascii_def)
    moreover have "tokenize (code_points ''INPUT ( a )'') =
        [code_points ''INPUT'', [lparen], code_points ''a'', [rparen]]"
      by (simp add: tokenize.simps code_points_def is_whitespace_def in_token_def)
    moreover have "is_input_command (code_points ''INPUT'')"
      by (simp add: is_input_command_def eq_ignore_ascii_case_def)
    moreover have "str_of_bytes (utf8_encode (code_points ''a'')) = ''a''"
      by (simp add: encode_ascii is_ascii_def)
    ultimately show ?thesis
      by (simp add: get_linker_script_libs_def lossy_ascii)
        (simp add: code_points_def starts_with_dash_def)
  qed
  from linker_script_names_are_tokens [OF this] show ?thesis by blast
qed

end
