(* ===== verification/Ld_Cache.thy ===== *)
theory Ld_Cache
  imports Rust_Str Flags "HOL-Library.List_Lexorder"
begin

text \<open>
  \<open>src/utils/ld_cache.rs\<close>: reading \<open>/etc/ld.so.cache\<close> and looking a library up in it by
  binary search. Offsets are natural numbers: the file is shorter than \<open>2 ^ 63\<close> bytes,
  \<open>nlibs\<close> comes from 32 bits and an entry has at most 64 bytes, so no \<open>usize\<close> sum of the
  source wraps (\<open>offset_fits\<close>). A slice that starts behind the end of the file is a panic.
\<close>

section \<open>Bytes\<close>

definition le32 :: "u8 list \<Rightarrow> nat \<Rightarrow> u32" where
  "le32 bs off = ucast (bs ! off) OR push_bit 8 (ucast (bs ! (off + 1))) OR
     push_bit 16 (ucast (bs ! (off + 2))) OR push_bit 24 (ucast (bs ! (off + 3)))"

fun find_window :: "u8 list \<Rightarrow> u8 list \<Rightarrow> nat option" where
  "find_window pat [] = (if pat = [] then Some 0 else None)"
| "find_window pat (b # bs) =
     (if take (length pat) (b # bs) = pat then Some 0 else map_option Suc (find_window pat bs))"

definition starts_with_slash :: "string \<Rightarrow> bool" where
  "starts_with_slash s = (case s of [] \<Rightarrow> False | c # _ \<Rightarrow> c = CHR ''/'')"

definition extract_str :: "u8 list \<Rightarrow> nat \<Rightarrow> string option" where
  "extract_str table offset =
     (if offset \<ge> length table then None
      else from_utf8 (takeWhile (\<lambda>b. b \<noteq> 0) (drop offset table)))"

definition slice_from :: "u8 list \<Rightarrow> nat \<Rightarrow> (error, u8 list) res" where
  "slice_from bs off =
     (if off \<le> length bs then Ok (drop off bs) else Panic ''range start index out of range'')"

section \<open>The cache\<close>

record ld_cache =
  cache_data :: "u8 list"
  cache_header_offset :: nat
  cache_nlibs :: nat
  cache_entry_size :: nat
  cache_string_table_offset :: nat

datatype arch = X86_64 | Aarch64 | Riscv64

definition FLAG_TYPE_MASK :: u32 where "FLAG_TYPE_MASK = 0xff"
definition FLAG_LIBC6 :: u32 where "FLAG_LIBC6 = 3"

fun FLAG_ARCH_CURRENT :: "arch \<Rightarrow> u32" where
  "FLAG_ARCH_CURRENT X86_64 = 0x300"
| "FLAG_ARCH_CURRENT Aarch64 = 0x200"
| "FLAG_ARCH_CURRENT Riscv64 = 0x500"

definition MAGIC_NEW :: "u8 list" where
  "MAGIC_NEW = bytes_of_str ''glibc-ld.so.cache1.1''"

fun detect_entry_size :: "u8 list \<Rightarrow> nat \<Rightarrow> nat list \<Rightarrow> nat" where
  "detect_entry_size header nlibs [] = 24"
| "detect_entry_size header nlibs (e_size # es) =
     (if 48 + 12 > length header then detect_entry_size header nlibs es
      else
        (let val_idx = unat (le32 header (48 + 8));
             string_table_start = 48 + nlibs * e_size
         in if string_table_start + val_idx < length header \<and>
               (case extract_str (drop string_table_start header) val_idx of
                  Some s \<Rightarrow> starts_with_slash s | None \<Rightarrow> False)
            then e_size
            else detect_entry_size header nlibs es))"

definition cache_parse :: "u8 list \<Rightarrow> (error, ld_cache) res" where
  "cache_parse buffer =
     (case find_window MAGIC_NEW buffer of
        None \<Rightarrow> Err (parse_ld_cache_error ''Could not find glibc-ld.so.cache1.1 magic'')
      | Some start_offset \<Rightarrow>
          (let header = drop start_offset buffer in
             if length header < 48
             then Err (parse_ld_cache_error ''Cache file too small for header'')
             else
               (let nlibs = unat (le32 header 20);
                    entry_size = detect_entry_size header nlibs [24, 32, 64]
                in Ok \<lparr>cache_data = buffer, cache_header_offset = start_offset,
                       cache_nlibs = nlibs, cache_entry_size = entry_size,
                       cache_string_table_offset = start_offset + 48 + nlibs * entry_size\<rparr>)))"

definition cache_new :: "(string \<Rightarrow> (error, u8 list) res) \<Rightarrow> (error, ld_cache) res" where
  "cache_new read_file = bind_res (read_file ''/etc/ld.so.cache'') cache_parse"

definition entry_offset :: "ld_cache \<Rightarrow> nat \<Rightarrow> nat" where
  "entry_offset c idx = cache_header_offset c + 48 + idx * cache_entry_size c"

definition get_name :: "ld_cache \<Rightarrow> nat \<Rightarrow> (error, string option) res" where
  "get_name c idx =
     (if entry_offset c idx + 8 > length (cache_data c) then Ok None
      else
        (let key_idx = unat (le32 (cache_data c) (entry_offset c idx + 4)) in
           bind_res (slice_from (cache_data c) (cache_header_offset c)) (\<lambda>header.
             (case extract_str header key_idx of
                Some s \<Rightarrow>
                  if s \<noteq> [] \<and> \<not> starts_with_slash s then Ok (Some s)
                  else bind_res (slice_from (cache_data c) (cache_string_table_offset c))
                         (\<lambda>strings. Ok (extract_str strings key_idx))
              | None \<Rightarrow> bind_res (slice_from (cache_data c) (cache_string_table_offset c))
                         (\<lambda>strings. Ok (extract_str strings key_idx))))))"

definition get_path :: "ld_cache \<Rightarrow> nat \<Rightarrow> (error, string option) res" where
  "get_path c idx =
     (if entry_offset c idx + 12 > length (cache_data c) then Ok None
      else
        (let val_idx = unat (le32 (cache_data c) (entry_offset c idx + 8)) in
           bind_res (slice_from (cache_data c) (cache_header_offset c)) (\<lambda>header.
             (case extract_str header val_idx of
                Some s \<Rightarrow>
                  if starts_with_slash s then Ok (Some s)
                  else bind_res (slice_from (cache_data c) (cache_string_table_offset c))
                         (\<lambda>strings. Ok (extract_str strings val_idx))
              | None \<Rightarrow> bind_res (slice_from (cache_data c) (cache_string_table_offset c))
                         (\<lambda>strings. Ok (extract_str strings val_idx))))))"

definition check_flags :: "arch \<Rightarrow> ld_cache \<Rightarrow> nat \<Rightarrow> bool" where
  "check_flags a c idx =
     (if entry_offset c idx + 4 > length (cache_data c) then False
      else
        (let flags = le32 (cache_data c) (entry_offset c idx) in
           if flags AND FLAG_TYPE_MASK \<noteq> FLAG_LIBC6 then False
           else if FLAG_ARCH_CURRENT a \<noteq> 0 \<and> flags AND FLAG_ARCH_CURRENT a = 0 then False
           else True))"

section \<open>Lookup\<close>

datatype ordering = Less | Equal | Greater

text \<open>\<open>str::cmp\<close>: lexicographic on the bytes.\<close>

fun str_cmp :: "string \<Rightarrow> string \<Rightarrow> ordering" where
  "str_cmp [] [] = Equal"
| "str_cmp [] (y # ys) = Less"
| "str_cmp (x # xs) [] = Greater"
| "str_cmp (x # xs) (y # ys) =
     (if (of_char x :: nat) < of_char y then Less
      else if x = y then str_cmp xs ys else Greater)"

fun scan_back :: "ld_cache \<Rightarrow> string \<Rightarrow> nat \<Rightarrow> (error, nat) res" where
  "scan_back c name 0 = Ok 0"
| "scan_back c name (Suc n) =
     bind_res (get_name c n) (\<lambda>r. if r = Some name then scan_back c name n else Ok (Suc n))"

function scan_forward :: "arch \<Rightarrow> ld_cache \<Rightarrow> string \<Rightarrow> nat \<Rightarrow> (error, string option) res" where
  "scan_forward a c name i =
     (if i < cache_nlibs c then
        bind_res (get_name c i) (\<lambda>r.
          if r = Some name then
            (if check_flags a c i then
               bind_res (get_path c i) (\<lambda>p.
                 case p of Some path \<Rightarrow> Ok (Some path) | None \<Rightarrow> scan_forward a c name (i + 1))
             else scan_forward a c name (i + 1))
          else Ok None)
      else Ok None)"
  by pat_completeness auto
termination
  by (relation "measure (\<lambda>(a, c, name, i). cache_nlibs c - i)") auto

function cache_search ::
  "arch \<Rightarrow> ld_cache \<Rightarrow> bool \<Rightarrow> string \<Rightarrow> nat \<Rightarrow> nat \<Rightarrow> (error, string option) res" where
  "cache_search a c is_descending lib_name left right =
     (if left < right then
        (let mid = left + (right - left) div 2 in
           bind_res (get_name c mid) (\<lambda>r.
             case r of
               None \<Rightarrow> Ok None
             | Some name \<Rightarrow>
                 (case (if is_descending then str_cmp name lib_name else str_cmp lib_name name) of
                    Equal \<Rightarrow> bind_res (scan_back c name mid) (scan_forward a c name)
                  | Less \<Rightarrow> cache_search a c is_descending lib_name left mid
                  | Greater \<Rightarrow> cache_search a c is_descending lib_name (mid + 1) right)))
      else Ok None)"
  by pat_completeness auto
termination
  by (relation "measure (\<lambda>(a, c, d, l, left, right). right - left)") auto

declare scan_forward.simps [simp del] cache_search.simps [simp del]

definition cache_lookup :: "arch \<Rightarrow> ld_cache \<Rightarrow> string \<Rightarrow> (error, string option) res" where
  "cache_lookup a c lib_name =
     (if cache_nlibs c = 0 then Ok None
      else
        bind_res (get_name c 0) (\<lambda>f. case f of None \<Rightarrow> Ok None | Some first_name \<Rightarrow>
        bind_res (get_name c (cache_nlibs c - 1)) (\<lambda>l. case l of None \<Rightarrow> Ok None | Some last_name \<Rightarrow>
          cache_search a c (str_cmp first_name last_name = Greater) lib_name 0 (cache_nlibs c))))"

section \<open>The order of names\<close>

definition byte_key :: "string \<Rightarrow> nat list" where
  "byte_key s = map of_char s"

lemma byte_key_inj [simp]: "byte_key x = byte_key y \<longleftrightarrow> x = y"
proof -
  have "inj (of_char :: char \<Rightarrow> nat)" by (rule injI) simp
  then show ?thesis by (simp add: byte_key_def inj_map_eq_map)
qed

lemma str_cmp_key:
  "str_cmp x y = (if byte_key x < byte_key y then Less else if x = y then Equal else Greater)"
  by (induction x y rule: str_cmp.induct) (auto simp: byte_key_def)

text \<open>The order of the cache: ascending, or descending with the arguments swapped.\<close>

definition dir_cmp :: "bool \<Rightarrow> string \<Rightarrow> string \<Rightarrow> ordering" where
  "dir_cmp d x y = (if d then str_cmp y x else str_cmp x y)"

definition sorted_dir :: "bool \<Rightarrow> string list \<Rightarrow> bool" where
  "sorted_dir d xs \<longleftrightarrow> (\<forall>i j. i < j \<and> j < length xs \<longrightarrow> dir_cmp d (xs ! i) (xs ! j) \<noteq> Greater)"

definition names_of :: "ld_cache \<Rightarrow> string list \<Rightarrow> bool" where
  "names_of c xs \<longleftrightarrow> length xs = cache_nlibs c \<and>
     (\<forall>i < cache_nlibs c. get_name c i = Ok (Some (xs ! i)))"

lemma dir_cmp_Equal: "dir_cmp d x y = Equal \<longleftrightarrow> x = y"
  by (auto simp: dir_cmp_def str_cmp_key)

lemma dir_cmp_between:
  "dir_cmp d x y = Less \<Longrightarrow> dir_cmp d y z \<noteq> Greater \<Longrightarrow> x \<noteq> z"
  "dir_cmp d x y = Greater \<Longrightarrow> dir_cmp d z y \<noteq> Greater \<Longrightarrow> x \<noteq> z"
  by (auto simp: dir_cmp_def str_cmp_key split: if_splits)

lemma sorted_contiguous:
  assumes "sorted_dir d xs" "i < j" "j < k" "k < length xs" "xs ! i = xs ! k"
  shows "xs ! j = xs ! i"
proof -
  have "dir_cmp d (xs ! i) (xs ! j) \<noteq> Greater" "dir_cmp d (xs ! j) (xs ! i) \<noteq> Greater"
    using assms(1-4) unfolding assms(5) sorted_dir_def using assms(5) by (metis order_less_trans)+
  then show ?thesis by (auto simp: dir_cmp_def str_cmp_key split: if_splits)
qed

section \<open>A linear reference\<close>

definition cache_match :: "arch \<Rightarrow> ld_cache \<Rightarrow> string \<Rightarrow> nat \<Rightarrow> string option" where
  "cache_match a c lib i =
     (if get_name c i = Ok (Some lib) \<and> check_flags a c i
      then (case get_path c i of Ok p \<Rightarrow> p | Err e \<Rightarrow> None | Panic s \<Rightarrow> None) else None)"

definition first_path :: "arch \<Rightarrow> ld_cache \<Rightarrow> string \<Rightarrow> nat list \<Rightarrow> string option" where
  "first_path a c lib is = List.find (\<lambda>p. True) (List.map_filter (cache_match a c lib) is)"

lemma first_path_simps [simp]:
  "first_path a c lib [] = None"
  "first_path a c lib (i # is) =
     (case cache_match a c lib i of Some p \<Rightarrow> Some p | None \<Rightarrow> first_path a c lib is)"
  by (simp_all add: first_path_def List.map_filter_simps split: option.splits)

lemma first_path_skip:
  "(\<And>i. i \<in> set is \<Longrightarrow> get_name c i \<noteq> Ok (Some lib)) \<Longrightarrow>
     first_path a c lib (is @ js) = first_path a c lib js"
  by (induction "is") (auto simp: cache_match_def)

lemma scan_back_Ok:
  assumes "names_of c xs" "n \<le> cache_nlibs c"
  shows "\<exists>s \<le> n. scan_back c name n = Ok s \<and> (\<forall>i. s \<le> i \<and> i < n \<longrightarrow> xs ! i = name) \<and>
     (s = 0 \<or> xs ! (s - 1) \<noteq> name)"
  using assms(2)
proof (induction n)
  case (Suc n)
  then have name: "get_name c n = Ok (Some (xs ! n))" using assms(1) by (simp add: names_of_def)
  show ?case
  proof (cases "xs ! n = name")
    case True
    with Suc obtain s where "s \<le> n" "scan_back c name n = Ok s"
      "\<forall>i. s \<le> i \<and> i < n \<longrightarrow> xs ! i = name" "s = 0 \<or> xs ! (s - 1) \<noteq> name" by auto
    with True name show ?thesis by (intro exI [of _ s]) (auto simp: less_Suc_eq)
  qed (use name in auto)
qed simp

lemma scan_forward_Ok:
  assumes names: "names_of c xs" and paths: "\<And>i. i < cache_nlibs c \<Longrightarrow> \<exists>p. get_path c i = Ok p"
    and contig: "\<And>i j. s \<le> i \<Longrightarrow> i < j \<Longrightarrow> j < cache_nlibs c \<Longrightarrow> xs ! j = name \<Longrightarrow> xs ! i = name"
    and "s \<le> i"
  shows "scan_forward a c name i = Ok (first_path a c name [i..<cache_nlibs c])"
  using \<open>s \<le> i\<close>
proof (induction "cache_nlibs c - i" arbitrary: i)
  case 0
  then show ?case by (simp add: scan_forward.simps)
next
  case (Suc n)
  then have i: "i < cache_nlibs c" by simp
  then have name: "get_name c i = Ok (Some (xs ! i))" using names by (simp add: names_of_def)
  have upt: "[i..<cache_nlibs c] = i # [i + 1..<cache_nlibs c]" using i by (simp add: upt_conv_Cons)
  have rec: "scan_forward a c name (i + 1) = Ok (first_path a c name [i + 1..<cache_nlibs c])"
    using Suc by (intro Suc.hyps(1)) auto
  from paths [OF i] obtain p where p: "get_path c i = Ok p" by blast
  show ?case
  proof (cases "xs ! i = name")
    case True
    then show ?thesis
      using i name p rec by (subst scan_forward.simps)
        (auto simp: upt cache_match_def split: option.splits)
  next
    case False
    have "get_name c j \<noteq> Ok (Some name)" if "j \<in> set [i..<cache_nlibs c]" for j
      using that False contig [of i j] Suc.prems names by (auto simp: names_of_def le_less)
    from first_path_skip [of "[i..<cache_nlibs c]" c name a "[]", OF this]
    show ?thesis using i name False by (subst scan_forward.simps) simp
  qed
qed

lemma cache_search_Ok:
  assumes names: "names_of c xs" and sorted: "sorted_dir d xs"
    and paths: "\<And>i. i < cache_nlibs c \<Longrightarrow> \<exists>p. get_path c i = Ok p"
    and "left \<le> right" "right \<le> cache_nlibs c"
    and "\<And>i. i < cache_nlibs c \<Longrightarrow> xs ! i = lib \<Longrightarrow> left \<le> i \<and> i < right"
  shows "cache_search a c d lib left right = Ok (first_path a c lib [0..<cache_nlibs c])"
  using assms(4-6)
proof (induction "right - left" arbitrary: left right rule: less_induct)
  case less
  have len: "length xs = cache_nlibs c" using names by (simp add: names_of_def)
  show ?case
  proof (cases "left < right")
    case False
    have "get_name c i \<noteq> Ok (Some lib)" if "i \<in> set [0..<cache_nlibs c]" for i
      using that False less.prems(1,3) names by (force simp: names_of_def)
    from first_path_skip [of "[0..<cache_nlibs c]" c lib a "[]", OF this] False show ?thesis
      by (simp add: cache_search.simps)
  next
    case True
    define mid where "mid = left + (right - left) div 2"
    have mid: "left \<le> mid" "mid < right" using True by (auto simp: mid_def)
    then have midn: "mid < cache_nlibs c" using less.prems(2) by simp
    then have name: "get_name c mid = Ok (Some (xs ! mid))" using names by (simp add: names_of_def)
    have step: "cache_search a c d lib left right =
        (case dir_cmp d lib (xs ! mid) of
           Equal \<Rightarrow> bind_res (scan_back c (xs ! mid) mid) (scan_forward a c (xs ! mid))
         | Less \<Rightarrow> cache_search a c d lib left mid
         | Greater \<Rightarrow> cache_search a c d lib (mid + 1) right)"
      using True name by (subst cache_search.simps) (simp add: mid_def [symmetric] dir_cmp_def)
    have after: "dir_cmp d (xs ! mid) (xs ! i) \<noteq> Greater" if "mid \<le> i" "i < cache_nlibs c" for i
      using that sorted len by (cases "mid = i") (auto simp: sorted_dir_def dir_cmp_def str_cmp_key)
    have before: "dir_cmp d (xs ! i) (xs ! mid) \<noteq> Greater" if "i \<le> mid" for i
      using that sorted len midn by (cases "mid = i") (auto simp: sorted_dir_def dir_cmp_def str_cmp_key)
    show ?thesis
    proof (cases "dir_cmp d lib (xs ! mid)")
      case Less
      have "left \<le> i \<and> i < mid" if "i < cache_nlibs c" "xs ! i = lib" for i
        using that less.prems(3) [OF that] dir_cmp_between(1) [OF Less after, of i] by force
      with less.hyps [of mid left] mid midn True Less show ?thesis by (simp add: step)
    next
      case Greater
      have "mid + 1 \<le> i \<and> i < right" if "i < cache_nlibs c" "xs ! i = lib" for i
        using that less.prems(3) [OF that] dir_cmp_between(2) [OF Greater before, of i] by force
      with less.hyps [of right "mid + 1"] mid midn True Greater less.prems(2) show ?thesis
        by (simp add: step)
    next
      case Equal
      then have lib: "xs ! mid = lib" by (simp add: dir_cmp_Equal)
      from scan_back_Ok [OF names, of mid lib] midn obtain s where
        s: "s \<le> mid" "scan_back c lib mid = Ok s" "\<forall>i. s \<le> i \<and> i < mid \<longrightarrow> xs ! i = lib"
          "s = 0 \<or> xs ! (s - 1) \<noteq> lib" by auto
      have contig: "xs ! i = lib" if "s \<le> i" "i < j" "j < cache_nlibs c" "xs ! j = lib" for i j
      proof (cases "i \<le> mid")
        case True
        then show ?thesis using s(3) that(1) lib by (cases "i = mid") auto
      next
        case False
        then show ?thesis using sorted_contiguous [OF sorted, of mid i j] that len lib by auto
      qed
      have low: "get_name c i \<noteq> Ok (Some lib)" if "i \<in> set [0..<s]" for i
      proof
        assume "get_name c i = Ok (Some lib)"
        then have i: "xs ! i = lib" "i < s" using that s(1) midn names by (auto simp: names_of_def)
        then have "xs ! (s - 1) \<noteq> lib" "i < s - 1" using s(4) by (auto intro: le_neq_implies_less)
        with sorted_contiguous [OF sorted, of i "s - 1" mid] i s(1) midn len lib show False by auto
      qed
      have "scan_forward a c lib s = Ok (first_path a c lib [s..<cache_nlibs c])"
        using contig by (intro scan_forward_Ok [OF names paths, of s]) auto
      moreover have "[0..<cache_nlibs c] = [0..<s] @ [s..<cache_nlibs c]"
        using s(1) midn using upt_add_eq_append [of 0 s "cache_nlibs c - s"] by simp
      ultimately show ?thesis
        using s(2) lib Equal first_path_skip [of "[0..<s]" c lib, OF low] by (simp add: step)
    qed
  qed
qed

text \<open>A descending cache that \<open>lookup\<close> takes for ascending holds one name only.\<close>

lemma sorted_flip:
  assumes sorted: "sorted_dir d xs" and "xs \<noteq> []"
  shows "sorted_dir (str_cmp (hd xs) (last xs) = Greater) xs"
proof (cases "d = (str_cmp (hd xs) (last xs) = Greater)")
  case True
  with sorted show ?thesis by simp
next
  case False
  let ?n = "length xs - 1"
  have ends: "hd xs = xs ! 0" "last xs = xs ! ?n" using assms(2) by (simp_all add: hd_conv_nth last_conv_nth)
  have "xs ! 0 = xs ! ?n"
  proof (cases "?n = 0")
    case False
    then have "dir_cmp d (xs ! 0) (xs ! ?n) \<noteq> Greater" using sorted assms(2) by (simp add: sorted_dir_def)
    with \<open>d \<noteq> _\<close> ends show ?thesis by (auto simp: dir_cmp_def str_cmp_key split: if_splits)
  qed simp
  then have same: "xs ! i = xs ! 0" if "i < length xs" for i
    using sorted_contiguous [OF sorted, of 0 i ?n] that by (cases "i = 0 \<or> i = ?n") auto
  show ?thesis
    unfolding sorted_dir_def using same by (metis dir_cmp_Equal order_less_trans ordering.distinct(6))
qed

lemma cache_lookup_linear:
  assumes "names_of c xs" "sorted_dir d xs" "\<And>i. i < cache_nlibs c \<Longrightarrow> \<exists>p. get_path c i = Ok p"
  shows "cache_lookup a c lib = Ok (first_path a c lib [0..<cache_nlibs c])"
proof (cases "cache_nlibs c = 0")
  case False
  then have ne: "xs \<noteq> []" and len: "length xs = cache_nlibs c" using assms(1) by (auto simp: names_of_def)
  have "get_name c 0 = Ok (Some (hd xs))" "get_name c (cache_nlibs c - 1) = Ok (Some (last xs))"
    using assms(1) False ne len by (simp_all add: names_of_def hd_conv_nth last_conv_nth)
  then show ?thesis
    using False cache_search_Ok [OF assms(1) sorted_flip [OF assms(2) ne] assms(3), of 0 "cache_nlibs c"]
    by (simp add: cache_lookup_def)
qed (simp add: cache_lookup_def)

section \<open>Panics and bounds\<close>

definition cache_in_bounds :: "ld_cache \<Rightarrow> bool" where
  "cache_in_bounds c \<longleftrightarrow> cache_header_offset c \<le> length (cache_data c) \<and>
     cache_string_table_offset c \<le> length (cache_data c)"

lemma cache_reads_Ok:
  assumes "cache_in_bounds c"
  shows "\<exists>r. get_name c i = Ok r" "\<exists>r. get_path c i = Ok r"
  using assms by (auto simp: cache_in_bounds_def get_name_def get_path_def slice_from_def Let_def
      split: option.splits)

lemma scan_back_total: "cache_in_bounds c \<Longrightarrow> \<exists>s. scan_back c name n = Ok s"
proof (induction n)
  case (Suc n)
  from cache_reads_Ok(1) [OF Suc.prems, of n] Suc show ?case by auto
qed simp

lemma scan_forward_total: "cache_in_bounds c \<Longrightarrow> \<exists>r. scan_forward a c name i = Ok r"
proof (induction a c name i rule: scan_forward.induct)
  case (1 a c name i)
  from cache_reads_Ok [OF 1(3), of i] obtain n p where np: "get_name c i = Ok n" "get_path c i = Ok p" by blast
  show ?case
    using 1 np by (subst scan_forward.simps) (auto split: option.splits)
qed

lemma cache_search_total: "cache_in_bounds c \<Longrightarrow> \<exists>r. cache_search a c d lib left right = Ok r"
proof (induction a c d lib left right rule: cache_search.induct)
  case (1 a c d lib left right)
  let ?mid = "left + (right - left) div 2"
  from cache_reads_Ok(1) [OF 1(3), of ?mid] obtain n where n: "get_name c ?mid = Ok n" by blast
  show ?case
  proof (cases n)
    case (Some name)
    from scan_back_total [OF 1(3)] scan_forward_total [OF 1(3)]
    obtain s r where "scan_back c name ?mid = Ok s" "scan_forward a c name s = Ok r" by metis
    with 1 n Some show ?thesis by (subst cache_search.simps) (auto simp: Let_def split: ordering.splits)
  qed (use n in \<open>simp add: cache_search.simps Let_def\<close>)
qed

lemma cache_lookup_total: "cache_in_bounds c \<Longrightarrow> \<exists>r. cache_lookup a c lib = Ok r"
  using cache_reads_Ok(1) [of c 0] cache_reads_Ok(1) [of c "cache_nlibs c - 1"] cache_search_total [of c]
  by (auto simp: cache_lookup_def split: option.splits)

lemma u32_bound: "unat (w :: u32) < 2 ^ 32"
  using unsigned_less [of w, where 'a = nat] by simp

lemma detect_entry_size_cases: "detect_entry_size header n es \<in> insert 24 (set es)"
  by (induction es) (auto simp: Let_def)

lemma find_window_bound: "find_window pat bs = Some i \<Longrightarrow> i + length pat \<le> length bs \<and> take (length pat) (drop i bs) = pat"
proof (induction bs arbitrary: i)
  case (Cons b bs)
  show ?case
  proof (cases "take (length pat) (b # bs) = pat")
    case True
    then have "length pat \<le> length (b # bs)" by (metis length_take min.cobounded1)
    with True Cons.prems show ?thesis by simp
  next
    case False
    with Cons show ?thesis by auto
  qed
qed (simp split: if_splits)

lemma cache_parse_shape:
  assumes "cache_parse buffer = Ok c"
  shows "cache_data c = buffer" "cache_header_offset c + 48 \<le> length buffer"
    "cache_nlibs c < 2 ^ 32" "cache_entry_size c \<in> {24, 32, 64}"
    "cache_string_table_offset c = entry_offset c (cache_nlibs c)"
    "take 20 (drop (cache_header_offset c) buffer) = MAGIC_NEW"
proof -
  have len: "length MAGIC_NEW = 20" by (simp add: MAGIC_NEW_def bytes_of_str_def)
  from assms obtain off where off: "find_window MAGIC_NEW buffer = Some off" "\<not> length (drop off buffer) < 48"
    "c = \<lparr>cache_data = buffer, cache_header_offset = off, cache_nlibs = unat (le32 (drop off buffer) 20),
      cache_entry_size = detect_entry_size (drop off buffer) (unat (le32 (drop off buffer) 20)) [24, 32, 64],
      cache_string_table_offset = off + 48 + unat (le32 (drop off buffer) 20) *
        detect_entry_size (drop off buffer) (unat (le32 (drop off buffer) 20)) [24, 32, 64]\<rparr>"
    by (auto simp: cache_parse_def Let_def split: option.splits if_splits)
  from detect_entry_size_cases [of "drop off buffer" "unat (le32 (drop off buffer) 20)" "[24, 32, 64]"]
  show "cache_data c = buffer" "cache_header_offset c + 48 \<le> length buffer"
    "cache_nlibs c < 2 ^ 32" "cache_entry_size c \<in> {24, 32, 64}"
    "cache_string_table_offset c = entry_offset c (cache_nlibs c)"
    "take 20 (drop (cache_header_offset c) buffer) = MAGIC_NEW"
    using off find_window_bound [OF off(1)] u32_bound len by (auto simp: entry_offset_def)
qed

section \<open>Properties\<close>

text \<open>A small cache file: the header, the entries, the strings.\<close>

definition ex_entry :: "u8 \<Rightarrow> u8 \<Rightarrow> u8 \<Rightarrow> u8 \<Rightarrow> u8 list" where
  "ex_entry f1 f2 key val = [f1, f2, 0, 0, key, 0, 0, 0, val, 0, 0, 0] @ replicate 12 0"

definition ex_cache :: "u8 list" where
  "ex_cache = MAGIC_NEW @ [3, 0, 0, 0] @ replicate 24 0 @
     ex_entry 3 3 120 126 @ ex_entry 3 0 133 139 @ ex_entry 3 3 133 139 @
     bytes_of_str ''a.so'' @ [0, 0] @ bytes_of_str ''/a.so'' @ [0, 0] @
     bytes_of_str ''b.so'' @ [0, 0] @ bytes_of_str ''/b.so'' @ [0]"

definition ex_parsed :: ld_cache where
  "ex_parsed = \<lparr>cache_data = ex_cache, cache_header_offset = 0, cache_nlibs = 3,
     cache_entry_size = 24, cache_string_table_offset = 120\<rparr>"

lemma ex_names: "names_of ex_parsed [''a.so'', ''b.so'', ''b.so'']"
proof -
  have "get_name ex_parsed 0 = Ok (Some ''a.so'')" "get_name ex_parsed 1 = Ok (Some ''b.so'')"
    "get_name ex_parsed 2 = Ok (Some ''b.so'')" by code_simp+
  moreover have "cache_nlibs ex_parsed = Suc (Suc (Suc 0))" by (simp add: ex_parsed_def)
  ultimately show ?thesis
    by (auto simp: names_of_def less_Suc_eq numeral_2_eq_2)
qed

text \<open>
  C27. On a cache whose names are sorted, ascending or descending, the binary search with its
  backward and forward scans answers exactly as a linear scan of all entries: the path of
  the first entry with the name and compatible flags, and nothing if there is none.
\<close>

theorem cache_lookup_is_linear_scan:
  assumes "names_of c xs" "sorted_dir False xs \<or> sorted_dir True xs" "cache_in_bounds c"
  shows "cache_lookup a c lib = Ok (first_path a c lib [0..<cache_nlibs c])"
  using assms cache_lookup_linear [of c xs] cache_reads_Ok(2) [OF assms(3)] by blast

theorem cache_lookup_is_linear_scan_witness:
  "cache_lookup X86_64 ex_parsed ''b.so'' = Ok (first_path X86_64 ex_parsed ''b.so'' [0..<3]) \<and>
   first_path X86_64 ex_parsed ''b.so'' [0..<3] = Some ''/b.so''"
proof -
  note 1 = ex_names
  have 2: "sorted_dir False [''a.so'', ''b.so'', ''b.so'']"
    by (auto simp: sorted_dir_def dir_cmp_def less_Suc_eq)
  have 3: "cache_in_bounds ex_parsed" by code_simp
  have 4: "first_path X86_64 ex_parsed ''b.so'' [0..<3] = Some ''/b.so''" by code_simp
  have "cache_nlibs ex_parsed = 3" by (simp add: ex_parsed_def)
  with cache_lookup_is_linear_scan [OF 1 disjI1 [OF 2] 3, of X86_64 "''b.so''"] 4 show ?thesis by simp
qed

text \<open>
  C28. A parsed cache has its header inside the file, a known entry size and offsets that fit
  in 64 bits; a lookup in it returns, without panicking, as soon as its string table starts
  inside the file.
\<close>

theorem cache_lookup_safe:
  assumes "cache_parse buffer = Ok c"
  shows "cache_header_offset c + 48 \<le> length buffer \<and> cache_entry_size c \<in> {24, 32, 64} \<and>
    (length buffer < 2 ^ 63 \<and> i \<le> cache_nlibs c \<longrightarrow> entry_offset c i + 12 < 2 ^ 64) \<and>
    (entry_offset c (cache_nlibs c) \<le> length buffer \<longrightarrow> (\<exists>r. cache_lookup a c lib = Ok r))"
proof -
  note shape = cache_parse_shape [OF assms]
  have "entry_offset c i + 12 < 2 ^ 64" if "length buffer < 2 ^ 63" "i \<le> cache_nlibs c"
  proof -
    have "i * cache_entry_size c \<le> 2 ^ 32 * 64" using that(2) shape(3,4) by (intro mult_le_mono) auto
    with that(1) shape(2) show ?thesis by (simp add: entry_offset_def)
  qed
  moreover have "\<exists>r. cache_lookup a c lib = Ok r" if "entry_offset c (cache_nlibs c) \<le> length buffer"
    using that shape by (intro cache_lookup_total) (simp add: cache_in_bounds_def)
  ultimately show ?thesis using shape by blast
qed

theorem cache_lookup_safe_witness:
  "\<exists>c r. cache_parse ex_cache = Ok c \<and> cache_lookup X86_64 c ''b.so'' = Ok r"
proof -
  have p: "cache_parse ex_cache = Ok ex_parsed" by code_simp
  have "entry_offset ex_parsed (cache_nlibs ex_parsed) \<le> length ex_cache" by code_simp
  with cache_lookup_safe [OF p, of 0 X86_64 "''b.so''"] p show ?thesis by blast
qed

definition ex_truncated :: "u8 list" where
  "ex_truncated = MAGIC_NEW @ [1, 0, 0, 0] @ replicate 24 0 @ [3, 3, 0, 0, 255, 0, 0, 0, 255, 0, 0, 0]"

text \<open>
  C29. The bound is not checked: a file of 60 bytes that claims one library parses, and every
  lookup in it panics on the slice of the string table.
\<close>

theorem cache_truncated_panics:
  "\<exists>c. cache_parse ex_truncated = Ok c \<and> (\<forall>a lib. panics (cache_lookup a c lib))"
proof -
  define c where "c = \<lparr>cache_data = ex_truncated, cache_header_offset = 0, cache_nlibs = 1,
     cache_entry_size = 24, cache_string_table_offset = 72\<rparr>"
  have "cache_parse ex_truncated = Ok c" unfolding c_def by code_simp
  moreover have "panics (get_name c 0)" unfolding c_def by code_simp
  then have "panics (cache_lookup a c lib)" for a lib
    by (cases "get_name c 0") (simp_all add: cache_lookup_def, simp add: c_def)
  ultimately show ?thesis by blast
qed

end
