(* ===== verification/Destructors.thy ===== *)
theory Destructors
  imports Registry_Spec "HOL-Library.Multiset"
begin

text \<open>
  The C++ destructors of \<open>src/core_impl/register.rs\<close>: \<open>__cxa_atexit\<close> and
  \<open>__cxa_thread_atexit_impl\<close> append to the list \<open>DESTRUCTORS\<close>, \<open>finalize\<close> takes the
  matching ones out of it, under the lock, and calls them afterwards in reverse order. A call
  is the pair of function and argument; addresses are 64-bit words.
\<close>

record destructor =
  ds_handle :: usize
  ds_func :: usize
  ds_arg :: usize

definition register_atexit ::
  "usize \<Rightarrow> usize \<Rightarrow> usize \<Rightarrow> destructor list \<Rightarrow> 32 word \<times> destructor list" where
  "register_atexit dso_handle func arg ds =
     (0, ds @ [\<lparr>ds_handle = dso_handle, ds_func = func, ds_arg = arg\<rparr>])"

definition cxa_thread_atexit_impl ::
  "usize \<Rightarrow> usize \<Rightarrow> usize \<Rightarrow> destructor list \<Rightarrow> 32 word \<times> destructor list" where
  "cxa_thread_atexit_impl func arg dso_handle ds = register_atexit dso_handle func arg ds"

definition cxa_atexit ::
  "usize \<Rightarrow> usize \<Rightarrow> usize \<Rightarrow> destructor list \<Rightarrow> 32 word \<times> destructor list" where
  "cxa_atexit func arg dso_handle ds = register_atexit dso_handle func arg ds"

text \<open>A half-open range of addresses; \<open>base + mapped_len\<close> is a \<open>usize\<close> sum.\<close>

definition in_range :: "usize \<times> usize \<Rightarrow> usize \<Rightarrow> bool" where
  "in_range r a \<longleftrightarrow> fst r \<le> a \<and> a < snd r"

definition lib_range :: "dylib \<Rightarrow> usize \<times> usize" where
  "lib_range lib = (dl_base lib, dl_base lib + dl_mapped_len lib)"

definition finalize_range ::
  "('c, 'i) link_ops \<Rightarrow> 'c manager \<Rightarrow> usize \<Rightarrow> (usize \<times> usize) option \<Rightarrow> (usize \<times> usize) option" where
  "finalize_range ops m dso_handle rng =
     (if rng = None \<and> dso_handle \<noteq> 0
      then List.find (\<lambda>r. in_range r dso_handle) (map lib_range (all_values ops m))
      else rng)"

definition destructor_matches ::
  "usize \<Rightarrow> (usize \<times> usize) option \<Rightarrow> destructor \<Rightarrow> bool" where
  "destructor_matches dso_handle rng d =
     (if dso_handle = 0 then True
      else (case rng of
              Some r \<Rightarrow> in_range r (ds_handle d)
            | None \<Rightarrow> ds_handle d = dso_handle))"

text \<open>The loop that moves the matching destructors out with \<open>Vec::remove\<close>.\<close>

function collect_loop ::
  "(destructor \<Rightarrow> bool) \<Rightarrow> nat \<Rightarrow> destructor list \<Rightarrow> destructor list \<Rightarrow>
     destructor list \<times> destructor list" where
  "collect_loop P i ds to_run =
     (if i < length ds
      then if P (ds ! i) then collect_loop P i (take i ds @ drop (i + 1) ds) (to_run @ [ds ! i])
           else collect_loop P (i + 1) ds to_run
      else (ds, to_run))"
  by pat_completeness auto
termination
  by (relation "measure (\<lambda>(P, i, ds, to_run). length ds - i)") auto

declare collect_loop.simps [simp del]

text \<open>The destructors that are left, and the calls made, in order.\<close>

definition finalize ::
  "('c, 'i) link_ops \<Rightarrow> 'c manager \<Rightarrow> usize \<Rightarrow> (usize \<times> usize) option \<Rightarrow> destructor list \<Rightarrow>
     destructor list \<times> destructor list" where
  "finalize ops m dso_handle rng ds =
     (case collect_loop (destructor_matches dso_handle (finalize_range ops m dso_handle rng)) 0 ds [] of
        (left, to_run) \<Rightarrow> (left, rev to_run))"

definition cxa_finalize ::
  "('c, 'i) link_ops \<Rightarrow> 'c manager \<Rightarrow> usize \<Rightarrow> destructor list \<Rightarrow>
     destructor list \<times> destructor list" where
  "cxa_finalize ops m dso_handle ds = finalize ops m dso_handle None ds"

text \<open>The end of \<open>Drop for ElfLibrary\<close>: one \<open>finalize\<close> per unloaded library.\<close>

fun finalize_removed ::
  "('c, 'i) link_ops \<Rightarrow> 'c manager \<Rightarrow> dylib list \<Rightarrow> destructor list \<Rightarrow>
     destructor list \<times> destructor list" where
  "finalize_removed ops m [] ds = (ds, [])"
| "finalize_removed ops m (lib # libs) ds =
     (case finalize ops m (dl_base lib) (Some (lib_range lib)) ds of
        (left, run) \<Rightarrow>
          (case finalize_removed ops m libs left of (left', run') \<Rightarrow> (left', run @ run')))"

definition drop_and_finalize ::
  "('c, 'i) link_ops \<Rightarrow> ('c manager \<Rightarrow> dylib list \<Rightarrow> dylib \<Rightarrow> nat) \<Rightarrow> elf_library \<Rightarrow>
     'c manager \<Rightarrow> destructor list \<Rightarrow>
     (error, 'c manager \<times> destructor list \<times> destructor list) res" where
  "drop_and_finalize ops rc lib m ds =
     bind_res (drop_elf_library ops rc lib m) (\<lambda>(m', removed).
       (case finalize_removed ops m' removed ds of (left, run) \<Rightarrow> Ok (m', left, run)))"

text \<open>\<open>dlclose\<close>: a handle is the address of a boxed \<open>ElfLibrary\<close>, here the box itself.\<close>

definition dlclose ::
  "('c, 'i) link_ops \<Rightarrow> ('c manager \<Rightarrow> dylib list \<Rightarrow> dylib \<Rightarrow> nat) \<Rightarrow> elf_library option \<Rightarrow>
     'c manager \<Rightarrow> destructor list \<Rightarrow>
     (error, 32 word \<times> 'c manager \<times> destructor list \<times> destructor list) res" where
  "dlclose ops rc handle m ds =
     (case handle of
        None \<Rightarrow> Ok (0, m, ds, [])
      | Some lib \<Rightarrow> bind_res (drop_and_finalize ops rc lib m ds) (\<lambda>(m', left, run). Ok (0, m', left, run)))"

section \<open>The loop is a partition\<close>

lemma collect_loop_filter:
  "i \<le> length ds \<Longrightarrow> collect_loop P i ds to_run =
     (take i ds @ filter (\<lambda>d. \<not> P d) (drop i ds), to_run @ filter P (drop i ds))"
proof (induction P i ds to_run rule: collect_loop.induct)
  case (1 P i ds to_run)
  show ?case
  proof (cases "i < length ds")
    case True
    then have step: "drop i ds = ds ! i # drop (i + 1) ds" by (simp add: Cons_nth_drop_Suc)
    have rest: "drop i (take i ds @ drop (i + 1) ds) = drop (i + 1) ds"
      "take i (take i ds @ drop (i + 1) ds) = take i ds" using True by simp_all
    have next': "take (i + 1) ds = take i ds @ [ds ! i]" using True by (simp add: take_Suc_conv_app_nth)
    show ?thesis
    proof (cases "P (ds ! i)")
      case True
      with \<open>i < length ds\<close> 1(1) rest step show ?thesis by (subst collect_loop.simps) simp
    next
      case False
      with \<open>i < length ds\<close> 1(2) next' step show ?thesis by (subst collect_loop.simps) simp
    qed
  next
    case False
    with 1(3) show ?thesis by (simp add: collect_loop.simps)
  qed
qed

lemma finalize_eq:
  "finalize ops m h r ds =
     (let P = destructor_matches h (finalize_range ops m h r) in
        (filter (\<lambda>d. \<not> P d) ds, rev (filter P ds)))"
  by (simp add: finalize_def collect_loop_filter Let_def)

lemma mset_filter_split:
  "mset (filter P xs) + mset (filter Q (filter (\<lambda>x. \<not> P x) xs)) = mset (filter (\<lambda>x. P x \<or> Q x) xs)"
  by (induction xs) (auto simp del: mset_filter)

text \<open>Unloading with a range and a base that is not null.\<close>

lemma finalize_removed_spec:
  "(\<And>l. l \<in> set libs \<Longrightarrow> dl_base l \<noteq> 0) \<Longrightarrow>
   fst (finalize_removed ops m libs ds) =
     filter (\<lambda>d. \<not> (\<exists>l \<in> set libs. in_range (lib_range l) (ds_handle d))) ds \<and>
   mset (snd (finalize_removed ops m libs ds)) =
     mset (filter (\<lambda>d. \<exists>l \<in> set libs. in_range (lib_range l) (ds_handle d)) ds)"
proof (induction libs arbitrary: ds)
  case (Cons l libs)
  let ?P = "\<lambda>d. in_range (lib_range l) (ds_handle d)"
    and ?Q = "\<lambda>d. \<exists>l \<in> set libs. in_range (lib_range l) (ds_handle d)"
  have P: "destructor_matches (dl_base l) (finalize_range ops m (dl_base l) (Some (lib_range l))) = ?P"
    using Cons.prems by (simp add: fun_eq_iff destructor_matches_def finalize_range_def)
  obtain left' run' where r: "finalize_removed ops m libs (filter (\<lambda>d. \<not> ?P d) ds) = (left', run')" by fastforce
  have IH: "left' = filter (\<lambda>d. \<not> ?Q d) (filter (\<lambda>d. \<not> ?P d) ds)"
    "mset run' = mset (filter ?Q (filter (\<lambda>d. \<not> ?P d) ds))"
    using Cons.IH [of "filter (\<lambda>d. \<not> ?P d) ds"] Cons.prems r by auto
  have fst: "filter (\<lambda>d. \<not> ?Q d) (filter (\<lambda>d. \<not> ?P d) ds) =
      filter (\<lambda>d. \<not> (\<exists>l \<in> set (l # libs). in_range (lib_range l) (ds_handle d))) ds"
    unfolding filter_filter by (rule filter_cong) auto
  have snd: "(\<lambda>d. \<exists>l \<in> set (l # libs). in_range (lib_range l) (ds_handle d)) = (\<lambda>d. ?P d \<or> ?Q d)" by auto
  have "finalize_removed ops m (l # libs) ds = (left', rev (filter ?P ds) @ run')"
    using r P by (simp add: finalize_eq Let_def)
  then show ?case
    unfolding snd mset_filter_split [of ?P ds ?Q, symmetric] using IH fst by (simp del: mset_filter)
qed simp

section \<open>Histories\<close>

text \<open>Registrations and finalizations in any order; the third component collects the calls.\<close>

datatype 'c exit_event = Register destructor | Finalize "'c manager" usize

fun run_events ::
  "('c, 'i) link_ops \<Rightarrow> 'c exit_event list \<Rightarrow> destructor list \<Rightarrow> destructor list \<times> destructor list" where
  "run_events ops [] ds = (ds, [])"
| "run_events ops (Register d # es) ds =
     run_events ops es (snd (cxa_atexit (ds_func d) (ds_arg d) (ds_handle d) ds))"
| "run_events ops (Finalize m h # es) ds =
     (case cxa_finalize ops m h ds of
        (left, run) \<Rightarrow> (case run_events ops es left of (left', run') \<Rightarrow> (left', run @ run')))"

fun registered_destructors :: "'c exit_event list \<Rightarrow> destructor list" where
  "registered_destructors [] = []"
| "registered_destructors (Register d # es) = d # registered_destructors es"
| "registered_destructors (Finalize m h # es) = registered_destructors es"

lemma run_events_mset:
  "mset (fst (run_events ops es ds)) + mset (snd (run_events ops es ds)) =
     mset ds + mset (registered_destructors es)"
proof (induction es arbitrary: ds)
  case (Cons e es)
  show ?case
  proof (cases e)
    case (Register d)
    with Cons show ?thesis by (simp add: cxa_atexit_def register_atexit_def)
  next
    case (Finalize m h)
    let ?P = "destructor_matches h (finalize_range ops m h None)"
    obtain left' run' where r: "run_events ops es (filter (\<lambda>d. \<not> ?P d) ds) = (left', run')" by fastforce
    have 1: "mset left' + mset run' = mset (filter (\<lambda>d. \<not> ?P d) ds) + mset (registered_destructors es)"
      using Cons [of "filter (\<lambda>d. \<not> ?P d) ds"] r by simp
    have 2: "mset (filter ?P ds) + mset (filter (\<lambda>d. \<not> ?P d) ds) = mset ds"
      using mset_filter_split [of ?P ds "\<lambda>_. True"] by (simp del: mset_filter)
    have "mset left' + (mset (filter ?P ds) + mset run') = mset (filter ?P ds) + (mset left' + mset run')"
      by (rule union_lcomm)
    also have "\<dots> = mset ds + mset (registered_destructors es)"
      unfolding 1 2 [symmetric] by (rule union_assoc [symmetric])
    finally have "mset left' + (mset (filter ?P ds) + mset run') =
        mset ds + mset (registered_destructors es)" .
    with Finalize r show ?thesis
      by (simp add: cxa_finalize_def finalize_eq Let_def union_assoc del: mset_filter)
  qed
qed simp

section \<open>Properties\<close>

text \<open>
  One call of \<open>finalize\<close> splits the list in two: the destructors that do not match stay
  in their order, the matching ones are called in the reverse of the order they were
  registered in, and a null handle matches all of them.
\<close>

theorem finalize_partition:
  "finalize ops m h r ds =
     (filter (\<lambda>d. \<not> destructor_matches h (finalize_range ops m h r) d) ds,
      rev (filter (destructor_matches h (finalize_range ops m h r)) ds)) \<and>
   cxa_finalize ops m 0 ds = ([], rev ds)"
  by (simp add: finalize_eq cxa_finalize_def Let_def destructor_matches_def)

text \<open>
  C30. No destructor is lost and none is called twice: after any sequence of registrations and
  \<open>__cxa_finalize\<close> calls, the calls made and the destructors left are together exactly the
  registered ones.
\<close>

theorem destructors_exactly_once:
  "mset (snd (run_events ops es [])) + mset (fst (run_events ops es [])) =
     mset (registered_destructors es)"
  using run_events_mset [of ops es "[]"] by (simp add: union_commute)

text \<open>
  C31. \<open>dlclose\<close> of a handle calls exactly the destructors registered from the address ranges
  of the libraries it unloads, and leaves the others in place and in order.
\<close>

theorem dlclose_runs_own_destructors:
  assumes "drop_elf_library ops rc lib m = Ok (m', removed)" "\<forall>l \<in> set removed. dl_base l \<noteq> 0"
  shows "\<exists>run. dlclose ops rc (Some lib) m ds =
      Ok (0, m', filter (\<lambda>d. \<not> (\<exists>l \<in> set removed. in_range (lib_range l) (ds_handle d))) ds, run) \<and>
    mset run = mset (filter (\<lambda>d. \<exists>l \<in> set removed. in_range (lib_range l) (ds_handle d)) ds)"
proof -
  obtain left run where r: "finalize_removed ops m' removed ds = (left, run)" by fastforce
  with finalize_removed_spec [of removed ops m' ds] assms show ?thesis
    by (simp add: dlclose_def drop_and_finalize_def del: mset_filter)
qed

theorem dlclose_runs_own_destructors_witness:
  "\<exists>m' left run. dlclose list_ops (\<lambda>m acc d. 3)
       (Some \<lparr>el_inner = ex_libm, el_deps = Some [ex_libm, ex_libc]\<rparr>) ex_m
       [\<lparr>ds_handle = 0x500010, ds_func = 1, ds_arg = 2\<rparr>, \<lparr>ds_handle = 0x600010, ds_func = 3, ds_arg = 4\<rparr>] =
       Ok (0, m', [\<lparr>ds_handle = 0x500010, ds_func = 1, ds_arg = 2\<rparr>], run) \<and>
     mset run = {#\<lparr>ds_handle = 0x600010, ds_func = 3, ds_arg = 4\<rparr>#}"
proof -
  let ?h = "\<lparr>el_inner = ex_libm, el_deps = Some [ex_libm, ex_libc]\<rparr>"
  let ?r = "drop_elf_library list_ops (\<lambda>m acc d. 3) ?h ex_m"
  have "is_Ok ?r" "snd (res_get (ex_m, []) ?r) = [ex_libm]" by code_simp+
  then have r: "?r = Ok (fst (res_get (ex_m, []) ?r), [ex_libm])"
    by (metis is_Ok_res_get prod.collapse)
  have "\<forall>l \<in> set [ex_libm]. dl_base l \<noteq> 0" by (simp add: ex_libm_def ex_dylib_def)
  note c = dlclose_runs_own_destructors [OF r this]
  have "in_range (lib_range ex_libm) 0x600010" "\<not> in_range (lib_range ex_libm) 0x500010" by code_simp+
  then show ?thesis
    using c [of "[\<lparr>ds_handle = 0x500010, ds_func = 1, ds_arg = 2\<rparr>,
        \<lparr>ds_handle = 0x600010, ds_func = 3, ds_arg = 4\<rparr>]"] by auto
qed

end
