(* ===== verification/Symbols.thy ===== *)
theory Symbols
  imports Registry_Spec Rust_Str
begin

text \<open>
  Symbol and address queries: \<open>find_symbol\<close> (\<open>loader.rs\<close>), \<open>global_find\<close>,
  \<open>next_find\<close>, \<open>addr2dso\<close> (\<open>register.rs\<close>) and the C functions \<open>dlsym\<close>, \<open>dladdr\<close>,
  \<open>_dl_find_object\<close> and \<open>dl_iterate_phdr\<close> of \<open>src/api\<close>. The symbol table of a library
  belongs to \<open>elf_loader\<close>: \<open>get_sym\<close> is \<open>LoadedCore::get\<close> and \<open>symtab\<close> lists the
  entries of \<open>SymbolTable\<close>, both parameters. Addresses are 64-bit words and add with wrap.
\<close>

section \<open>Symbols by name\<close>

type_synonym get_sym = "dylib \<Rightarrow> string \<Rightarrow> usize option"

fun find_map :: "('a \<Rightarrow> 'b option) \<Rightarrow> 'a list \<Rightarrow> 'b option" where
  "find_map f [] = None"
| "find_map f (x # xs) = (case f x of Some y \<Rightarrow> Some y | None \<Rightarrow> find_map f xs)"

fun position :: "('a \<Rightarrow> bool) \<Rightarrow> 'a list \<Rightarrow> nat option" where
  "position P [] = None"
| "position P (x # xs) = (if P x then Some 0 else map_option Suc (position P xs))"

definition symbol_missing :: "string \<Rightarrow> error" where
  "symbol_missing name = find_symbol_error (''can not find symbol:'' @ name)"

definition find_symbol :: "get_sym \<Rightarrow> dylib list \<Rightarrow> string \<Rightarrow> (error, usize) res" where
  "find_symbol get_sym libs name =
     (case find_map (\<lambda>lib. get_sym lib name) libs of
        Some symb \<Rightarrow> Ok symb | None \<Rightarrow> Err (symbol_missing name))"

text \<open>\<open>ElfLibrary::get\<close>\<close>

definition elf_library_get :: "get_sym \<Rightarrow> elf_library \<Rightarrow> string \<Rightarrow> (error, usize) res" where
  "elf_library_get get_sym lib name =
     (case el_deps lib of
        None \<Rightarrow> Panic ''called Option::unwrap() on a None value''
      | Some deps \<Rightarrow> find_symbol get_sym deps name)"

definition global_find :: "get_sym \<Rightarrow> 'c manager \<Rightarrow> string \<Rightarrow> usize option" where
  "global_find get_sym m name = find_map (\<lambda>lib. get_sym lib name) (global_values m)"

definition contains_addr :: "usize \<Rightarrow> dylib \<Rightarrow> bool" where
  "contains_addr addr lib \<longleftrightarrow> dl_base lib \<le> addr \<and> addr < dl_base lib + dl_mapped_len lib"

definition next_find ::
  "('c, 'i) link_ops \<Rightarrow> get_sym \<Rightarrow> 'c manager \<Rightarrow> usize \<Rightarrow> string \<Rightarrow> usize option" where
  "next_find ops get_sym m addr name =
     (let libs = all_values ops m in
      case position (contains_addr addr) libs of
        None \<Rightarrow> None
      | Some idx \<Rightarrow> find_map (\<lambda>lib. get_sym lib name) (drop (idx + 1) libs))"

definition addr2dso :: "('c, 'i) link_ops \<Rightarrow> 'c manager \<Rightarrow> usize \<Rightarrow> elf_library option" where
  "addr2dso ops m addr =
     (case List.find (contains_addr addr) (all_values ops m) of
        None \<Rightarrow> None
      | Some entry \<Rightarrow>
          (case library_scope ops m (dylib_shortname entry) of
             None \<Rightarrow> None
           | Some deps \<Rightarrow> Some \<lparr>el_inner = entry, el_deps = Some deps\<rparr>))"

definition dlsym_default :: "get_sym \<Rightarrow> 'c manager \<Rightarrow> string \<Rightarrow> (error, usize) res" where
  "dlsym_default get_sym m name =
     (case global_find get_sym m name of Some s \<Rightarrow> Ok s | None \<Rightarrow> Err (symbol_missing name))"

text \<open>The return address of the caller, which the source reads from the stack, is \<open>caller\<close>.\<close>

definition dlsym_next ::
  "('c, 'i) link_ops \<Rightarrow> get_sym \<Rightarrow> 'c manager \<Rightarrow> usize \<Rightarrow> string \<Rightarrow> (error, usize) res" where
  "dlsym_next ops get_sym m caller name =
     (case next_find ops get_sym m caller name of
        Some s \<Rightarrow> Ok s | None \<Rightarrow> Err (symbol_missing name))"

fun ok_or_null :: "(error, usize) res \<Rightarrow> (error, usize) res" where
  "ok_or_null (Ok s) = Ok s"
| "ok_or_null (Err e) = Ok 0"
| "ok_or_null (Panic s) = Panic s"

text \<open>
  \<open>deref\<close> is the heap of boxed handles. A value that is neither a box nor one of the two
  constants makes the source read arbitrary memory: that call is outside the contract.
\<close>

definition dlsym ::
  "('c, 'i) link_ops \<Rightarrow> get_sym \<Rightarrow> 'c manager \<Rightarrow> usize \<Rightarrow> (usize \<Rightarrow> elf_library) \<Rightarrow> usize \<Rightarrow> u8 list \<Rightarrow>
     (error, usize) res" where
  "dlsym ops get_sym m caller deref handle symbol_name =
     (case from_utf8 symbol_name of
        None \<Rightarrow> Ok 0
      | Some name \<Rightarrow>
          if handle = 0 then ok_or_null (dlsym_default get_sym m name)
          else if handle = - 1 then ok_or_null (dlsym_next ops get_sym m caller name)
          else ok_or_null (elf_library_get get_sym (deref handle) name))"

section \<open>Symbols by address\<close>

record elf_symbol =
  st_value :: usize
  st_size :: usize
  st_ok_bind :: bool
  st_ok_type :: bool
  st_cname :: "string option"

record dl_info =
  di_dylib :: elf_library
  di_sname :: "string option"
  di_saddr :: usize

definition symbol_start :: "usize \<Rightarrow> elf_symbol \<Rightarrow> usize" where
  "symbol_start base symb = base + st_value symb"

definition symbol_covers :: "usize \<Rightarrow> usize \<Rightarrow> elf_symbol \<Rightarrow> bool" where
  "symbol_covers base addr symb \<longleftrightarrow>
     symbol_start base symb \<le> addr \<and>
     (st_size symb = 0 \<or> addr < symbol_start base symb + st_size symb)"

definition symbol_usable :: "elf_symbol \<Rightarrow> bool" where
  "symbol_usable symb \<longleftrightarrow> \<not> (st_value symb = 0 \<or> \<not> st_ok_bind symb \<or> \<not> st_ok_type symb)"

fun best_match_loop ::
  "usize \<Rightarrow> usize \<Rightarrow> elf_symbol list \<Rightarrow> (usize \<times> string) option \<Rightarrow> (usize \<times> string) option" where
  "best_match_loop base addr [] best = best"
| "best_match_loop base addr (symb # syms) best =
     best_match_loop base addr syms
       (if \<not> symbol_usable symb then best
        else if symbol_covers base addr symb then
          (case best of
             Some (best_start, _) \<Rightarrow>
               if symbol_start base symb > best_start
               then (case st_cname symb of
                       Some cname \<Rightarrow> Some (symbol_start base symb, cname) | None \<Rightarrow> best)
               else best
           | None \<Rightarrow>
               (case st_cname symb of
                  Some cname \<Rightarrow> Some (symbol_start base symb, cname) | None \<Rightarrow> best))
        else best)"

definition elf_dladdr ::
  "('c, 'i) link_ops \<Rightarrow> (dylib \<Rightarrow> elf_symbol list) \<Rightarrow> 'c manager \<Rightarrow> usize \<Rightarrow> dl_info option" where
  "elf_dladdr ops symtab m addr =
     map_option (\<lambda>dylib.
       (case best_match_loop (dl_base (el_inner dylib)) addr (symtab (el_inner dylib)) None of
          Some (start, cname) \<Rightarrow> \<lparr>di_dylib = dylib, di_sname = Some cname, di_saddr = start\<rparr>
        | None \<Rightarrow> \<lparr>di_dylib = dylib, di_sname = None, di_saddr = 0\<rparr>))
       (addr2dso ops m addr)"

definition symbol_addr :: "dl_info \<Rightarrow> usize option" where
  "symbol_addr info = (if di_saddr info = 0 then None else Some (di_saddr info))"

text \<open>\<open>CDlinfo\<close>; a C string is an optional string, \<open>None\<close> for the null pointer.\<close>

record c_dlinfo =
  dli_fname :: "string option"
  dli_fbase :: usize
  dli_sname :: "string option"
  dli_saddr :: usize

definition elf_library_cname :: "elf_library \<Rightarrow> string option" where
  "elf_library_cname lib = ed_c_name (dl_user_data (el_inner lib))"

definition dladdr ::
  "('c, 'i) link_ops \<Rightarrow> (dylib \<Rightarrow> elf_symbol list) \<Rightarrow> 'c manager \<Rightarrow> usize \<Rightarrow> c_dlinfo \<Rightarrow> 32 word \<times> c_dlinfo" where
  "dladdr ops symtab m addr info =
     (case elf_dladdr ops symtab m addr of
        Some i \<Rightarrow> (1, \<lparr>dli_fname = elf_library_cname (di_dylib i), dli_fbase = dl_base (el_inner (di_dylib i)),
                      dli_sname = di_sname i,
                      dli_saddr = (case symbol_addr i of Some a \<Rightarrow> a | None \<Rightarrow> 0)\<rparr>)
      | None \<Rightarrow> (0, info))"

section \<open>Objects by address\<close>

record find_object =
  dlfo_flags :: usize
  dlfo_map_start :: usize
  dlfo_map_end :: usize
  dlfo_link_map :: usize
  dlfo_eh_frame :: usize
  dlfo_reserved :: "usize list"

definition PT_GNU_EH_FRAME :: u32 where "PT_GNU_EH_FRAME = 0x6474e550"

definition option_slice :: "'a list option \<Rightarrow> 'a list" where
  "option_slice x = (case x of Some xs \<Rightarrow> xs | None \<Rightarrow> [])"

definition dl_find_object ::
  "('c, 'i) link_ops \<Rightarrow> 'c manager \<Rightarrow> usize \<Rightarrow> find_object \<Rightarrow> 32 word \<times> find_object" where
  "dl_find_object ops m pc dlfo =
     (case addr2dso ops m pc of
        None \<Rightarrow> (- 1, dlfo)
      | Some dso \<Rightarrow>
          (let lib = el_inner dso;
               eh_frame = (case List.find (\<lambda>p. ph_type p = PT_GNU_EH_FRAME) (option_slice (dl_phdrs lib)) of
                             Some p \<Rightarrow> dl_base lib + ph_vaddr p | None \<Rightarrow> 0)
           in (0, \<lparr>dlfo_flags = 0, dlfo_map_start = dl_base lib,
                   dlfo_map_end = dl_base lib + dl_mapped_len lib,
                   dlfo_link_map = (case ed_link_map (dl_user_data lib) of Some p \<Rightarrow> p | None \<Rightarrow> 0),
                   dlfo_eh_frame = eh_frame, dlfo_reserved = replicate 7 0\<rparr>)))"

definition dl_find_dso_for_object :: "('c, 'i) link_ops \<Rightarrow> 'c manager \<Rightarrow> usize \<Rightarrow> usize" where
  "dl_find_dso_for_object ops m addr =
     (case addr2dso ops m addr of
        None \<Rightarrow> 0
      | Some dso \<Rightarrow> (case ed_link_map (dl_user_data (el_inner dso)) of Some p \<Rightarrow> p | None \<Rightarrow> 0))"

section \<open>Iteration over the loaded libraries\<close>

record dl_phdr_info =
  pi_lib_base :: usize
  pi_lib_name :: string
  pi_phdrs :: "elf_phdr list"
  pi_adds :: u64
  pi_subs :: u64
  pi_tls_modid :: usize
  pi_tls_data :: "usize option"

text \<open>
  \<open>TlsModuleId::RESERVED\<close> is zero; \<open>tls_data\<close> is \<open>DefaultTlsResolver::get_tls_data\<close>.
\<close>

definition phdr_info :: "(usize \<Rightarrow> usize option) \<Rightarrow> u64 \<Rightarrow> u64 \<Rightarrow> dylib \<Rightarrow> dl_phdr_info" where
  "phdr_info tls_data a s lib =
     \<lparr>pi_lib_base = dl_base lib,
      pi_lib_name = (case ed_c_name (dl_user_data lib) of Some n \<Rightarrow> n | None \<Rightarrow> []),
      pi_phdrs = option_slice (dl_phdrs lib), pi_adds = a, pi_subs = s,
      pi_tls_modid = (case dl_tls_mod_id lib of Some i \<Rightarrow> i | None \<Rightarrow> 0),
      pi_tls_data = (case dl_tls_mod_id lib of Some i \<Rightarrow> tls_data i | None \<Rightarrow> None)\<rparr>"

text \<open>The callback is a closure with its own state \<open>'s\<close>.\<close>

fun iterate_loop ::
  "(dl_phdr_info \<Rightarrow> 's \<Rightarrow> (error, unit) res \<times> 's) \<Rightarrow> (usize \<Rightarrow> usize option) \<Rightarrow> u64 \<Rightarrow> u64 \<Rightarrow>
     dylib list \<Rightarrow> 's \<Rightarrow> (error, unit) res \<times> 's" where
  "iterate_loop cb tls a s [] st = (Ok (), st)"
| "iterate_loop cb tls a s (lib # libs) st =
     (if option_slice (dl_phdrs lib) = [] then iterate_loop cb tls a s libs st
      else
        (case cb (phdr_info tls a s lib) st of
           (Ok u, st') \<Rightarrow> iterate_loop cb tls a s libs st'
         | (Err e, st') \<Rightarrow> (Err e, st')
         | (Panic msg, st') \<Rightarrow> (Panic msg, st')))"

definition elf_dl_iterate_phdr ::
  "('c, 'i) link_ops \<Rightarrow> 'c manager \<Rightarrow> (usize \<Rightarrow> usize option) \<Rightarrow>
     (dl_phdr_info \<Rightarrow> 's \<Rightarrow> (error, unit) res \<times> 's) \<Rightarrow> 's \<Rightarrow> (error, unit) res \<times> 's" where
  "elf_dl_iterate_phdr ops m tls cb st = iterate_loop cb tls (adds m) (subs m) (all_values ops m) st"

text \<open>\<open>CDlPhdrInfo\<close>: \<open>dlpi_phnum\<close> has 16 bits.\<close>

record c_dl_phdr_info =
  dlpi_addr :: usize
  dlpi_name :: string
  dlpi_phdr :: "elf_phdr list"
  dlpi_phnum :: u16
  dlpi_adds :: u64
  dlpi_subs :: u64
  dlpi_tls_modid :: usize
  dlpi_tls_data :: usize

definition c_phdr_info :: "dl_phdr_info \<Rightarrow> c_dl_phdr_info" where
  "c_phdr_info i =
     \<lparr>dlpi_addr = pi_lib_base i, dlpi_name = pi_lib_name i, dlpi_phdr = pi_phdrs i,
      dlpi_phnum = of_nat (length (pi_phdrs i)), dlpi_adds = pi_adds i, dlpi_subs = pi_subs i,
      dlpi_tls_modid = pi_tls_modid i,
      dlpi_tls_data = (case pi_tls_data i of Some p \<Rightarrow> p | None \<Rightarrow> 0)\<rparr>"

definition c_callback ::
  "(c_dl_phdr_info \<Rightarrow> 's \<Rightarrow> 32 word \<times> 's) \<Rightarrow> dl_phdr_info \<Rightarrow> 's \<Rightarrow> (error, unit) res \<times> 's" where
  "c_callback callback info st =
     (case callback (c_phdr_info info) st of
        (ret, st') \<Rightarrow> (if ret \<noteq> 0 then Err (IteratorPhdrError ret) else Ok (), st'))"

definition dl_iterate_phdr ::
  "('c, 'i) link_ops \<Rightarrow> 'c manager \<Rightarrow> (usize \<Rightarrow> usize option) \<Rightarrow>
     (c_dl_phdr_info \<Rightarrow> 's \<Rightarrow> 32 word \<times> 's) option \<Rightarrow> 's \<Rightarrow> 32 word \<times> 's" where
  "dl_iterate_phdr ops m tls callback st =
     (case callback of
        None \<Rightarrow> (0, st)
      | Some cb \<Rightarrow>
          (case elf_dl_iterate_phdr ops m tls (c_callback cb) st of
             (Err (IteratorPhdrError ret), st') \<Rightarrow> (ret, st')
           | (_, st') \<Rightarrow> (0, st')))"

section \<open>First matches\<close>

lemma find_map_Some_iff:
  "find_map f xs = Some y \<longleftrightarrow> (\<exists>pre x post. xs = pre @ x # post \<and> f x = Some y \<and> (\<forall>z \<in> set pre. f z = None))"
proof (induction xs)
  case (Cons x xs)
  show ?case
  proof (cases "f x")
    case None
    have "find_map f (x # xs) = find_map f xs" using None by simp
    also have "find_map f xs = Some y \<longleftrightarrow>
        (\<exists>pre z post. xs = pre @ z # post \<and> f z = Some y \<and> (\<forall>w \<in> set pre. f w = None))" by (rule Cons)
    also have "\<dots> \<longleftrightarrow> (\<exists>pre z post. x # xs = pre @ z # post \<and> f z = Some y \<and> (\<forall>w \<in> set pre. f w = None))"
      (is "?l \<longleftrightarrow> ?r")
    proof
      assume ?l
      then obtain pre z post where "xs = pre @ z # post" "f z = Some y" "\<forall>w \<in> set pre. f w = None" by blast
      with None show ?r by (intro exI [of _ "x # pre"]) auto
    next
      assume ?r
      then obtain pre z post where "x # xs = pre @ z # post" "f z = Some y" "\<forall>w \<in> set pre. f w = None" by blast
      with None show ?l by (cases pre) auto
    qed
    finally show ?thesis .
  next
    case (Some v)
    have "v = y" if "x # xs = pre @ z # post" "f z = Some y" "\<forall>w \<in> set pre. f w = None" for pre z post
      using that Some by (cases pre) auto
    moreover have "\<exists>pre z post. x # xs = pre @ z # post \<and> f z = Some v \<and> (\<forall>w \<in> set pre. f w = None)"
      using Some by (intro exI [of _ "[]"]) simp
    ultimately show ?thesis using Some by auto
  qed
qed simp

lemma find_map_None_iff: "find_map f xs = None \<longleftrightarrow> (\<forall>x \<in> set xs. f x = None)"
  by (induction xs) (auto split: option.splits)

lemma position_append:
  "\<forall>z \<in> set pre. \<not> P z \<Longrightarrow> P x \<Longrightarrow> position P (pre @ x # post) = Some (length pre)"
  by (induction pre) auto

section \<open>The best symbol\<close>

definition candidate :: "usize \<Rightarrow> usize \<Rightarrow> elf_symbol \<Rightarrow> bool" where
  "candidate base addr s \<longleftrightarrow> symbol_usable s \<and> symbol_covers base addr s \<and> st_cname s \<noteq> None"

definition is_best :: "usize \<Rightarrow> usize \<Rightarrow> elf_symbol set \<Rightarrow> (usize \<times> string) option \<Rightarrow> bool" where
  "is_best base addr S best \<longleftrightarrow>
     (case best of
        None \<Rightarrow> \<not> (\<exists>s \<in> S. candidate base addr s)
      | Some (start, name) \<Rightarrow>
          (\<exists>s \<in> S. candidate base addr s \<and> symbol_start base s = start \<and> st_cname s = Some name) \<and>
          (\<forall>s \<in> S. candidate base addr s \<longrightarrow> symbol_start base s \<le> start))"

lemma best_match_loop_best:
  "is_best base addr S best \<Longrightarrow> is_best base addr (S \<union> set syms) (best_match_loop base addr syms best)"
proof (induction syms arbitrary: S best)
  case (Cons s syms)
  define best' where "best' = (if \<not> symbol_usable s then best
        else if symbol_covers base addr s then
          (case best of
             Some (best_start, _) \<Rightarrow>
               if symbol_start base s > best_start
               then (case st_cname s of
                       Some cname \<Rightarrow> Some (symbol_start base s, cname) | None \<Rightarrow> best)
               else best
           | None \<Rightarrow>
               (case st_cname s of
                  Some cname \<Rightarrow> Some (symbol_start base s, cname) | None \<Rightarrow> best))
        else best)"
  have "is_best base addr (insert s S) best'"
  proof (cases "candidate base addr s")
    case False
    then have "best' = best" by (auto simp: best'_def candidate_def split: option.splits)
    with False Cons.prems show ?thesis by (auto simp: is_best_def split: option.splits)
  next
    case True
    then obtain name where name: "st_cname s = Some name" by (auto simp: candidate_def)
    show ?thesis
    proof (cases best)
      case None
      with True name have "best' = Some (symbol_start base s, name)"
        by (simp add: best'_def candidate_def)
      with True name None Cons.prems show ?thesis by (auto simp: is_best_def)
    next
      case (Some b)
      obtain start n where b: "b = (start, n)" by (cases b)
      from True name Some b have best': "best' = (if symbol_start base s > start
          then Some (symbol_start base s, name) else best)" by (simp add: best'_def candidate_def)
      show ?thesis
      proof (cases "symbol_start base s > start")
        case True
        with best' name \<open>candidate base addr s\<close> Some b Cons.prems show ?thesis
          by (fastforce simp: is_best_def)
      next
        case False
        with best' Some b Cons.prems show ?thesis by (auto simp: is_best_def)
      qed
    qed
  qed
  from Cons.IH [OF this] show ?case by (simp add: best'_def)
qed simp

section \<open>Iteration\<close>

fun c_iterate :: "(c_dl_phdr_info \<Rightarrow> 's \<Rightarrow> 32 word \<times> 's) \<Rightarrow> dl_phdr_info list \<Rightarrow> 's \<Rightarrow> 32 word \<times> 's" where
  "c_iterate cb [] st = (0, st)"
| "c_iterate cb (i # is) st =
     (case cb (c_phdr_info i) st of (r, st') \<Rightarrow> if r \<noteq> 0 then (r, st') else c_iterate cb is st')"

definition listed_libs :: "dylib list \<Rightarrow> dylib list" where
  "listed_libs libs = filter (\<lambda>l. option_slice (dl_phdrs l) \<noteq> []) libs"

lemma iterate_loop_c:
  "(case iterate_loop (c_callback cb) tls a s libs st of
      (Err (IteratorPhdrError ret), st') \<Rightarrow> (ret, st') | (_, st') \<Rightarrow> (0, st')) =
   c_iterate cb (map (phdr_info tls a s) (listed_libs libs)) st"
proof (induction libs arbitrary: st)
  case (Cons l libs)
  show ?case
  proof (cases "option_slice (dl_phdrs l) = []")
    case True
    with Cons show ?thesis by (simp add: listed_libs_def)
  next
    case False
    obtain r st' where "cb (c_phdr_info (phdr_info tls a s l)) st = (r, st')" by fastforce
    with False Cons [of st'] show ?thesis by (simp add: listed_libs_def c_callback_def)
  qed
qed (simp add: listed_libs_def)

section \<open>Properties\<close>

text \<open>
  Symbol lookup over a search list returns the definition of the first library that has
  the symbol; it fails, with the symbol's name in the message, exactly when no library of the
  list has it, and does not panic.
\<close>

theorem find_symbol_first:
  "(find_symbol get_sym libs name = Ok a \<longleftrightarrow>
     (\<exists>pre lib post. libs = pre @ lib # post \<and> get_sym lib name = Some a \<and>
        (\<forall>l \<in> set pre. get_sym l name = None))) \<and>
   (find_symbol get_sym libs name = Err (FindSymbolError (''can not find symbol:'' @ name)) \<longleftrightarrow>
     (\<forall>l \<in> set libs. get_sym l name = None)) \<and>
   \<not> panics (find_symbol get_sym libs name)"
  using find_map_Some_iff [of "\<lambda>lib. get_sym lib name" libs a]
    find_map_None_iff [of "\<lambda>lib. get_sym lib name" libs]
  by (auto simp: find_symbol_def symbol_missing_def find_symbol_error_def split: option.splits)

theorem find_symbol_first_witness:
  "find_symbol (\<lambda>lib name. if dl_base lib = 0x500000 then Some 0x500100 else None)
     [ex_libm, ex_libc] ''puts'' = Ok 0x500100"
  unfolding find_symbol_first [THEN conjunct1]
  by (rule exI [of _ "[ex_libm]"], rule exI [of _ ex_libc], rule exI [of _ "[]"])
    (simp add: ex_libm_def ex_libc_def ex_dylib_def)

text \<open>
  \<open>RTLD_NEXT\<close> searches only the libraries loaded after the one that contains the
  caller's address: the caller's own definition and earlier ones are skipped.
\<close>

theorem next_find_after_caller:
  assumes "all_values ops m = pre @ lib # post" "contains_addr addr lib"
    and "\<forall>l \<in> set pre. \<not> contains_addr addr l"
  shows "next_find ops get_sym m addr name = find_map (\<lambda>l. get_sym l name) post"
  using assms by (simp add: next_find_def position_append)

theorem next_find_after_caller_witness:
  "next_find list_ops (\<lambda>l n. Some (dl_base l)) ex_m 0x500010 ''malloc'' = Some 0x600000"
proof -
  have 1: "all_values list_ops ex_m = [ex_main] @ ex_libc # [ex_libm]" by code_simp
  have 2: "contains_addr 0x500010 ex_libc" by code_simp
  have 3: "\<forall>l \<in> set [ex_main]. \<not> contains_addr 0x500010 l" by code_simp
  have "find_map (\<lambda>l. (\<lambda>l n. Some (dl_base l)) l ''malloc'') [ex_libm] = Some 0x600000" by code_simp
  with next_find_after_caller [OF 1 2 3, of "\<lambda>l n. Some (dl_base l)" "''malloc''"] show ?thesis by simp
qed

text \<open>
  C32. \<open>dladdr\<close> reports, of the named, defined symbols that cover the address, one that
  starts closest below it; it reports none only when none covers the address.
\<close>

theorem dladdr_best_symbol:
  assumes "elf_dladdr ops symtab m addr = Some info"
  shows "addr2dso ops m addr = Some (di_dylib info) \<and>
    is_best (dl_base (el_inner (di_dylib info))) addr (set (symtab (el_inner (di_dylib info))))
      (map_option (\<lambda>name. (di_saddr info, name)) (di_sname info))"
proof -
  from assms obtain h where h: "addr2dso ops m addr = Some h" "di_dylib info = h"
    and i: "map_option (\<lambda>name. (di_saddr info, name)) (di_sname info) =
      best_match_loop (dl_base (el_inner h)) addr (symtab (el_inner h)) None"
    by (auto simp: elf_dladdr_def split: option.splits)
  have "is_best base addr (set syms) (best_match_loop base addr syms None)" for base syms
    using best_match_loop_best [of base addr "{}" None syms] by (simp add: is_best_def)
  with h i show ?thesis by simp
qed

theorem dladdr_best_symbol_witness:
  "\<exists>info. elf_dladdr list_ops (\<lambda>l. [\<lparr>st_value = 0x10, st_size = 0, st_ok_bind = True, st_ok_type = True,
       st_cname = Some ''f''\<rparr>]) ex_m 0x600020 = Some info \<and>
     addr2dso list_ops ex_m 0x600020 = Some (di_dylib info)"
proof -
  have "addr2dso list_ops ex_m 0x600020 \<noteq> None" by code_simp
  then obtain info where i: "elf_dladdr list_ops (\<lambda>l. [\<lparr>st_value = 0x10, st_size = 0, st_ok_bind = True,
      st_ok_type = True, st_cname = Some ''f''\<rparr>]) ex_m 0x600020 = Some info"
    by (auto simp: elf_dladdr_def)
  with dladdr_best_symbol [OF i] show ?thesis by blast
qed

text \<open>
  \<open>dl_iterate_phdr\<close> calls the callback once for every loaded library that has program
  headers, in load order, with the same two counters, stops at the first result that is not
  zero and returns it, and returns zero if there is none.
\<close>

theorem dl_iterate_phdr_calls:
  "dl_iterate_phdr ops m tls (Some cb) st =
     c_iterate cb (map (phdr_info tls (adds m) (subs m)) (listed_libs (all_values ops m))) st"
  unfolding dl_iterate_phdr_def elf_dl_iterate_phdr_def by (simp add: iterate_loop_c)

section \<open>Address to library\<close>

definition keyed_by_shortname :: "('c, 'i) link_ops \<Rightarrow> 'c manager \<Rightarrow> bool" where
  "keyed_by_shortname ops m \<longleftrightarrow>
     (\<forall>k lib meta. lc_view ops (link_ctx m) k = Some (lib, meta) \<longrightarrow> dylib_shortname lib = k)"

text \<open>
  When the libraries are registered under their short names, \<open>addr2dso\<close> answers for
  every address inside a loaded library, with the first such library in load order at the
  head of its search list, and for no other address.
\<close>

theorem addr2dso_total:
  assumes "link_context ops ok" "manager_reachable ops ok m" "keyed_by_shortname ops m"
  shows "(addr2dso ops m addr = None \<longleftrightarrow> (\<forall>l \<in> set (all_values ops m). \<not> contains_addr addr l)) \<and>
    (\<forall>h. addr2dso ops m addr = Some h \<longrightarrow> contains_addr addr (el_inner h) \<and>
       el_inner h \<in> set (all_values ops m) \<and> (\<exists>deps. el_deps h = Some (el_inner h # deps)))"
proof (cases "List.find (contains_addr addr) (all_values ops m)")
  case None
  then have "\<forall>l \<in> set (all_values ops m). \<not> contains_addr addr l" by (auto simp: find_None_iff)
  with None show ?thesis by (simp add: addr2dso_def)
next
  case (Some e)
  note L = assms(1) and inv = link_context.inv_reachable [OF assms(1,2)]
  note ok = link_context.inv_ctx [OF L inv]
  from Some have e: "contains_addr addr e" "e \<in> set (all_values ops m)"
    by (auto simp: find_Some_iff)
  then obtain i where i: "i \<in> set (lc_load_order ops (link_ctx m))" "lc_get ops (link_ctx m) i = Some e"
    by (auto simp: all_values_def List.map_filter_def)
  from link_context.load_order_views [OF L ok i(1)] i(2) obtain k meta where
    view: "lc_view ops (link_ctx m) k = Some (e, meta)" by auto
  with assms(3) have k: "dylib_shortname e = k" by (simp add: keyed_by_shortname_def)
  from link_context.get_lib_view [OF L ok view] obtain deps where
    "get_lib ops m k = Some \<lparr>el_inner = e, el_deps = Some (e # deps)\<rparr>" by blast
  then have "library_scope ops m k = Some (e # deps)"
    by (auto simp: get_lib_def library_scope_def split: option.splits)
  with Some e k show ?thesis by (auto simp: addr2dso_def)
qed

theorem addr2dso_total_witness:
  "\<exists>h deps. addr2dso list_ops ex_m 0x600010 = Some h \<and> el_deps h = Some (el_inner h # deps)"
proof -
  have "map_of (link_ctx ex_m) k = Some (lib, meta, ds) \<Longrightarrow> dylib_shortname lib = k" for k lib meta ds
  proof -
    assume "map_of (link_ctx ex_m) k = Some (lib, meta, ds)"
    then have "(k, lib, meta, ds) \<in> set (link_ctx ex_m)" by (rule map_of_SomeD)
    moreover have "\<forall>x \<in> set (link_ctx ex_m). dylib_shortname (fst (snd x)) = fst x" by code_simp
    ultimately show ?thesis by fastforce
  qed
  then have "keyed_by_shortname list_ops ex_m"
    by (auto simp: keyed_by_shortname_def list_view im_get_def)
  from addr2dso_total [OF list_ctx.link_context_axioms ex_reachable this, of "0x600010"]
  have c: "(addr2dso list_ops ex_m 0x600010 = None \<longleftrightarrow>
      (\<forall>l \<in> set (all_values list_ops ex_m). \<not> contains_addr 0x600010 l)) \<and>
    (\<forall>h. addr2dso list_ops ex_m 0x600010 = Some h \<longrightarrow> contains_addr 0x600010 (el_inner h) \<and>
       el_inner h \<in> set (all_values list_ops ex_m) \<and> (\<exists>deps. el_deps h = Some (el_inner h # deps)))" .
  have "\<not> (\<forall>l \<in> set (all_values list_ops ex_m). \<not> contains_addr 0x600010 l)" by code_simp
  with c show ?thesis by blast
qed

end
