(* ===== verification/Debug_List.thy ===== *)
theory Debug_List
  imports Prelude
begin

text \<open>
  \<open>src/utils/debug.rs\<close> and the structures of \<open>src/abi.rs\<close>: the list of link maps a
  debugger reads through \<open>r_debug\<close>. The link maps live in memory, a map from addresses;
  zero is the null pointer. \<open>DEBUG\<close> points to an \<open>r_debug\<close>, the crate's own
  (\<open>INTERNAL_GDB_DEBUG\<close>, at the address \<open>internal\<close>) or the one of the host, and keeps the
  last link map. A call of the debugger's breakpoint function is recorded with the state the
  debugger sees.
\<close>

section \<open>State\<close>

definition RT_CONSISTENT :: int where "RT_CONSISTENT = 0"
definition RT_ADD :: int where "RT_ADD = 1"
definition RT_DELETE :: int where "RT_DELETE = 2"

record link_map =
  l_addr :: usize
  l_name :: usize
  l_ld :: usize
  l_next :: usize
  l_prev :: usize
  l_real :: usize
  l_ns :: int
  l_libname :: usize
  l_info :: "usize list"
  l_phdr :: usize
  l_entry :: usize
  l_phnum :: u16
  l_ldnum :: u16
  l_reserved_tail :: "usize list"

definition link_map_zero :: link_map where
  "link_map_zero = \<lparr>l_addr = 0, l_name = 0, l_ld = 0, l_next = 0, l_prev = 0, l_real = 0,
     l_ns = 0, l_libname = 0, l_info = replicate 84 0, l_phdr = 0, l_entry = 0, l_phnum = 0,
     l_ldnum = 0, l_reserved_tail = replicate 56 0\<rparr>"

record r_debug =
  rd_version :: int
  rd_map :: usize
  rd_brk :: "usize option"
  rd_state :: int
  rd_ldbase :: usize

definition r_debug_zero :: r_debug where
  "r_debug_zero = \<lparr>rd_version = 0, rd_map = 0, rd_brk = None, rd_state = RT_CONSISTENT, rd_ldbase = 0\<rparr>"

record custom_debug =
  cd_debug :: usize
  cd_tail :: usize
  cd_rdebug :: r_debug
  cd_heap :: "usize \<Rightarrow> link_map"
  cd_calls :: "int list"

text \<open>The initial \<open>DEBUG\<close>, with \<open>dlopen_debug_state\<close> at \<open>brk\<close>.\<close>

definition debug_init :: "usize \<Rightarrow> usize \<Rightarrow> (usize \<Rightarrow> link_map) \<Rightarrow> custom_debug" where
  "debug_init internal brk heap =
     \<lparr>cd_debug = internal, cd_tail = 0,
      cd_rdebug = \<lparr>rd_version = 1, rd_map = 0, rd_brk = Some brk, rd_state = 0, rd_ldbase = 0\<rparr>,
      cd_heap = heap, cd_calls = []\<rparr>"

section \<open>Operations\<close>

definition set_next :: "usize \<Rightarrow> usize \<Rightarrow> (usize \<Rightarrow> link_map) \<Rightarrow> (usize \<Rightarrow> link_map)" where
  "set_next p v h = h(p := (h p)\<lparr>l_next := v\<rparr>)"

definition set_prev :: "usize \<Rightarrow> usize \<Rightarrow> (usize \<Rightarrow> link_map) \<Rightarrow> (usize \<Rightarrow> link_map)" where
  "set_prev p v h = h(p := (h p)\<lparr>l_prev := v\<rparr>)"

definition set_real :: "usize \<Rightarrow> usize \<Rightarrow> (usize \<Rightarrow> link_map) \<Rightarrow> (usize \<Rightarrow> link_map)" where
  "set_real p v h = h(p := (h p)\<lparr>l_real := v\<rparr>)"

definition set_state :: "int \<Rightarrow> custom_debug \<Rightarrow> custom_debug" where
  "set_state v s = s\<lparr>cd_rdebug := (cd_rdebug s)\<lparr>rd_state := v\<rparr>\<rparr>"

definition call_debug_state :: "custom_debug \<Rightarrow> custom_debug" where
  "call_debug_state s =
     (case rd_brk (cd_rdebug s) of
        Some brk \<Rightarrow> s\<lparr>cd_calls := cd_calls s @ [rd_state (cd_rdebug s)]\<rparr>
      | None \<Rightarrow> s)"

definition set_map :: "usize \<Rightarrow> custom_debug \<Rightarrow> custom_debug" where
  "set_map v s = s\<lparr>cd_rdebug := (cd_rdebug s)\<lparr>rd_map := v\<rparr>\<rparr>"

definition add_debug_link_map :: "usize \<Rightarrow> usize \<Rightarrow> custom_debug \<Rightarrow> custom_debug" where
  "add_debug_link_map internal lm s =
     (let tail = cd_tail s in
      if cd_debug s = 0 then s
      else
        (let owns_namespace = (cd_debug s = internal);
             h1 = (if owns_namespace \<and> l_real (cd_heap s lm) = 0 then set_real lm lm (cd_heap s)
                   else if \<not> owns_namespace then set_real lm 0 (cd_heap s)
                   else cd_heap s);
             h2 = set_next lm 0 (set_prev lm tail h1);
             s1 = s\<lparr>cd_heap := h2\<rparr>;
             s2 = (if tail = 0 then set_map lm s1 else s1\<lparr>cd_heap := set_next tail lm (cd_heap s1)\<rparr>);
             s3 = s2\<lparr>cd_tail := lm\<rparr>
         in call_debug_state (set_state RT_CONSISTENT (call_debug_state (set_state RT_ADD s3)))))"

text \<open>\<open>Drop for ExtraData\<close>; \<open>None\<close> when the library has no link map.\<close>

definition unlink :: "usize \<Rightarrow> custom_debug \<Rightarrow> custom_debug" where
  "unlink lm s =
     (let map = rd_map (cd_rdebug s); tail = cd_tail s; h = cd_heap s in
      if map = lm \<and> tail = lm then (set_map 0 s)\<lparr>cd_tail := 0\<rparr>
      else if map = lm then
        (set_map (l_next (h lm)) s)\<lparr>cd_heap := set_prev (l_next (h lm)) 0 h\<rparr>
      else if tail = lm then
        s\<lparr>cd_heap := set_next (l_prev (h lm)) 0 h, cd_tail := l_prev (h lm)\<rparr>
      else
        s\<lparr>cd_heap := set_prev (l_next (h lm)) (l_prev (h lm))
                      (set_next (l_prev (h lm)) (l_next (h lm)) h)\<rparr>)"

definition drop_extra_data :: "usize option \<Rightarrow> custom_debug \<Rightarrow> custom_debug" where
  "drop_extra_data link_map s =
     (case link_map of
        None \<Rightarrow> s
      | Some lm \<Rightarrow>
          if cd_debug s = 0 then s
          else if rd_map (cd_rdebug s) \<noteq> lm \<and> l_prev (cd_heap s lm) = 0 then s
          else call_debug_state (set_state RT_CONSISTENT
                 (unlink lm (call_debug_state (set_state RT_DELETE s)))))"

section \<open>Segments of the list\<close>

text \<open>
  \<open>seg h prev p xs q l\<close>: the link maps \<open>xs\<close> hang together from \<open>p\<close>, whose predecessor is
  \<open>prev\<close>, up to the last one \<open>l\<close>, whose successor is \<open>q\<close>.
\<close>

fun seg :: "(usize \<Rightarrow> link_map) \<Rightarrow> usize \<Rightarrow> usize \<Rightarrow> usize list \<Rightarrow> usize \<Rightarrow> usize \<Rightarrow> bool" where
  "seg h prev p [] q l \<longleftrightarrow> p = q \<and> prev = l"
| "seg h prev p (x # xs) q l \<longleftrightarrow>
     p = x \<and> x \<noteq> 0 \<and> l_prev (h x) = prev \<and> seg h x (l_next (h x)) xs q l"

definition debug_list :: "custom_debug \<Rightarrow> usize list \<Rightarrow> bool" where
  "debug_list s xs \<longleftrightarrow> distinct xs \<and> seg (cd_heap s) 0 (rd_map (cd_rdebug s)) xs 0 (cd_tail s)"

lemma seg_append:
  "seg h prev p (xs @ ys) q l \<longleftrightarrow> (\<exists>r k. seg h prev p xs r k \<and> seg h k r ys q l)"
  by (induction xs arbitrary: prev p) auto

lemma seg_cong:
  "(\<And>x. x \<in> set xs \<Longrightarrow> l_next (h x) = l_next (h' x) \<and> l_prev (h x) = l_prev (h' x)) \<Longrightarrow>
     seg h prev p xs q l = seg h' prev p xs q l"
  by (induction xs arbitrary: prev p) auto

lemma seg_snoc:
  "seg h prev p (xs @ [x]) q l \<longleftrightarrow>
     (\<exists>k. seg h prev p xs x k \<and> x \<noteq> 0 \<and> l_prev (h x) = k \<and> l_next (h x) = q \<and> l = x)"
  by (auto simp: seg_append)

lemma heap_simps [simp]:
  "l_next (set_next p v h x) = (if x = p then v else l_next (h x))"
  "l_prev (set_next p v h x) = l_prev (h x)"
  "l_next (set_prev p v h x) = l_next (h x)"
  "l_prev (set_prev p v h x) = (if x = p then v else l_prev (h x))"
  "l_next (set_real p v h x) = l_next (h x)"
  "l_prev (set_real p v h x) = l_prev (h x)"
  by (simp_all add: set_next_def set_prev_def set_real_def)

lemma state_simps [simp]:
  "cd_heap (set_state v s) = cd_heap s" "cd_tail (set_state v s) = cd_tail s"
  "rd_map (cd_rdebug (set_state v s)) = rd_map (cd_rdebug s)"
  "rd_brk (cd_rdebug (set_state v s)) = rd_brk (cd_rdebug s)"
  "cd_debug (set_state v s) = cd_debug s" "cd_calls (set_state v s) = cd_calls s"
  "rd_state (cd_rdebug (set_state v s)) = v"
  "cd_heap (call_debug_state s) = cd_heap s" "cd_tail (call_debug_state s) = cd_tail s"
  "cd_rdebug (call_debug_state s) = cd_rdebug s" "cd_debug (call_debug_state s) = cd_debug s"
  "cd_heap (set_map w s) = cd_heap s" "cd_tail (set_map w s) = cd_tail s"
  "rd_map (cd_rdebug (set_map w s)) = w" "rd_brk (cd_rdebug (set_map w s)) = rd_brk (cd_rdebug s)"
  "cd_debug (set_map w s) = cd_debug s" "cd_calls (set_map w s) = cd_calls s"
  by (simp_all add: set_state_def set_map_def call_debug_state_def split: option.splits)

lemma debug_list_frame [simp]:
  "debug_list (set_state v s) = debug_list s" "debug_list (call_debug_state s) = debug_list s"
  by (simp_all add: debug_list_def fun_eq_iff)

lemma head_iff:
  assumes "debug_list s (ys @ x # zs)"
  shows "rd_map (cd_rdebug s) = x \<longleftrightarrow> ys = []"
  using assms by (cases ys) (auto simp: debug_list_def)

lemma tail_iff:
  assumes "debug_list s (ys @ x # zs)"
  shows "cd_tail s = x \<longleftrightarrow> zs = []"
proof (cases zs rule: rev_cases)
  case Nil
  with assms show ?thesis by (auto simp: debug_list_def seg_append)
next
  case (snoc ws w)
  with assms have "cd_tail s = w" "w \<noteq> x"
    by (auto simp: debug_list_def seg_snoc append_Cons [symmetric] append_assoc [symmetric]
        simp del: append_Cons append_assoc)
  with snoc show ?thesis by simp
qed

section \<open>Linking and unlinking\<close>

lemma link_last:
  assumes list: "debug_list s xs" and lm: "lm \<notin> set xs" "lm \<noteq> 0"
    and heap: "\<And>x. x \<noteq> lm \<Longrightarrow> l_next (h x) = l_next (cd_heap s x) \<and> l_prev (h x) = l_prev (cd_heap s x)"
      "l_prev (h lm) = cd_tail s" "l_next (h lm) = 0"
  shows "seg (if cd_tail s = 0 then h else set_next (cd_tail s) lm h) 0
     (if cd_tail s = 0 then lm else rd_map (cd_rdebug s)) (xs @ [lm]) 0 lm"
proof (cases xs rule: rev_cases)
  case Nil
  with list lm heap show ?thesis by (simp add: debug_list_def)
next
  case (snoc ys t)
  with list have t: "cd_tail s = t" "t \<noteq> 0" "l_prev (cd_heap s t) = k" "distinct (ys @ [t])"
    "seg (cd_heap s) 0 (rd_map (cd_rdebug s)) ys t k" if "k = l_prev (cd_heap s t)" for k
    using that by (auto simp: debug_list_def seg_snoc)
  let ?h = "set_next t lm h" and ?k = "l_prev (cd_heap s t)"
  note t = t [OF refl]
  have "seg ?h 0 (rd_map (cd_rdebug s)) ys t ?k = seg (cd_heap s) 0 (rd_map (cd_rdebug s)) ys t ?k"
  proof (rule seg_cong)
    fix x assume "x \<in> set ys"
    with t(4) snoc lm(1) have "x \<noteq> t" "x \<noteq> lm" by auto
    with heap(1) [of x] show "l_next (?h x) = l_next (cd_heap s x) \<and> l_prev (?h x) = l_prev (cd_heap s x)"
      by simp
  qed
  moreover have "t \<noteq> lm" using snoc lm(1) by auto
  ultimately have "seg ?h 0 (rd_map (cd_rdebug s)) ((ys @ [t]) @ [lm]) 0 lm"
    unfolding seg_snoc using t lm(2) heap by auto
  with snoc t show ?thesis by simp
qed

lemma unlink_list:
  assumes list: "debug_list s (ys @ lm # zs)"
  shows "debug_list (unlink lm s) (ys @ zs)"
proof -
  let ?h = "cd_heap s" and ?m = "rd_map (cd_rdebug s)"
  from list have dist: "distinct (ys @ lm # zs)" and sg: "seg ?h 0 ?m (ys @ lm # zs) 0 (cd_tail s)"
    by (auto simp: debug_list_def)
  from sg obtain k where pre: "seg ?h 0 ?m ys lm k" and lm: "lm \<noteq> 0" "l_prev (?h lm) = k"
    and post: "seg ?h lm (l_next (?h lm)) zs 0 (cd_tail s)" by (auto simp: seg_append)
  note head = head_iff [OF list] and tl = tail_iff [OF list]
  have d: "distinct (ys @ zs)" using dist by simp
  show ?thesis
  proof (cases ys rule: rev_cases)
    case Nil
    with pre have k: "?m = lm" "k = 0" by auto
    show ?thesis
    proof (cases zs)
      case Nil
      with \<open>ys = []\<close> head tl show ?thesis by (simp add: unlink_def debug_list_def)
    next
      case (Cons z zs')
      with post have z: "l_next (?h lm) = z" "z \<noteq> 0" "seg ?h z (l_next (?h z)) zs' 0 (cd_tail s)" by auto
      have "seg (set_prev z 0 ?h) z (l_next (?h z)) zs' 0 (cd_tail s)"
        using z(3) dist Cons by (subst seg_cong [where h' = ?h]) auto
      with \<open>ys = []\<close> Cons z d head tl k show ?thesis
        by (simp add: unlink_def debug_list_def Let_def)
    qed
  next
    case (snoc ws w)
    with pre have w: "k = w" "w \<noteq> 0" "l_next (?h w) = lm" "seg ?h 0 ?m ws w (l_prev (?h w))"
      by (auto simp: seg_snoc)
    have nm: "?m \<noteq> lm" using head snoc by simp
    show ?thesis
    proof (cases zs)
      case Nil
      have "seg (set_next w 0 ?h) 0 ?m ws w (l_prev (?h w))"
        using w(4) dist snoc by (subst seg_cong [where h' = ?h]) auto
      with w have "seg (set_next w 0 ?h) 0 ?m (ws @ [w]) 0 w" unfolding seg_snoc by simp
      with Nil snoc d nm tl lm w show ?thesis by (simp add: unlink_def debug_list_def Let_def)
    next
      case (Cons z zs')
      with post have z: "l_next (?h lm) = z" "z \<noteq> 0" "seg ?h z (l_next (?h z)) zs' 0 (cd_tail s)" by auto
      let ?h' = "set_prev z w (set_next w z ?h)"
      have "seg ?h' 0 ?m ws w (l_prev (?h w))"
        using w(4) dist snoc Cons by (subst seg_cong [where h' = ?h]) auto
      moreover have "z \<noteq> w" using dist snoc Cons by auto
      ultimately have front: "seg ?h' 0 ?m (ws @ [w]) z w" unfolding seg_snoc using w by simp
      have "seg ?h' z (l_next (?h z)) zs' 0 (cd_tail s)"
        using z(3) dist snoc Cons by (subst seg_cong [where h' = ?h]) auto
      with z \<open>z \<noteq> w\<close> have "seg ?h' w z (z # zs') 0 (cd_tail s)" by simp
      with front have "seg ?h' 0 ?m ((ws @ [w]) @ z # zs') 0 (cd_tail s)" unfolding seg_append by blast
      with Cons snoc d nm tl lm w z show ?thesis by (simp add: unlink_def debug_list_def Let_def)
    qed
  qed
qed

section \<open>Histories\<close>

datatype debug_op = Add_Map usize | Drop_Map usize

fun debug_step :: "usize \<Rightarrow> debug_op \<Rightarrow> custom_debug \<Rightarrow> custom_debug" where
  "debug_step internal (Add_Map lm) s = add_debug_link_map internal lm s"
| "debug_step internal (Drop_Map lm) s = drop_extra_data (Some lm) s"

fun list_step :: "debug_op \<Rightarrow> usize list \<Rightarrow> usize list" where
  "list_step (Add_Map lm) xs = xs @ [lm]"
| "list_step (Drop_Map lm) xs = remove1 lm xs"

text \<open>A fresh box is added, a box that is in the list is dropped.\<close>

fun op_allowed :: "debug_op \<Rightarrow> usize list \<Rightarrow> bool" where
  "op_allowed (Add_Map lm) xs \<longleftrightarrow> lm \<noteq> 0 \<and> lm \<notin> set xs"
| "op_allowed (Drop_Map lm) xs \<longleftrightarrow> lm \<in> set xs"

fun ops_allowed :: "debug_op list \<Rightarrow> usize list \<Rightarrow> bool" where
  "ops_allowed [] xs \<longleftrightarrow> True"
| "ops_allowed (e # es) xs \<longleftrightarrow> op_allowed e xs \<and> ops_allowed es (list_step e xs)"

lemma cd_debug_step [simp]: "cd_debug (debug_step internal e s) = cd_debug s"
  by (cases e) (simp_all add: add_debug_link_map_def drop_extra_data_def unlink_def Let_def)

lemma add_refines:
  assumes "debug_list s xs" "cd_debug s \<noteq> 0" "lm \<noteq> 0" "lm \<notin> set xs"
  shows "debug_list (add_debug_link_map internal lm s) (xs @ [lm])"
proof -
  define h where "h = set_next lm 0 (set_prev lm (cd_tail s)
    (if cd_debug s = internal \<and> l_real (cd_heap s lm) = 0 then set_real lm lm (cd_heap s)
     else if \<not> cd_debug s = internal then set_real lm 0 (cd_heap s) else cd_heap s))"
  from link_last [OF assms(1,4,3), of h] have "seg (if cd_tail s = 0 then h else set_next (cd_tail s) lm h) 0
     (if cd_tail s = 0 then lm else rd_map (cd_rdebug s)) (xs @ [lm]) 0 lm"
    by (simp add: h_def)
  moreover have "distinct (xs @ [lm])" using assms by (simp add: debug_list_def)
  ultimately show ?thesis
    using assms(2) unfolding add_debug_link_map_def Let_def h_def [symmetric]
    by (auto simp: debug_list_def split: if_splits)
qed

lemma drop_refines:
  assumes "debug_list s xs" "cd_debug s \<noteq> 0" "lm \<in> set xs"
  shows "debug_list (drop_extra_data (Some lm) s) (remove1 lm xs)"
proof -
  from assms(3) obtain ys zs where xs: "xs = ys @ lm # zs" "lm \<notin> set ys" by (meson split_list_first)
  have "\<not> (rd_map (cd_rdebug s) \<noteq> lm \<and> l_prev (cd_heap s lm) = 0)"
    using assms(1) xs(1) by (cases ys rule: rev_cases) (auto simp: debug_list_def seg_append)
  moreover have "debug_list (call_debug_state (set_state RT_DELETE s)) (ys @ lm # zs)"
    using assms(1) xs(1) by simp
  from unlink_list [OF this] have "debug_list (unlink lm (call_debug_state (set_state RT_DELETE s))) (remove1 lm xs)"
    using xs by (simp add: remove1_append)
  ultimately show ?thesis using assms(2) by (auto simp: drop_extra_data_def)
qed

lemma debug_step_refines:
  "debug_list s xs \<Longrightarrow> cd_debug s \<noteq> 0 \<Longrightarrow> op_allowed e xs \<Longrightarrow>
     debug_list (debug_step internal e s) (list_step e xs)"
  by (cases e) (simp_all add: add_refines drop_refines)

section \<open>Properties\<close>

text \<open>
  C33. The pointer manipulations implement a list: starting from a well-formed chain, any
  sequence of additions of fresh link maps and removals of present ones leaves a well-formed
  doubly linked chain, from \<open>r_debug.map\<close> to the recorded tail, that holds exactly the link
  maps added and not removed, in the order they were added.
\<close>

theorem debug_list_refines:
  assumes "debug_list s xs" "cd_debug s \<noteq> 0" "ops_allowed es xs"
  shows "debug_list (fold (debug_step internal) es s) (fold list_step es xs)"
  using assms
proof (induction es arbitrary: s xs)
  case (Cons e es)
  have "debug_list (debug_step internal e s) (list_step e xs)"
    using Cons.prems by (intro debug_step_refines) auto
  with Cons show ?case by simp
qed simp

theorem debug_list_refines_witness:
  "debug_list (fold (debug_step 8) [Add_Map 16, Add_Map 32, Add_Map 48, Drop_Map 32, Drop_Map 16]
     (debug_init 8 4 (\<lambda>_. link_map_zero))) [48]"
proof -
  have 1: "debug_list (debug_init 8 4 (\<lambda>_. link_map_zero)) []" by (simp add: debug_list_def debug_init_def)
  have 2: "cd_debug (debug_init 8 4 (\<lambda>_. link_map_zero)) \<noteq> 0" by (simp add: debug_init_def)
  have 3: "ops_allowed [Add_Map 16, Add_Map 32, Add_Map 48, Drop_Map 32, Drop_Map 16] []" by simp
  from debug_list_refines [OF 1 2 3, of 8] show ?thesis by simp
qed

text \<open>
  The debugger is told in the order its protocol asks for: an addition calls the
  breakpoint function with \<open>RT_ADD\<close> and then \<open>RT_CONSISTENT\<close>, the removal of a listed
  link map with \<open>RT_DELETE\<close> and then \<open>RT_CONSISTENT\<close>, and the state is consistent after
  each operation.
\<close>

theorem debug_notifications:
  assumes "debug_list s xs" "cd_debug s \<noteq> 0" "op_allowed e xs" "rd_brk (cd_rdebug s) = Some b"
  shows "cd_calls (debug_step internal e s) = cd_calls s @
      [case e of Add_Map _ \<Rightarrow> RT_ADD | Drop_Map _ \<Rightarrow> RT_DELETE, RT_CONSISTENT] \<and>
    rd_state (cd_rdebug (debug_step internal e s)) = RT_CONSISTENT"
proof (cases e)
  case (Add_Map lm)
  with assms show ?thesis
    by (simp add: add_debug_link_map_def Let_def call_debug_state_def)
next
  case (Drop_Map lm)
  with assms obtain ys zs where xs: "xs = ys @ lm # zs" by (auto dest: split_list)
  have "\<not> (rd_map (cd_rdebug s) \<noteq> lm \<and> l_prev (cd_heap s lm) = 0)"
    using assms(1) xs by (cases ys rule: rev_cases) (auto simp: debug_list_def seg_append)
  moreover have "rd_brk (cd_rdebug (unlink lm t)) = rd_brk (cd_rdebug t)"
    "cd_calls (unlink lm t) = cd_calls t" for t
    by (simp_all add: unlink_def Let_def)
  ultimately show ?thesis
    using assms(2,4) Drop_Map by (auto simp: drop_extra_data_def call_debug_state_def)
qed

theorem debug_notifications_witness:
  "cd_calls (debug_step 8 (Add_Map 16) (debug_init 8 4 (\<lambda>_. link_map_zero))) = [RT_ADD, RT_CONSISTENT]"
proof -
  have 1: "debug_list (debug_init 8 4 (\<lambda>_. link_map_zero)) []" by (simp add: debug_list_def debug_init_def)
  have 2: "cd_debug (debug_init 8 4 (\<lambda>_. link_map_zero)) \<noteq> 0" by (simp add: debug_init_def)
  have 3: "op_allowed (Add_Map 16) []" by simp
  have 4: "rd_brk (cd_rdebug (debug_init 8 4 (\<lambda>_. link_map_zero))) = Some 4" by (simp add: debug_init_def)
  from debug_notifications [OF 1 2 3 4, of 8] show ?thesis by (simp add: debug_init_def)
qed

end
