(* ===== verification/Loader.thy ===== *)
theory Loader
  imports Debug_List Link_Context
begin

text \<open>
  \<open>src/core_impl/loader.rs\<close>: what the crate adds to a library \<open>elf_loader\<close> has just mapped
  (\<open>finalize_raw_dylib\<close>, called by the dynamic initializer of \<open>new_loader\<close>), the calls of
  the initialisation functions, and the accessors of a handle. The mapped file is the record
  \<open>raw_dylib\<close>; the addresses the allocator returns are arguments.
\<close>

section \<open>A mapped library\<close>

record raw_dylib =
  rw_name :: string
  rw_base :: usize
  rw_phdrs :: "elf_phdr list"
  rw_entry :: usize
  rw_needed_libs :: "string list"
  rw_user_data :: extra_data

definition PT_DYNAMIC :: u32 where "PT_DYNAMIC = 2"

definition dynamic_ptr :: "raw_dylib \<Rightarrow> usize" where
  "dynamic_ptr d =
     (case List.find (\<lambda>p. ph_type p = PT_DYNAMIC) (rw_phdrs d) of
        Some p \<Rightarrow> rw_base d + ph_vaddr p | None \<Rightarrow> 0)"

definition phnum_of :: "elf_phdr list \<Rightarrow> u16" where
  "phnum_of phdrs = of_nat (min (length phdrs) 65535)"

text \<open>
  \<open>name_ptr\<close>, \<open>map_ptr\<close> and \<open>phdrs_ptr\<close> are the addresses of the C string, of the boxed
  link map and of the program headers; \<open>get_inode\<close> is \<open>crate::os::get_file_inode\<close>.
\<close>

definition new_link_map :: "usize \<Rightarrow> usize \<Rightarrow> usize \<Rightarrow> raw_dylib \<Rightarrow> link_map" where
  "new_link_map name_ptr map_ptr phdrs_ptr d =
     link_map_zero\<lparr>l_addr := rw_base d, l_name := name_ptr, l_ld := dynamic_ptr d,
       l_phdr := (if rw_phdrs d = [] then 0 else phdrs_ptr), l_entry := rw_entry d,
       l_phnum := phnum_of (rw_phdrs d), l_real := map_ptr\<rparr>"

definition finalize_raw_dylib ::
  "usize \<Rightarrow> (string \<Rightarrow> (error, file_identity) res) \<Rightarrow> usize \<Rightarrow> usize \<Rightarrow> usize \<Rightarrow>
     raw_dylib \<Rightarrow> string option \<Rightarrow> custom_debug \<Rightarrow> (error, raw_dylib \<times> custom_debug) res" where
  "finalize_raw_dylib internal get_inode name_ptr map_ptr phdrs_ptr d file_path s =
     (if CHR 0x00 \<in> set (rw_name d) then Panic ''called Result::unwrap() on an Err value: NulError''
      else
        (let s1 = s\<lparr>cd_heap := (cd_heap s)(map_ptr := new_link_map name_ptr map_ptr phdrs_ptr d)\<rparr>;
             s2 = add_debug_link_map internal map_ptr s1;
             ud = (rw_user_data d)\<lparr>ed_needed_libs := rw_needed_libs d, ed_link_map := Some map_ptr,
                                    ed_c_name := Some (rw_name d)\<rparr>;
             ud' = (case file_path of
                      None \<Rightarrow> ud
                    | Some path \<Rightarrow>
                        (case get_inode path of
                           Ok i \<Rightarrow> ud\<lparr>ed_file_identity := Some i\<rparr>
                         | Err e \<Rightarrow> ud
                         | Panic m \<Rightarrow> ud))
         in Ok (d\<lparr>rw_user_data := ud'\<rparr>, s2)))"

text \<open>The dynamic initializer of \<open>new_loader\<close> passes the name as a path if it has a slash.\<close>

definition dynamic_initializer ::
  "usize \<Rightarrow> (string \<Rightarrow> (error, file_identity) res) \<Rightarrow> usize \<Rightarrow> usize \<Rightarrow> usize \<Rightarrow>
     raw_dylib \<Rightarrow> custom_debug \<Rightarrow> (error, raw_dylib \<times> custom_debug) res" where
  "dynamic_initializer internal get_inode name_ptr map_ptr phdrs_ptr d s =
     finalize_raw_dylib internal get_inode name_ptr map_ptr phdrs_ptr d
       (if CHR ''/'' \<in> set (rw_name d) then Some (rw_name d) else None) s"

text \<open>The \<open>with_init\<close> closure: \<open>DT_INIT\<close> first, then \<open>DT_INIT_ARRAY\<close> in order.\<close>

definition run_init ::
  "usize \<times> usize \<times> usize \<Rightarrow> usize option \<Rightarrow> usize list option \<Rightarrow> (usize \<times> usize \<times> usize \<times> usize) list" where
  "run_init args func func_array =
     (case func of Some f \<Rightarrow> [(f, args)] | None \<Rightarrow> []) @
     (case func_array of Some fs \<Rightarrow> map (\<lambda>f. (f, args)) fs | None \<Rightarrow> [])"

section \<open>Properties\<close>

lemma debug_list_fresh_heap:
  "lm \<notin> set xs \<Longrightarrow> debug_list (s\<lparr>cd_heap := (cd_heap s)(lm := v)\<rparr>) xs = debug_list s xs"
  unfolding debug_list_def by (simp, metis (no_types, lifting) fun_upd_other seg_cong)

lemma add_keeps_payload:
  "l_addr (cd_heap (add_debug_link_map i lm s) x) = l_addr (cd_heap s x)"
  "l_name (cd_heap (add_debug_link_map i lm s) x) = l_name (cd_heap s x)"
  "l_ld (cd_heap (add_debug_link_map i lm s) x) = l_ld (cd_heap s x)"
  "l_phnum (cd_heap (add_debug_link_map i lm s) x) = l_phnum (cd_heap s x)"
  by (simp_all add: add_debug_link_map_def Let_def set_next_def set_prev_def set_real_def)

text \<open>
  Finalising a mapped library whose name has no NUL byte succeeds: its link map, with the
  base, the C name and the dynamic section of the library, is appended to the debugger's
  list, and its user data point to it, record the needed libraries and, when the name is a
  path whose inode can be read, the file identity; the header count saturates at 16 bits. A
  name with a NUL byte panics.
\<close>

theorem finalize_raw_dylib_links:
  assumes "debug_list s xs" "cd_debug s \<noteq> 0" "map_ptr \<noteq> 0" "map_ptr \<notin> set xs"
  shows "if CHR 0x00 \<in> set (rw_name d)
    then panics (dynamic_initializer internal get_inode name_ptr map_ptr phdrs_ptr d s)
    else \<exists>d' s'. dynamic_initializer internal get_inode name_ptr map_ptr phdrs_ptr d s = Ok (d', s') \<and>
      debug_list s' (xs @ [map_ptr]) \<and>
      l_addr (cd_heap s' map_ptr) = rw_base d \<and> l_name (cd_heap s' map_ptr) = name_ptr \<and>
      l_ld (cd_heap s' map_ptr) = dynamic_ptr d \<and>
      unat (l_phnum (cd_heap s' map_ptr)) = min (length (rw_phdrs d)) 65535 \<and>
      ed_link_map (rw_user_data d') = Some map_ptr \<and> ed_c_name (rw_user_data d') = Some (rw_name d) \<and>
      ed_needed_libs (rw_user_data d') = rw_needed_libs d \<and>
      (\<forall>i. CHR ''/'' \<in> set (rw_name d) \<and> get_inode (rw_name d) = Ok i \<longrightarrow>
         ed_file_identity (rw_user_data d') = Some i)"
proof (cases "CHR 0x00 \<in> set (rw_name d)")
  case False
  let ?lm = "new_link_map name_ptr map_ptr phdrs_ptr d"
  let ?s1 = "s\<lparr>cd_heap := (cd_heap s)(map_ptr := ?lm)\<rparr>"
  let ?s2 = "add_debug_link_map internal map_ptr ?s1"
  have list: "debug_list ?s2 (xs @ [map_ptr])"
    using assms by (intro add_refines) (simp_all add: debug_list_fresh_heap)
  have num: "unat (phnum_of (rw_phdrs d)) = min (length (rw_phdrs d)) 65535"
  proof -
    have "min (length (rw_phdrs d)) 65535 mod 65536 = min (length (rw_phdrs d)) 65535"
      by (rule mod_less) simp
    then show ?thesis by (simp add: phnum_of_def unat_of_nat)
  qed
  show ?thesis
    using False list num
    by (auto simp: dynamic_initializer_def finalize_raw_dylib_def Let_def add_keeps_payload
        new_link_map_def split: res.splits option.splits)
qed (simp add: dynamic_initializer_def finalize_raw_dylib_def)

definition ex_raw :: raw_dylib where
  "ex_raw = \<lparr>rw_name = ''/lib/liba.so'', rw_base = 0x7000, rw_phdrs = [], rw_entry = 0,
     rw_needed_libs = [''libc.so.6''], rw_user_data = extra_data_default\<rparr>"

theorem finalize_raw_dylib_links_witness:
  "\<exists>d' s'. dynamic_initializer 8 (\<lambda>p. Ok \<lparr>fi_dev = 1, fi_ino = 2\<rparr>) 100 64 0 ex_raw
      (debug_init 8 4 (\<lambda>_. link_map_zero)) = Ok (d', s') \<and> debug_list s' [64] \<and>
    ed_file_identity (rw_user_data d') = Some \<lparr>fi_dev = 1, fi_ino = 2\<rparr>"
proof -
  have 1: "debug_list (debug_init 8 4 (\<lambda>_. link_map_zero)) []" by (simp add: debug_list_def debug_init_def)
  have 2: "cd_debug (debug_init 8 4 (\<lambda>_. link_map_zero)) \<noteq> 0" by (simp add: debug_init_def)
  have "CHR 0x00 \<notin> set (rw_name ex_raw)" "CHR ''/'' \<in> set (rw_name ex_raw)" by (simp_all add: ex_raw_def)
  with finalize_raw_dylib_links [OF 1 2, of 64 ex_raw 8 "\<lambda>p. Ok \<lparr>fi_dev = 1, fi_ino = 2\<rparr>" 100 0]
  show ?thesis by auto
qed

end
