(* ===== verification/Dlopen_Path.thy ===== *)
theory Dlopen_Path
  imports Ld_Cache Linker_Script
begin

text \<open>
  The parts of \<open>src/api/dlopen.rs\<close> that work on names and paths: environment variables,
  path lists, \<open>$ORIGIN\<close> in run paths, the default directories, the test that lets a search
  go on, and the recognition of ELF files. An \<open>ElfPath\<close> is its string.
\<close>

section \<open>String operations\<close>

fun split_on :: "char \<Rightarrow> string \<Rightarrow> string list" where
  "split_on sep [] = [[]]"
| "split_on sep (c # cs) =
     (if c = sep then [] # split_on sep cs
      else (case split_on sep cs of [] \<Rightarrow> [[c]] | p # ps \<Rightarrow> (c # p) # ps))"

text \<open>\<open>split_once\<close> cuts at the first separator, \<open>rsplit_once\<close> at the last.\<close>

fun split_once :: "char \<Rightarrow> string \<Rightarrow> (string \<times> string) option" where
  "split_once sep [] = None"
| "split_once sep (c # cs) =
     (if c = sep then Some ([], cs)
      else map_option (\<lambda>(k, v). (c # k, v)) (split_once sep cs))"

fun rsplit_once :: "char \<Rightarrow> string \<Rightarrow> (string \<times> string) option" where
  "rsplit_once sep [] = None"
| "rsplit_once sep (c # cs) =
     (case rsplit_once sep cs of
        Some (a, b) \<Rightarrow> Some (c # a, b)
      | None \<Rightarrow> if c = sep then Some ([], cs) else None)"

text \<open>\<open>str::replace\<close>: left to right, without overlap; the pattern is not empty.\<close>

function str_replace :: "string \<Rightarrow> string \<Rightarrow> string \<Rightarrow> string" where
  "str_replace pat new s =
     (if pat = [] \<or> s = [] then s
      else if prefix pat s then new @ str_replace pat new (drop (length pat) s)
      else hd s # str_replace pat new (tl s))"
  by pat_completeness auto
termination
  by (relation "measure (\<lambda>(p, n, s). length s)") auto

declare str_replace.simps [simp del]

section \<open>The environment\<close>

text \<open>
  \<open>ENVP\<close>: null before it is set, else the entries up to the null pointer. An entry that is
  not UTF-8 or has no equals sign is skipped.
\<close>

fun env_lookup :: "string \<Rightarrow> u8 list list \<Rightarrow> string option" where
  "env_lookup name [] = None"
| "env_lookup name (e # es) =
     (case from_utf8 e of
        Some env \<Rightarrow>
          (case split_once CHR ''='' env of
             Some (k, v) \<Rightarrow> if k = name then Some v else env_lookup name es
           | None \<Rightarrow> env_lookup name es)
      | None \<Rightarrow> env_lookup name es)"

definition get_env :: "u8 list list option \<Rightarrow> string \<Rightarrow> string option" where
  "get_env envp name = (case envp of None \<Rightarrow> None | Some es \<Rightarrow> env_lookup name es)"

section \<open>Path lists\<close>

definition parse_path_list :: "string \<Rightarrow> string list" where
  "parse_path_list s = filter (\<lambda>p. p \<noteq> []) (split_on CHR '':'' s)"

definition ld_library_path :: "u8 list list option \<Rightarrow> string list" where
  "ld_library_path envp =
     (case get_env envp ''LD_LIBRARY_PATH'' of Some p \<Rightarrow> parse_path_list p | None \<Rightarrow> [])"

fun platform_default_paths :: "arch \<Rightarrow> string list" where
  "platform_default_paths X86_64 = [''/lib/x86_64-linux-gnu'', ''/usr/lib/x86_64-linux-gnu'']"
| "platform_default_paths Aarch64 = [''/lib/aarch64-linux-gnu'', ''/usr/lib/aarch64-linux-gnu'']"
| "platform_default_paths Riscv64 = [''/lib/riscv64-linux-gnu'', ''/usr/lib/riscv64-linux-gnu'']"

definition default_path :: "arch \<Rightarrow> string list" where
  "default_path a = platform_default_paths a @ [''/lib'', ''/usr/lib'', ''/lib64'', ''/usr/lib64'']"

definition origin_ok :: "string \<Rightarrow> bool" where
  "origin_ok s \<longleftrightarrow> prefix ''ORIGIN'' s \<or> prefix ''{ORIGIN}'' s"

definition fixup_rpath :: "string \<Rightarrow> string \<Rightarrow> string list" where
  "fixup_rpath lib_path rpath =
     (if CHR ''$'' \<notin> set rpath then parse_path_list rpath
      else if \<exists>s \<in> set (drop 1 (split_on CHR ''$'' rpath)). \<not> origin_ok s then []
      else
        (let dir = (case rsplit_once CHR ''/'' lib_path of Some (path, _) \<Rightarrow> path | None \<Rightarrow> ''.'')
         in parse_path_list (str_replace ''$ORIGIN'' dir rpath)))"

section \<open>Files\<close>

definition should_continue_library_search :: "error \<Rightarrow> bool" where
  "should_continue_library_search err =
     (case err of IO kind msg \<Rightarrow> kind = NotFound | _ \<Rightarrow> False)"

definition is_elf_input :: "u8 list \<Rightarrow> bool" where
  "is_elf_input bytes = prefix [0x7f, 0x45, 0x4c, 0x46] bytes"

text \<open>\<open>try_existing\<close> takes the part behind the last slash.\<close>

definition request_shortname :: "string \<Rightarrow> string" where
  "request_shortname path =
     (case rsplit_once CHR ''/'' path of Some (_, name) \<Rightarrow> name | None \<Rightarrow> path)"

section \<open>Lemmas\<close>

lemma split_on_nonempty: "split_on sep s \<noteq> []"
  by (induction s) (auto split: list.splits)

fun join_with :: "char \<Rightarrow> string list \<Rightarrow> string" where
  "join_with sep [] = []"
| "join_with sep [p] = p"
| "join_with sep (p # q # ps) = p @ sep # join_with sep (q # ps)"

lemma join_cons: "ps \<noteq> [] \<Longrightarrow> join_with sep ((c # p) # ps) = c # join_with sep (p # ps)"
  by (cases ps) auto

lemma join_split: "join_with sep (split_on sep s) = s"
proof (induction s)
  case (Cons c cs)
  obtain p ps where p: "split_on sep cs = p # ps" using split_on_nonempty by (cases "split_on sep cs") auto
  then show ?case using Cons by (cases ps) auto
qed simp

lemma split_on_no_sep: "p \<in> set (split_on sep s) \<Longrightarrow> sep \<notin> set p"
  by (induction s arbitrary: p) (auto split: list.splits if_splits)

lemma split_on_piece: "sep \<notin> set p \<Longrightarrow> split_on sep (p @ sep # s) = p # split_on sep s"
  by (induction p) auto

lemma split_on_single: "sep \<notin> set p \<Longrightarrow> split_on sep p = [p]"
  by (induction p) auto

lemma split_join: "ps \<noteq> [] \<Longrightarrow> \<forall>p \<in> set ps. sep \<notin> set p \<Longrightarrow> split_on sep (join_with sep ps) = ps"
  by (induction sep ps rule: join_with.induct) (auto simp: split_on_piece split_on_single)

lemma rsplit_once_None: "rsplit_once sep s = None \<longleftrightarrow> sep \<notin> set s"
  by (induction s) (auto split: option.splits)

lemma rsplit_once_append: "sep \<notin> set b \<Longrightarrow> rsplit_once sep (a @ sep # b) = Some (a, b)"
proof (induction a)
  case Nil
  then show ?case by (simp add: rsplit_once_None [THEN iffD2])
qed simp

lemma rsplit_once_Some:
  "rsplit_once sep s = Some (a, b) \<longleftrightarrow> s = a @ sep # b \<and> sep \<notin> set b"
proof
  assume r: "rsplit_once sep s = Some (a, b)"
  then have "sep \<in> set s" using rsplit_once_None [of sep s] by auto
  then obtain x y where s: "s = x @ sep # y" "sep \<notin> set y" by (meson split_list_last)
  with rsplit_once_append [of sep y x] r show "s = a @ sep # b \<and> sep \<notin> set b" by simp
qed (simp add: rsplit_once_append)

lemma str_replace_absent:
  "pat \<noteq> [] \<Longrightarrow> \<not> sublist pat s \<Longrightarrow> str_replace pat new s = s"
proof (induction s)
  case (Cons c cs)
  then have "\<not> prefix pat (c # cs)" "\<not> sublist pat cs" by (simp_all add: sublist_Cons_right)
  with Cons show ?case by (simp add: str_replace.simps [of pat new "c # cs"])
qed (simp add: str_replace.simps)

lemma no_dollar_replace: "CHR ''$'' \<notin> set s \<Longrightarrow> str_replace ''$ORIGIN'' dir s = s"
proof -
  assume s: "CHR ''$'' \<notin> set s"
  have "\<not> sublist ''$ORIGIN'' s"
  proof
    assume "sublist ''$ORIGIN'' s"
    from set_mono_sublist [OF this] s show False by auto
  qed
  then show ?thesis by (simp add: str_replace_absent)
qed

lemma parse_path_list_single: "p \<noteq> [] \<Longrightarrow> CHR '':'' \<notin> set p \<Longrightarrow> parse_path_list p = [p]"
  by (simp add: parse_path_list_def split_on_single)

section \<open>Properties\<close>

text \<open>
  A colon-separated list of non-empty directories parses back to its directories, and an
  empty entry between colons is ignored.
\<close>

theorem parse_path_list_roundtrip:
  assumes "\<forall>p \<in> set ps. CHR '':'' \<notin> set p" "ps \<noteq> []"
  shows "parse_path_list (join_with CHR '':'' ps) = filter (\<lambda>p. p \<noteq> []) ps"
  using assms by (simp add: parse_path_list_def split_join)

theorem parse_path_list_roundtrip_witness:
  "parse_path_list ''/lib::/usr/lib'' = [''/lib'', ''/usr/lib'']"
  using parse_path_list_roundtrip [of "[''/lib'', [], ''/usr/lib'']"] by simp

text \<open>
  \<open>$ORIGIN\<close> at the start of a run path entry becomes the directory of the library that
  has the entry; the braced form \<open>${ORIGIN}\<close>, which the check before accepts as well,
  stays in the path unexpanded.
\<close>

theorem fixup_rpath_origin:
  assumes "CHR ''/'' \<notin> set file" "CHR ''$'' \<notin> set rest" "CHR '':'' \<notin> set rest"
    "CHR '':'' \<notin> set dir" "dir @ rest \<noteq> []"
  shows "fixup_rpath (dir @ ''/'' @ file) (''$ORIGIN'' @ rest) = [dir @ rest] \<and>
    fixup_rpath (dir @ ''/'' @ file) (''${ORIGIN}'' @ rest) = [''${ORIGIN}'' @ rest]"
proof
  have dir: "rsplit_once CHR ''/'' (dir @ ''/'' @ file) = Some (dir, file)"
    using assms(1) by (simp add: rsplit_once_append)
  have ok: "split_on CHR ''$'' (''$ORIGIN'' @ rest) = [[], ''ORIGIN'' @ rest]"
    "split_on CHR ''$'' (''${ORIGIN}'' @ rest) = [[], ''{ORIGIN}'' @ rest]"
    using assms(2) by (simp_all add: split_on_single)
  have "str_replace ''$ORIGIN'' dir (''$ORIGIN'' @ rest) = dir @ rest"
    using assms(2) by (subst str_replace.simps) (simp add: no_dollar_replace)
  then show "fixup_rpath (dir @ ''/'' @ file) (''$ORIGIN'' @ rest) = [dir @ rest]"
    using ok dir assms(3-5) unfolding fixup_rpath_def ok
    by (simp add: origin_ok_def parse_path_list_single)
  have "str_replace ''$ORIGIN'' dir (''${ORIGIN}'' @ rest) = ''${ORIGIN}'' @ rest"
    using assms(2) by (subst str_replace.simps) (simp add: no_dollar_replace)
  then show "fixup_rpath (dir @ ''/'' @ file) (''${ORIGIN}'' @ rest) = [''${ORIGIN}'' @ rest]"
    using dir assms(3) unfolding fixup_rpath_def ok
    by (simp add: origin_ok_def parse_path_list_single)
qed

theorem fixup_rpath_origin_witness:
  "fixup_rpath ''/opt/app/libx.so'' ''$ORIGIN/lib'' = [''/opt/app/lib''] \<and>
   fixup_rpath ''/opt/app/libx.so'' ''${ORIGIN}/lib'' = [''${ORIGIN}/lib'']"
  using fixup_rpath_origin [of "''libx.so''" "''/lib''" "''/opt/app''"] by simp

end
