(* ===== verification/Dlopen.thy ===== *)
theory Dlopen
  imports Registry Dlopen_Path
begin

text \<open>
  \<open>src/api/dlopen.rs\<close>: one \<open>dlopen\<close> call. The state of the call (\<open>OpenContext\<close>,
  \<open>LinkResolver\<close>, \<open>DlopenPlanner\<close>) together with the registry behind its lock is the
  record \<open>open_state\<close>.

  \<^item> Other threads run only while the lock is given up; what they do to the registry the
    \<open>n\<close>-th time this happens is \<open>w_others w n\<close>.
  \<^item> The operating system, the path type of \<open>elf_loader\<close> and the environment are the record
    \<open>os_env\<close>; the linker of \<open>elf_loader\<close>, which calls back into the resolver, the visible
    modules and the planner, is a state machine given as a parameter.
  \<^item> An action returns \<open>None\<close> when its fuel does not suffice: the source then still spins,
    recurses or iterates.
\<close>

section \<open>World, state and actions\<close>

record os_env =
  fs_inode :: "string \<Rightarrow> (error, file_identity) res"
  fs_read_limit :: "string \<Rightarrow> nat \<Rightarrow> (error, u8 list) res"
  fs_read :: "string \<Rightarrow> (error, u8 list) res"
  fs_open_elf :: "string \<Rightarrow> (error, unit) res"
  fs_file_name :: "string \<Rightarrow> string"
  fs_join :: "string \<Rightarrow> string \<Rightarrow> string"
  fs_envp :: "u8 list list option"
  fs_cache :: "ld_cache option"
  fs_arch :: arch

record ('c, 'i) world =
  w_ops :: "('c, 'i) link_ops"
  w_others :: "nat \<Rightarrow> 'c manager \<Rightarrow> 'c manager"
  w_env :: os_env

record 'c open_state =
  os_manager :: "'c manager"
  os_locked :: bool
  os_ticks :: nat
  os_flags :: open_flags
  os_added :: "string list"
  os_committed :: bool
  os_root_request :: string
  os_root_bytes :: "u8 list option"
  os_scope :: "dylib list option"

type_synonym ('c, 'a) action = "'c open_state \<Rightarrow> ((error, 'a) res \<times> 'c open_state) option"

definition ret :: "'a \<Rightarrow> ('c, 'a) action" where
  "ret a s = Some (Ok a, s)"

definition fail :: "error \<Rightarrow> ('c, 'a) action" where
  "fail e s = Some (Err e, s)"

definition lift_res :: "(error, 'a) res \<Rightarrow> ('c, 'a) action" where
  "lift_res r s = Some (r, s)"

definition seq :: "('c, 'a) action \<Rightarrow> ('a \<Rightarrow> ('c, 'b) action) \<Rightarrow> ('c, 'b) action" where
  "seq p f s =
     (case p s of
        None \<Rightarrow> None
      | Some (Ok a, s') \<Rightarrow> f a s'
      | Some (Err e, s') \<Rightarrow> Some (Err e, s')
      | Some (Panic m, s') \<Rightarrow> Some (Panic m, s'))"

text \<open>\<open>BTreeSet<String>\<close>: sorted by bytes, without duplicates.\<close>

definition btree_insert :: "string \<Rightarrow> string list \<Rightarrow> string list" where
  "btree_insert k xs = (if k \<in> set xs then xs else insort_key byte_key k xs)"

section \<open>The lock\<close>

definition with_manager :: "('c manager \<Rightarrow> 'a) \<Rightarrow> ('c, 'a) action" where
  "with_manager f s =
     Some (if os_locked s then Ok (f (os_manager s)) else Panic ''Lock must be held'', s)"

definition with_manager_mut :: "('c manager \<Rightarrow> (error, 'a \<times> 'c manager) res) \<Rightarrow> ('c, 'a) action" where
  "with_manager_mut f s =
     Some (if os_locked s
           then (case f (os_manager s) of
                   Ok (a, m) \<Rightarrow> (Ok a, s\<lparr>os_manager := m\<rparr>)
                 | Err e \<Rightarrow> (Err e, s)
                 | Panic p \<Rightarrow> (Panic p, s))
           else (Panic ''Lock must be held'', s))"

definition take_lock :: "'c open_state \<Rightarrow> 'c open_state" where
  "take_lock s = s\<lparr>os_locked := False\<rparr>"

text \<open>\<open>take_lock().unwrap_or_else(lock_write)\<close>: keep the lock or acquire it.\<close>

definition lock_write :: "('c, 'i) world \<Rightarrow> 'c open_state \<Rightarrow> 'c open_state" where
  "lock_write w s =
     (if os_locked s then s
      else s\<lparr>os_manager := w_others w (os_ticks s) (os_manager s), os_ticks := Suc (os_ticks s),
             os_locked := True\<rparr>)"

definition wait_for_other_thread :: "('c, 'i) world \<Rightarrow> 'c open_state \<Rightarrow> 'c open_state" where
  "wait_for_other_thread w s = lock_write w (take_lock s)"

definition ready :: "string list option \<Rightarrow> library_lookup \<Rightarrow> bool" where
  "ready added_names lib \<longleftrightarrow> is_relocated lib \<or>
     (case added_names of None \<Rightarrow> False | Some names \<Rightarrow> lookup_shortname lib \<in> set names)"

primrec await_registered ::
  "nat \<Rightarrow> ('c, 'i) world \<Rightarrow> string list option \<Rightarrow> ('c manager \<Rightarrow> library_lookup option) \<Rightarrow>
     ('c, library_lookup option) action" where
  "await_registered 0 = (\<lambda>w added find s. None)"
| "await_registered (Suc n) = (\<lambda>w added find s.
     if \<not> os_locked s then Some (Panic ''Lock must be held'', s)
     else
       (case find (os_manager s) of
          None \<Rightarrow> Some (Ok None, s)
        | Some lib \<Rightarrow>
            if ready added lib then Some (Ok (Some lib), s)
            else await_registered n w added find (wait_for_other_thread w s)))"

definition wait_for_library ::
  "nat \<Rightarrow> ('c, 'i) world \<Rightarrow> string list option \<Rightarrow> string \<Rightarrow> ('c, library_lookup option) action" where
  "wait_for_library n w added shortname =
     await_registered n w added (\<lambda>m. lookup (w_ops w) m shortname)"

definition inode_fallback ::
  "nat \<Rightarrow> ('c, 'i) world \<Rightarrow> string list option \<Rightarrow> string \<Rightarrow> string \<Rightarrow>
     ('c, library_lookup option) action" where
  "inode_fallback n w added path shortname =
     seq (lift_res (fs_inode (w_env w) path)) (\<lambda>ident.
     seq (await_registered n w added (\<lambda>m. lookup_by_identity (w_ops w) m ident)) (\<lambda>entry.
       (case entry of
          Some lib \<Rightarrow>
            if ready added lib
            then seq (with_manager_mut (\<lambda>m. bind_res (add_alias (w_ops w) (lookup_shortname lib) shortname m)
                        (\<lambda>m'. Ok ((), m')))) (\<lambda>_. ret entry)
            else ret entry
        | None \<Rightarrow> ret entry)))"

section \<open>Existing libraries\<close>

definition set_committed :: "('c, unit) action" where
  "set_committed s = Some (Ok (), s\<lparr>os_committed := True\<rparr>)"

definition get_flags :: "('c, open_flags) action" where
  "get_flags s = Some (Ok (os_flags s), s)"

definition finish_existing :: "('c, 'i) world \<Rightarrow> library_lookup \<Rightarrow> ('c, elf_library) action" where
  "finish_existing w lib =
     seq get_flags (\<lambda>flags.
     seq (with_manager_mut (\<lambda>m.
       bind_res (open_existing (w_ops w) (lookup_shortname lib) flags m) (\<lambda>(h, m').
         (case h of
            Some elf_lib \<Rightarrow> Ok (elf_lib, m')
          | None \<Rightarrow> Panic ''Existing library must be retrievable'')))) (\<lambda>elf_lib.
     seq set_committed (\<lambda>_. ret elf_lib)))"

definition try_existing ::
  "nat \<Rightarrow> ('c, 'i) world \<Rightarrow> string \<Rightarrow> ('c, elf_library option) action" where
  "try_existing n w path =
     (let shortname = request_shortname path in
      seq (wait_for_library n w None shortname) (\<lambda>found.
        case found of
          Some lib \<Rightarrow> seq (finish_existing w lib) (\<lambda>h. ret (Some h))
        | None \<Rightarrow> (\<lambda>s.
            (case inode_fallback n w None path shortname s of
               None \<Rightarrow> None
             | Some (Ok (Some lib), s') \<Rightarrow> seq (finish_existing w lib) (\<lambda>h. ret (Some h)) s'
             | Some (Ok None, s') \<Rightarrow> Some (Ok None, s')
             | Some (Err e, s') \<Rightarrow>
                 if CHR ''/'' \<in> set path then Some (Err e, s') else Some (Ok None, s')
             | Some (Panic p, s') \<Rightarrow> Some (Panic p, s')))))"

section \<open>The resolver\<close>

datatype reader = Elf_File string | Elf_Binary string "u8 list"

datatype resolved_key = Existing string | Load string reader

datatype candidate_input = Reader reader | Script "string list"

text \<open>
  \<open>visible\<close> is the \<open>is_visible\<close> closure of a dependency request: it asks the linker, which
  asks the registry through \<open>DlopenVisible\<close>.
\<close>

type_synonym 'c visible = "('c manager \<Rightarrow> string \<Rightarrow> bool) option"

definition visible_is_some_and :: "'c visible \<Rightarrow> string \<Rightarrow> ('c, bool) action" where
  "visible_is_some_and visible key =
     (case visible of None \<Rightarrow> ret False | Some v \<Rightarrow> with_manager (\<lambda>m. v m key))"

definition visible_map_or_true :: "'c visible \<Rightarrow> string \<Rightarrow> ('c, bool) action" where
  "visible_map_or_true visible key =
     (case visible of None \<Rightarrow> ret True | Some v \<Rightarrow> with_manager (\<lambda>m. v m key))"

definition get_added :: "('c, string list) action" where
  "get_added s = Some (Ok (os_added s), s)"

definition resolver_reserve_pending ::
  "('c, 'i) world \<Rightarrow> string \<Rightarrow> string \<Rightarrow> ('c, unit) action" where
  "resolver_reserve_pending w shortname full_name =
     seq get_added (\<lambda>added.
       if shortname \<in> set added then ret ()
       else
         (let identity = (case fs_inode (w_env w) full_name of
                            Ok i \<Rightarrow> Some i | Err e \<Rightarrow> None | Panic p \<Rightarrow> None)
          in seq get_flags (\<lambda>flags.
             seq (with_manager_mut (\<lambda>m.
               bind_res (reserve_pending (w_ops w) shortname full_name identity flags m)
                 (\<lambda>m'. Ok ((), m')))) (\<lambda>_.
             (\<lambda>s. Some (Ok (), s\<lparr>os_added := btree_insert shortname (os_added s)\<rparr>))))))"

definition resolve_found ::
  "library_lookup \<Rightarrow> 'c visible \<Rightarrow> ('c, resolved_key option) action" where
  "resolve_found lib visible =
     seq (visible_map_or_true visible (lookup_shortname lib)) (\<lambda>v.
       ret (if v then Some (Existing (lookup_shortname lib)) else None))"

definition resolve_existing_by_name ::
  "nat \<Rightarrow> ('c, 'i) world \<Rightarrow> string \<Rightarrow> 'c visible \<Rightarrow> ('c, resolved_key option) action" where
  "resolve_existing_by_name n w shortname visible =
     seq (visible_is_some_and visible shortname) (\<lambda>v.
       if v then ret (Some (Existing shortname))
       else
         seq get_added (\<lambda>added.
         seq (wait_for_library n w (Some added) shortname) (\<lambda>found.
           case found of None \<Rightarrow> ret None | Some lib \<Rightarrow> resolve_found lib visible)))"

definition resolve_existing_by_path ::
  "nat \<Rightarrow> ('c, 'i) world \<Rightarrow> string \<Rightarrow> string \<Rightarrow> 'c visible \<Rightarrow> ('c, resolved_key option) action" where
  "resolve_existing_by_path n w path shortname visible =
     seq (visible_is_some_and visible shortname) (\<lambda>v.
       if v then ret (Some (Existing shortname))
       else
         seq get_added (\<lambda>added.
         seq (inode_fallback n w (Some added) path shortname) (\<lambda>found.
           case found of None \<Rightarrow> ret None | Some lib \<Rightarrow> resolve_found lib visible)))"

definition load_candidate_bytes :: "string \<Rightarrow> u8 list \<Rightarrow> (error, candidate_input) res" where
  "load_candidate_bytes path bytes =
     (if is_elf_input bytes then Ok (Reader (Elf_Binary path bytes))
      else Ok (Script (get_linker_script_libs bytes)))"

definition load_candidate_file :: "os_env \<Rightarrow> string \<Rightarrow> (error, candidate_input) res" where
  "load_candidate_file env path =
     bind_res (fs_read_limit env path 64) (\<lambda>header.
       if is_elf_input header
       then bind_res (fs_open_elf env path) (\<lambda>_. Ok (Reader (Elf_File path)))
       else bind_res (fs_read env path) (\<lambda>content. Ok (Script (get_linker_script_libs content))))"

definition load_candidate ::
  "os_env \<Rightarrow> string \<Rightarrow> u8 list option \<Rightarrow> (error, candidate_input) res" where
  "load_candidate env path bytes =
     (case bytes of
        Some b \<Rightarrow> load_candidate_bytes path b
      | None \<Rightarrow> load_candidate_file env path)"

fun resolve_first ::
  "('x \<Rightarrow> ('c, resolved_key) action) \<Rightarrow> 'x list \<Rightarrow> ('c, resolved_key option) action" where
  "resolve_first resolve [] s = Some (Ok None, s)"
| "resolve_first resolve (candidate # candidates) s =
     (case resolve candidate s of
        None \<Rightarrow> None
      | Some (Ok module, s') \<Rightarrow> Some (Ok (Some module), s')
      | Some (Err err, s') \<Rightarrow>
          if should_continue_library_search err then resolve_first resolve candidates s'
          else Some (Err err, s')
      | Some (Panic p, s') \<Rightarrow> Some (Panic p, s'))"

text \<open>
  \<open>resolve_script\<close> calls \<open>resolve_request\<close> again for every library of the script: that call
  is the argument \<open>request\<close>.
\<close>

definition resolve_script ::
  "(string \<Rightarrow> ('c, resolved_key) action) \<Rightarrow> string list \<Rightarrow> ('c, resolved_key) action" where
  "resolve_script request libs =
     seq (resolve_first request libs) (\<lambda>r.
       case r of
         Some module \<Rightarrow> ret module
       | None \<Rightarrow> fail (find_lib_error ''can not resolve linker script''))"

definition resolve_candidate_path ::
  "nat \<Rightarrow> ('c, 'i) world \<Rightarrow> (string \<Rightarrow> ('c, resolved_key) action) \<Rightarrow> 'c visible \<Rightarrow> u8 list option \<Rightarrow>
     string \<Rightarrow> ('c, resolved_key) action" where
  "resolve_candidate_path n w request visible bytes path =
     (let shortname = fs_file_name (w_env w) path in
      seq (resolve_existing_by_path n w path shortname visible) (\<lambda>found.
        case found of
          Some module \<Rightarrow> ret module
        | None \<Rightarrow>
            seq (lift_res (load_candidate (w_env w) path bytes)) (\<lambda>input.
              case input of
                Reader r \<Rightarrow>
                  seq (resolver_reserve_pending w shortname path) (\<lambda>_. ret (Load shortname r))
              | Script libs \<Rightarrow> resolve_script request libs)))"

definition search_dirs :: "os_env \<Rightarrow> string list \<Rightarrow> string list \<Rightarrow> string list" where
  "search_dirs env rpath runpath =
     (if runpath = [] then rpath else []) @ ld_library_path (fs_envp env) @ runpath"

definition cached_path :: "os_env \<Rightarrow> string \<Rightarrow> (error, string option) res" where
  "cached_path env lib_name =
     (case fs_cache env of None \<Rightarrow> Ok None | Some c \<Rightarrow> cache_lookup (fs_arch env) c lib_name)"

primrec resolve_request ::
  "nat \<Rightarrow> ('c, 'i) world \<Rightarrow> 'c visible \<Rightarrow> string list \<Rightarrow> string list \<Rightarrow> u8 list option \<Rightarrow> string \<Rightarrow>
     ('c, resolved_key) action" where
  "resolve_request 0 = (\<lambda>w visible rpath runpath bytes lib_name s. None)"
| "resolve_request (Suc n) = (\<lambda>w visible rpath runpath bytes lib_name.
     let env = w_env w;
         shortname = fs_file_name env lib_name;
         candidate = resolve_candidate_path n w (resolve_request n w visible rpath runpath None)
                       visible bytes
     in seq (resolve_existing_by_name n w shortname visible) (\<lambda>found.
        case found of
          Some module \<Rightarrow> ret module
        | None \<Rightarrow>
            if CHR ''/'' \<in> set lib_name then candidate lib_name
            else
              seq (resolve_first candidate
                     (map (\<lambda>dir. fs_join env dir lib_name) (search_dirs env rpath runpath))) (\<lambda>r1.
              case r1 of
                Some module \<Rightarrow> ret module
              | None \<Rightarrow>
                  seq (lift_res (cached_path env lib_name)) (\<lambda>cached.
                  seq (case cached of
                         None \<Rightarrow> ret None
                       | Some path \<Rightarrow> resolve_first candidate [path]) (\<lambda>r2.
                  case r2 of
                    Some module \<Rightarrow> ret module
                  | None \<Rightarrow>
                      seq (resolve_first candidate
                             (map (\<lambda>dir. fs_join env dir lib_name) (default_path (fs_arch env)))) (\<lambda>r3.
                      case r3 of
                        Some module \<Rightarrow> ret module
                      | None \<Rightarrow> fail (find_lib_error (''can not find library: '' @ lib_name))))))))"

text \<open>\<open>KeyResolver\<close>: the root request, with the bytes of the root the first time, and dependencies.\<close>

definition load_root :: "nat \<Rightarrow> ('c, 'i) world \<Rightarrow> string \<Rightarrow> ('c, resolved_key) action" where
  "load_root n w key s =
     (if key = os_root_request s
      then resolve_request n w None [] [] (os_root_bytes s) key (s\<lparr>os_root_bytes := None\<rparr>)
      else resolve_request n w None [] [] None key s)"

record 'c dependency_request =
  dr_owner :: string
  dr_rpath :: "string option"
  dr_runpath :: "string option"
  dr_needed :: string
  dr_visible :: "'c manager \<Rightarrow> string \<Rightarrow> bool"

definition fixup_opt :: "string \<Rightarrow> string option \<Rightarrow> string list" where
  "fixup_opt owner r = (case r of Some p \<Rightarrow> fixup_rpath owner p | None \<Rightarrow> [])"

definition resolve_dependency ::
  "nat \<Rightarrow> ('c, 'i) world \<Rightarrow> 'c dependency_request \<Rightarrow> ('c, resolved_key) action" where
  "resolve_dependency n w req =
     resolve_request n w (Some (dr_visible req)) (fixup_opt (dr_owner req) (dr_rpath req))
       (fixup_opt (dr_owner req) (dr_runpath req)) None (dr_needed req)"

end
