(* ===== verification/Dlopen_Link.thy ===== *)
theory Dlopen_Link
  imports Dlopen
begin

text \<open>
  The second half of \<open>src/api/dlopen.rs\<close>: the conversation with the linker of
  \<open>elf_loader\<close>, the relocation scope, publishing the result, rolling back, and the entry
  points \<open>ElfLibrary::dlopen\<close>, \<open>dlopen_from_binary\<close>, \<open>this\<close> and the C function
  \<open>dlopen\<close>.
\<close>

section \<open>The linker as a parameter\<close>

text \<open>
  The linker is a machine with a state \<open>'l\<close>: told the answer to its last question it asks
  the next one, or ends. What it may ask is the traits the crate implements for it:
  \<open>KeyResolver\<close>, \<open>VisibleModules\<close> and \<open>RelocationPlanner\<close>.
\<close>

datatype link_root_kind = Load_Request string "u8 list option" | Mapped_Root string string

datatype binding = Eager | Lazily | Default_Binding

datatype ('c, 'i) linker_call =
    Call_Load_Root string
  | Call_Resolve_Dependency "'c dependency_request"
  | Call_Contains_Key string
  | Call_Direct_Deps string
  | Call_Module string
  | Call_Plan string "dylib option list"
  | Linked dylib 'c "'i list"
  | Link_Error elf_error

datatype answer =
    Start
  | Key_Ok resolved_key
  | Key_Err elf_error
  | Visible bool
  | Deps "string list option"
  | Module "dylib option"
  | Inputs binding "dylib list"

record ('c, 'i, 'l) linker =
  lk_start :: "link_root_kind \<Rightarrow> 'l"
  lk_next :: "'l \<Rightarrow> answer \<Rightarrow> ('c, 'i) linker_call \<times> 'l"
  lk_show :: "elf_error \<Rightarrow> string"

definition key_answer ::
  "(elf_error \<Rightarrow> string) \<Rightarrow> ('c, resolved_key) action \<Rightarrow> ('c, answer) action" where
  "key_answer show p s =
     (case p s of
        None \<Rightarrow> None
      | Some (Ok k, s') \<Rightarrow> Some (Ok (Key_Ok k), s')
      | Some (Err e, s') \<Rightarrow> Some (Ok (Key_Err (into_linker_error show e)), s')
      | Some (Panic m, s') \<Rightarrow> Some (Panic m, s'))"

definition prepare_relocation :: "dylib option list \<Rightarrow> ('c, dylib list) action" where
  "prepare_relocation group_scope =
     seq get_flags (\<lambda>flags.
     seq (with_manager (\<lambda>m. relocation_scope m (List.map_filter id group_scope) flags)) (\<lambda>scope.
       (\<lambda>s. Some (Ok scope, take_lock s))))"

definition plan_binding :: "open_flags \<Rightarrow> binding" where
  "plan_binding flags =
     (if is_now flags then Eager else if is_lazy flags then Lazily else Default_Binding)"

definition plan :: "dylib option list \<Rightarrow> ('c, answer) action" where
  "plan group_scope s =
     (case os_scope s of
        Some scope \<Rightarrow> Some (Ok (Inputs (plan_binding (os_flags s)) scope), s)
      | None \<Rightarrow>
          seq (prepare_relocation group_scope) (\<lambda>scope s'.
            Some (Ok (Inputs (plan_binding (os_flags s')) scope), s'\<lparr>os_scope := Some scope\<rparr>)) s)"

definition handle_call ::
  "nat \<Rightarrow> ('c, 'i) world \<Rightarrow> (elf_error \<Rightarrow> string) \<Rightarrow> ('c, 'i) linker_call \<Rightarrow> ('c, answer) action" where
  "handle_call n w show call =
     (case call of
        Call_Load_Root key \<Rightarrow> key_answer show (load_root n w key)
      | Call_Resolve_Dependency req \<Rightarrow> key_answer show (resolve_dependency n w req)
      | Call_Contains_Key key \<Rightarrow>
          seq (with_manager (\<lambda>m. visible_contains (w_ops w) m key)) (\<lambda>b. ret (Visible b))
      | Call_Direct_Deps key \<Rightarrow>
          seq (with_manager (\<lambda>m. visible_direct_deps (w_ops w) m key)) (\<lambda>r.
          seq (lift_res r) (\<lambda>ds. ret (Deps ds)))
      | Call_Module key \<Rightarrow>
          seq (with_manager (\<lambda>m. visible_loaded (w_ops w) m key)) (\<lambda>l. ret (Module l))
      | Call_Plan key scope \<Rightarrow> plan scope
      | Linked root c ids \<Rightarrow> ret Start
      | Link_Error e \<Rightarrow> ret Start)"

primrec run_linker ::
  "nat \<Rightarrow> nat \<Rightarrow> ('c, 'i) world \<Rightarrow> ('c, 'i, 'l) linker \<Rightarrow> 'l \<Rightarrow> answer \<Rightarrow>
     ('c, dylib \<times> 'c \<times> 'i list) action" where
  "run_linker 0 = (\<lambda>n w lk l a s. None)"
| "run_linker (Suc k) = (\<lambda>n w lk l a s.
     (case lk_next lk l a of
        (Linked root c ids, l') \<Rightarrow> Some (Ok (root, c, ids), s)
      | (Link_Error e, l') \<Rightarrow> Some (Err (error_of_elf e), s)
      | (call, l') \<Rightarrow> seq (handle_call n w (lk_show lk) call) (\<lambda>a'. run_linker k n w lk l' a') s))"

section \<open>Publishing and rolling back\<close>

definition complete_relocation ::
  "('c, 'i) world \<Rightarrow> 'c \<Rightarrow> 'i list \<Rightarrow> ('c, unit) action" where
  "complete_relocation w source committed s =
     with_manager_mut (\<lambda>m. bind_res (merge_link_context (w_ops w) source (os_flags s) committed m)
       (\<lambda>m'. Ok ((), m'))) (lock_write w s)"

definition context_library_scope :: "('c, 'i) world \<Rightarrow> string \<Rightarrow> ('c, dylib list) action" where
  "context_library_scope w root =
     seq (with_manager (\<lambda>m. library_scope (w_ops w) m root)) (\<lambda>r.
       case r of
         Some deps \<Rightarrow> ret deps
       | None \<Rightarrow> lift_res (Panic ''root library must have a dependency scope after linking''))"

definition finish :: "dylib list \<Rightarrow> ('c, elf_library) action" where
  "finish deps =
     seq set_committed (\<lambda>_.
       case deps of
         [] \<Rightarrow> lift_res (Panic ''index out of bounds'')
       | core # _ \<Rightarrow> ret \<lparr>el_inner = core, el_deps = Some deps\<rparr>)"

fun remove_added_libraries ::
  "('c, 'i) link_ops \<Rightarrow> string list \<Rightarrow> 'c manager \<Rightarrow> (error, 'c manager) res" where
  "remove_added_libraries ops [] m = Ok m"
| "remove_added_libraries ops (name # names) m =
     bind_res (remove ops name m) (remove_added_libraries ops names)"

text \<open>\<open>Drop for OpenContext\<close>, which runs when the call returns, with a result or an error.\<close>

definition drop_context ::
  "('c, 'i) world \<Rightarrow> (error, 'a) res \<times> 'c open_state \<Rightarrow> (error, 'a) res \<times> 'c open_state" where
  "drop_context w rs =
     (case rs of (r, s) \<Rightarrow>
        if os_committed s then (r, take_lock s)
        else
          (let s' = lock_write w s in
           case remove_added_libraries (w_ops w) (os_added s') (os_manager s') of
             Ok m \<Rightarrow> (r, take_lock (s'\<lparr>os_manager := m\<rparr>))
           | Err e \<Rightarrow> (Err e, s')
           | Panic p \<Rightarrow> (Panic p, s')))"

section \<open>Opening\<close>

definition context_reserve_pending ::
  "('c, 'i) world \<Rightarrow> string \<Rightarrow> string \<Rightarrow> ('c, unit) action" where
  "context_reserve_pending w shortname full_name =
     seq get_flags (\<lambda>flags.
     seq (with_manager_mut (\<lambda>m.
       bind_res (reserve_pending (w_ops w) shortname full_name None flags m) (\<lambda>m'. Ok ((), m')))) (\<lambda>_.
     (\<lambda>s. Some (Ok (), s\<lparr>os_added := btree_insert shortname (os_added s)\<rparr>))))"

definition link_load ::
  "nat \<Rightarrow> nat \<Rightarrow> ('c, 'i) world \<Rightarrow> ('c, 'i, 'l) linker \<Rightarrow> link_root_kind \<Rightarrow> ('c, elf_library) action" where
  "link_load k n w lk root =
     seq (run_linker k n w lk (lk_start lk root) Start) (\<lambda>(root_lib, link_ctx, committed).
     seq (complete_relocation w link_ctx committed) (\<lambda>_.
     seq (context_library_scope w (dylib_shortname root_lib)) finish))"

definition link_root ::
  "nat \<Rightarrow> nat \<Rightarrow> ('c, 'i) world \<Rightarrow> ('c, 'i, 'l) linker \<Rightarrow> string \<Rightarrow> link_root_kind \<Rightarrow> ('c, elf_library) action" where
  "link_root k n w lk root_request root s =
     (let bytes = (case root of Load_Request _ b \<Rightarrow> b | Mapped_Root _ _ \<Rightarrow> None);
          s = s\<lparr>os_root_request := root_request, os_root_bytes := bytes, os_scope := None\<rparr>
      in case root of
           Load_Request key b \<Rightarrow> link_load k n w lk root s
         | Mapped_Root key raw_name \<Rightarrow>
             seq (wait_for_library n w None key) (\<lambda>found.
               case found of
                 Some lib \<Rightarrow> finish_existing w lib
               | None \<Rightarrow> seq (context_reserve_pending w key raw_name) (\<lambda>_. link_load k n w lk root)) s)"

definition open_context ::
  "('c, 'i) world \<Rightarrow> open_flags \<Rightarrow> nat \<Rightarrow> 'c manager \<Rightarrow> 'c open_state" where
  "open_context w flags t m =
     \<lparr>os_manager = m, os_locked = True, os_ticks = t,
      os_flags = (if get_env (fs_envp (w_env w)) ''LD_BIND_NOW'' \<noteq> None then flags OR RTLD_NOW else flags),
      os_added = [], os_committed = False, os_root_request = [], os_root_bytes = None, os_scope = None\<rparr>"

definition dlopen_body ::
  "nat \<Rightarrow> nat \<Rightarrow> ('c, 'i) world \<Rightarrow> ('c, 'i, 'l) linker \<Rightarrow> string \<Rightarrow> u8 list option \<Rightarrow> ('c, elf_library) action" where
  "dlopen_body k n w lk path bytes =
     seq (try_existing n w path) (\<lambda>found.
       case found of
         Some lib \<Rightarrow> ret lib
       | None \<Rightarrow>
           seq get_flags (\<lambda>flags.
             if is_noload flags then fail (find_lib_error (''can not find file: '' @ path))
             else link_root k n w lk path (Load_Request path bytes)))"

definition dlopen_impl ::
  "nat \<Rightarrow> nat \<Rightarrow> ('c, 'i) world \<Rightarrow> ('c, 'i, 'l) linker \<Rightarrow> nat \<Rightarrow> string \<Rightarrow> open_flags \<Rightarrow> u8 list option \<Rightarrow>
     'c manager \<Rightarrow> ((error, elf_library) res \<times> 'c open_state) option" where
  "dlopen_impl k n w lk t path flags bytes m =
     map_option (drop_context w) (dlopen_body k n w lk path bytes (open_context w flags t m))"

definition dlopen_mapped_root ::
  "nat \<Rightarrow> nat \<Rightarrow> ('c, 'i) world \<Rightarrow> ('c, 'i, 'l) linker \<Rightarrow> nat \<Rightarrow> string \<Rightarrow> string \<Rightarrow> open_flags \<Rightarrow>
     'c manager \<Rightarrow> ((error, elf_library) res \<times> 'c open_state) option" where
  "dlopen_mapped_root k n w lk t root_request raw_name flags m =
     map_option (drop_context w)
       (link_root k n w lk root_request (Mapped_Root (shortname_from_name raw_name) raw_name)
         (open_context w flags t m))"

definition elf_library_this :: "('c, 'i) link_ops \<Rightarrow> 'c manager \<Rightarrow> (error, elf_library) res" where
  "elf_library_this ops m =
     (case main_library ops m of
        Some lib \<Rightarrow> Ok lib | None \<Rightarrow> Panic ''Main executable must be initialized'')"

text \<open>
  The C function: a null name is the main program; a name that is not UTF-8 or an error gives
  the null handle, here \<open>Ok None\<close>.
\<close>

definition c_dlopen ::
  "nat \<Rightarrow> nat \<Rightarrow> ('c, 'i) world \<Rightarrow> ('c, 'i, 'l) linker \<Rightarrow> nat \<Rightarrow> u8 list option \<Rightarrow> open_flags \<Rightarrow>
     'c manager \<Rightarrow> ((error, elf_library option) res \<times> 'c manager) option" where
  "c_dlopen k n w lk t filename flags m =
     (case filename of
        None \<Rightarrow> Some (bind_res (elf_library_this (w_ops w) m) (\<lambda>h. Ok (Some h)), m)
      | Some bytes \<Rightarrow>
          (case from_utf8 bytes of
             None \<Rightarrow> Some (Ok None, m)
           | Some path \<Rightarrow>
               map_option (\<lambda>(r, s).
                 (case r of Ok h \<Rightarrow> Ok (Some h) | Err e \<Rightarrow> Ok None | Panic p \<Rightarrow> Panic p, os_manager s))
                 (dlopen_impl k n w lk t path flags None m)))"

end
