(* ===== verification/Dlopen_Inv.thy ===== *)
theory Dlopen_Inv
  imports Dlopen_Link Registry_Props
begin

text \<open>
  What one \<open>dlopen\<close> call owns while it runs. \<open>own m0 A m\<close> says that the registry \<open>m\<close> is
  the registry \<open>m0\<close> at the start of the call plus reservations for the names \<open>A\<close>: every
  other library is there with the same module and flags. The actions of the call keep it,
  which a small Hoare calculus for \<open>action\<close>s shows, and removing \<open>A\<close> leads back to \<open>m0\<close>.
\<close>

section \<open>Ownership\<close>

definition pending_entry :: "'c manager \<Rightarrow> string \<Rightarrow> (dylib option \<times> open_flags) option" where
  "pending_entry m k = map_option (\<lambda>p. (pd_inner p, pd_flags p)) (im_get (pending m) k)"

definition committed_entry :: "('c, 'i) link_ops \<Rightarrow> 'c manager \<Rightarrow> string \<Rightarrow> (dylib \<times> open_flags) option" where
  "committed_entry ops m k =
     map_option (\<lambda>(lib, meta). (lib, gm_flags meta)) (lc_view ops (link_ctx m) k)"

definition same_entries :: "('c, 'i) link_ops \<Rightarrow> 'c manager \<Rightarrow> 'c manager \<Rightarrow> bool" where
  "same_entries ops m0 m \<longleftrightarrow>
     (\<forall>k. pending_entry m k = pending_entry m0 k) \<and>
     (\<forall>k. committed_entry ops m k = committed_entry ops m0 k) \<and>
     lc_names ops (link_ctx m) = lc_names ops (link_ctx m0) \<and> global m = global m0"

definition own :: "('c, 'i) link_ops \<Rightarrow> ('c \<Rightarrow> bool) \<Rightarrow> 'c manager \<Rightarrow> string list \<Rightarrow> 'c manager \<Rightarrow> bool" where
  "own ops ok m0 A m \<longleftrightarrow> manager_inv ops ok m \<and> distinct A \<and>
     (\<forall>k \<in> set A. im_get (pending m) k \<noteq> None \<and> \<not> registered ops m0 k) \<and>
     (\<forall>k. k \<notin> set A \<longrightarrow> pending_entry m k = pending_entry m0 k) \<and>
     (\<forall>k. committed_entry ops m k = committed_entry ops m0 k) \<and>
     lc_names ops (link_ctx m) = lc_names ops (link_ctx m0) \<and> global m = global m0 \<and>
     aliases m0 \<subseteq>\<^sub>m aliases m"

lemma entry_None:
  "pending_entry m k = None \<longleftrightarrow> im_get (pending m) k = None"
  "committed_entry ops m k = None \<longleftrightarrow> lc_view ops (link_ctx m) k = None"
  by (simp_all add: pending_entry_def committed_entry_def)

lemma own_registered:
  assumes "own ops ok m0 A m"
  shows "registered ops m k \<longleftrightarrow> registered ops m0 k \<or> k \<in> set A"
proof -
  have p: "k \<notin> set A \<Longrightarrow> im_get (pending m) k = None \<longleftrightarrow> im_get (pending m0) k = None"
    using assms by (simp add: own_def flip: entry_None(1))
  have c: "lc_view ops (link_ctx m) k = None \<longleftrightarrow> lc_view ops (link_ctx m0) k = None"
    using assms unfolding own_def by (metis entry_None(2))
  have a: "k \<in> set A \<Longrightarrow> im_get (pending m) k \<noteq> None" using assms unfolding own_def by blast
  show ?thesis
    unfolding registered_def c using p a by (cases "k \<in> set A") simp_all
qed

lemma same_libs_entries:
  "same_libs ops m m' \<Longrightarrow> pending_entry m' = pending_entry m \<and>
     committed_entry ops m' = committed_entry ops m \<and>
     lc_names ops (link_ctx m') = lc_names ops (link_ctx m) \<and> global m' = global m"
  by (simp add: same_libs_def pending_entry_def committed_entry_def fun_eq_iff)

lemma own_same_libs:
  assumes "own ops ok m0 A m" "same_libs ops m m'" "manager_inv ops ok m'" "aliases m \<subseteq>\<^sub>m aliases m'"
  shows "own ops ok m0 A m'"
proof -
  have "im_get (pending m') k \<noteq> None" if "k \<in> set A" for k
    using assms(1,2) that same_libs_pending_None [OF assms(2)] unfolding own_def by blast
  moreover have "aliases m0 \<subseteq>\<^sub>m aliases m'" using assms(1,4) map_le_trans by (auto simp: own_def)
  ultimately show ?thesis using same_libs_entries [OF assms(2)] assms(1,3) by (simp add: own_def)
qed

lemma add_alias_grows: "add_alias ops k a m = Ok m' \<Longrightarrow> aliases m \<subseteq>\<^sub>m aliases m'"
  by (auto simp: add_alias_def map_le_def split: if_splits option.splits)

lemma add_aliases_grows: "add_aliases ops k as m = Ok m' \<Longrightarrow> aliases m \<subseteq>\<^sub>m aliases m'"
proof (induction as arbitrary: m)
  case (Cons a as)
  then obtain m1 where "add_alias ops k a m = Ok m1" "add_aliases ops k as m1 = Ok m'"
    by (auto simp: bind_res_Ok_iff)
  with Cons.IH add_alias_grows show ?case by (blast intro: map_le_trans)
qed simp

lemma btree_insert_simps [simp]:
  "set (btree_insert k A) = insert k (set A)"
  "distinct (btree_insert k A) = distinct A"
  by (auto simp: btree_insert_def set_insort_key distinct_insort)

context link_context
begin

lemma alias_registered:
  assumes inv: "manager_inv ops ok m" and a: "aliases m a = Some k"
  shows "registered ops m k"
proof -
  have "a \<in> set (libnames_of ops m k)" using assms by (simp add: manager_inv_defs)
  then show ?thesis
    by (cases "lc_view ops (link_ctx m) k") (auto simp: libnames_of_def registered_def split: option.splits)
qed

lemma own_start: "manager_inv ops ok m0 \<Longrightarrow> own ops ok m0 [] m0"
  by (simp add: own_def)

lemma own_alias:
  assumes "own ops ok m0 A m" "registered ops m k"
  shows "\<exists>m'. add_alias ops k a m = Ok m' \<and> own ops ok m0 A m'"
proof -
  have inv: "manager_inv ops ok m" using assms(1) by (simp add: own_def)
  then have "base_inv ops ok m" by (simp add: manager_inv_def)
  from add_alias_Ok [OF this assms(2), of a] obtain m' where
    m': "add_alias ops k a m = Ok m'" "same_libs ops m m'" by blast
  with inv_add_alias [OF inv assms(2) m'(1)] own_same_libs [OF assms(1) m'(2)]
    add_alias_grows [OF m'(1)] show ?thesis by blast
qed

lemma own_reserve:
  assumes own: "own ops ok m0 A m" and fresh: "\<not> registered ops m k"
  shows "\<exists>m'. reserve_pending ops k full i f m = Ok m' \<and> own ops ok m0 (btree_insert k A) m'"
proof -
  let ?m1 = "add_identity_opt i k (add_pending_reservation k (normalized_flags full f) m)"
  have inv: "manager_inv ops ok m" using own by (simp add: own_def)
  from inv_reserve_pending [OF inv fresh, of full i f] obtain m' where
    m': "reserve_pending ops k full i f m = Ok m'" "manager_inv ops ok m'" "same_libs ops ?m1 m'" by blast
  have entry: "pending_entry ?m1 j = (if j = k then Some (None, normalized_flags full f) else pending_entry m j)"
    "committed_entry ops ?m1 j = committed_entry ops m j" for j
    by (simp_all add: pending_entry_def committed_entry_def add_pending_reservation_def pending_reserved_def)
  have base: "link_ctx ?m1 = link_ctx m" "global ?m1 = global m" by (simp_all add: add_pending_reservation_def)
  have "im_get (pending m') j \<noteq> None" if "j \<in> set (btree_insert k A)" for j
  proof -
    have "pending_entry ?m1 j \<noteq> None" using that own by (cases "j = k") (simp_all add: entry own_def entry_None)
    with same_libs_entries [OF m'(3)] show ?thesis by (metis entry_None(1))
  qed
  moreover have "\<not> registered ops m0 j" if "j \<in> set (btree_insert k A)" for j
    using that own fresh own_registered [OF own, of k] by (auto simp: own_def)
  moreover have "aliases m0 \<subseteq>\<^sub>m aliases m'"
  proof -
    have "aliases m \<subseteq>\<^sub>m aliases m'"
      using add_aliases_grows m'(1) by (fastforce simp: reserve_pending_def add_pending_reservation_def)
    then show ?thesis using own map_le_trans by (auto simp: own_def)
  qed
  ultimately have "own ops ok m0 (btree_insert k A) m'"
    using same_libs_entries [OF m'(3)] own m'(2) entry base by (simp add: own_def)
  with m'(1) show ?thesis by blast
qed

lemma own_remove:
  assumes own: "own ops ok m0 A m" and k: "k \<in> set A" and inv0: "manager_inv ops ok m0"
  shows "\<exists>m'. Registry.remove ops k m = Ok m' \<and> own ops ok m0 (remove1 k A) m'"
proof -
  have inv: "manager_inv ops ok m" and pend: "im_get (pending m) k \<noteq> None" and dist: "distinct A"
    and m0: "\<not> registered ops m0 k"
    using own k by (auto simp: own_def)
  then have reg: "registered ops m k" by (simp add: registered_def)
  from remove_Ok [OF inv reg] obtain m' where
    m': "Registry.remove ops k m = Ok m'" "manager_inv ops ok m'" "removed_from k m m'" by blast
  have none: "lc_view ops (link_ctx m) k = None" using inv pend by (auto simp: manager_inv_defs)
  then have "im_get (global m) k = None" using inv by (cases "im_get (global m) k") (auto simp: manager_inv_defs)
  then have glob: "global m' = global m"
    using m'(3) by (simp add: removed_from_def im_shift_remove_absent im.get_dom)
  have ctx: "lc_view ops (link_ctx m') = lc_view ops (link_ctx m)"
    using m'(3) none by (auto simp: removed_from_def)
  have "k \<notin> set (lc_names ops (link_ctx m))" using none names_set [OF inv_ctx [OF inv]] by simp
  then have names: "lc_names ops (link_ctx m') = lc_names ops (link_ctx m)"
    using m'(3) by (simp add: removed_from_def filter_id_conv) metis
  have p: "pending_entry m' j = (if j = k then None else pending_entry m j)" for j
    using m'(3) by (simp add: removed_from_def pending_entry_def)
  have "pending_entry m0 k = None" using m0 by (simp add: registered_def entry_None)
  moreover have "aliases m0 \<subseteq>\<^sub>m aliases m'"
  proof -
    have "aliases m a = Some j \<and> j \<noteq> k" if "aliases m0 a = Some j" for a j
      using own that alias_registered [OF inv0 that] m0 by (auto simp: own_def map_le_def dom_def)
    then show ?thesis using m'(3) by (auto simp: removed_from_def map_le_def)
  qed
  ultimately have "own ops ok m0 (remove1 k A) m'"
    using own m'(2) glob ctx names p dist k
    by (auto simp: own_def committed_entry_def entry_None simp flip: entry_None(1))
  with m'(1) show ?thesis by blast
qed

text \<open>With nothing reserved, the libraries, their flags and every answer are those of \<open>m0\<close>.\<close>

lemma own_empty:
  assumes own: "own ops ok m0 [] m" and inv0: "manager_inv ops ok m0"
  shows "same_entries ops m0 m" and "manager_inv ops ok m"
    and "lookup ops m0 n = Some l \<Longrightarrow> lookup ops m n = Some l"
proof -
  show same: "same_entries ops m0 m" and inv: "manager_inv ops ok m"
    using own by (simp_all add: own_def same_entries_def)
  have reg: "registered ops m k = registered ops m0 k" for k using own_registered [OF own] by simp
  have ok: "ok (link_ctx m0)" "ok (link_ctx m)" using inv0 inv by (simp_all add: inv_ctx)
  have key: "lookup ops m k = lookup ops m0 k" if "registered ops m0 k" for k
  proof -
    have "committed_entry ops m k = committed_entry ops m0 k" using same by (simp add: same_entries_def)
    then have "map_option fst (lc_view ops (link_ctx m) k) = map_option fst (lc_view ops (link_ctx m0) k)"
      by (cases "lc_view ops (link_ctx m) k"; cases "lc_view ops (link_ctx m0) k")
        (auto simp: committed_entry_def)
    then show ?thesis
      using that reg lookup_key [OF ok(1), of k] lookup_key [OF ok(2), of k]
      by (auto split: option.splits)
  qed
  assume l: "lookup ops m0 n = Some l"
  show "lookup ops m n = Some l"
  proof (cases "registered ops m0 n")
    case True
    with key l show ?thesis by simp
  next
    case False
    then have "aliases m0 n \<noteq> None"
      using l by (auto simp: lookup_cases [OF ok(1)] registered_def split: option.splits)
    then obtain c where c: "aliases m0 n = Some c" by auto
    have "inv_aliases ops m0" using inv0 by (simp add: manager_inv_def base_inv_def)
    from lookup_alias [OF ok(1) this False c] l have c2: "lookup ops m0 c = Some l" by simp
    from c have "aliases m n = Some c" using own by (auto simp: own_def map_le_def dom_def)
    moreover have "inv_aliases ops m" using inv by (simp add: manager_inv_def base_inv_def)
    ultimately have "lookup ops m n = lookup ops m c"
      using lookup_alias [OF ok(2)] False reg by blast
    with key [OF alias_registered [OF inv0 c]] c2 show ?thesis by simp
  qed
qed

end

end
