(* ===== verification/Dlopen_Hoare.thy ===== *)
theory Dlopen_Hoare
  imports Dlopen_Inv
begin

text \<open>
  A Hoare calculus for the actions of a \<open>dlopen\<close> call that run under the lock. What such a
  call needs of the registry is the locale \<open>owned_registry\<close>: an ownership predicate
  \<open>J A m\<close>, where \<open>A\<close> are the names the call has reserved, that every operation of the
  call and every interference of other threads keeps. It holds in two ways: with the rest of
  the registry frozen (\<open>own\<close>), and with other threads at work that keep the invariant, leave
  the reservations of the call alone and register no new name while the call waits
  (\<open>holds\<close>).
\<close>

section \<open>The interface to the registry\<close>

locale owned_registry = link_context ops ok
  for ops :: "('c, 'i) link_ops" and ok :: "'c \<Rightarrow> bool" +
  fixes J :: "string list \<Rightarrow> 'c manager \<Rightarrow> bool"
    and others :: "nat \<Rightarrow> 'c manager \<Rightarrow> 'c manager"
  assumes J_inv: "J A m \<Longrightarrow> manager_inv ops ok m"
    and J_pending: "J A m \<Longrightarrow> k \<in> set A \<Longrightarrow> im_get (pending m) k \<noteq> None"
    and J_alias: "J A m \<Longrightarrow> registered ops m k \<Longrightarrow> \<exists>m'. add_alias ops k a m = Ok m' \<and> J A m'"
    and J_reserve: "J A m \<Longrightarrow> \<not> registered ops m k \<Longrightarrow>
          \<exists>m'. reserve_pending ops k full i f m = Ok m' \<and> J (btree_insert k A) m'"
    and J_remove: "J A m \<Longrightarrow> k \<in> set A \<Longrightarrow> \<exists>m'. Registry.remove ops k m = Ok m' \<and> J (remove1 k A) m'"
    and J_others: "J A m \<Longrightarrow> J A (others t m)"
    and others_fresh: "J A m \<Longrightarrow> registered ops (others t m) k \<Longrightarrow> registered ops m k"
begin

lemma J_ok: "J A m \<Longrightarrow> ok (link_ctx m)"
  by (rule inv_ctx) (rule J_inv)

lemma J_reserve_registered:
  assumes "J A m" "\<not> registered ops m k" "reserve_pending ops k full i f m = Ok m'"
  shows "registered ops m' j \<longleftrightarrow> registered ops m j \<or> j = k"
proof -
  let ?m1 = "add_identity_opt i k (add_pending_reservation k (normalized_flags full f) m)"
  from inv_reserve_pending [OF J_inv [OF assms(1)] assms(2), of full i f] assms(3)
  have "same_libs ops ?m1 m'" by auto
  from same_libs_registered [OF this] show ?thesis
    by (auto simp: registered_def add_pending_reservation_def)
qed

text \<open>Giving back every reservation.\<close>

lemma J_rollback: "J A m \<Longrightarrow> \<exists>m'. remove_added_libraries ops A m = Ok m' \<and> J [] m'"
proof (induction A arbitrary: m)
  case (Cons k A)
  from J_remove [OF Cons.prems, of k] obtain m1 where
    m1: "Registry.remove ops k m = Ok m1" "J A m1" by auto
  from Cons.IH [OF m1(2)] m1(1) show ?case by auto
qed simp

end

text \<open>Other threads at work.\<close>

definition holds :: "('c, 'i) link_ops \<Rightarrow> ('c \<Rightarrow> bool) \<Rightarrow> string list \<Rightarrow> 'c manager \<Rightarrow> bool" where
  "holds ops ok A m \<longleftrightarrow> manager_inv ops ok m \<and> distinct A \<and> (\<forall>k \<in> set A. im_get (pending m) k \<noteq> None)"

definition fair_others ::
  "('c, 'i) link_ops \<Rightarrow> ('c \<Rightarrow> bool) \<Rightarrow> (nat \<Rightarrow> 'c manager \<Rightarrow> 'c manager) \<Rightarrow> bool" where
  "fair_others ops ok others \<longleftrightarrow>
     (\<forall>A t m. holds ops ok A m \<longrightarrow> holds ops ok A (others t m) \<and>
        (\<forall>k. registered ops (others t m) k \<longrightarrow> registered ops m k))"

context link_context
begin

lemma own_registry:
  assumes "manager_inv ops ok m0"
  shows "owned_registry ops ok (own ops ok m0) (\<lambda>t m. m)"
proof (unfold_locales, goal_cases)
  case (3 A m k a) then show ?case by (rule own_alias)
next
  case (4 A m k full i f) then show ?case by (rule own_reserve)
next
  case (5 A m k) then show ?case using own_remove [OF _ _ assms] by blast
qed (auto simp: own_def)

lemma holds_alias:
  assumes "holds ops ok A m" "registered ops m k"
  shows "\<exists>m'. add_alias ops k a m = Ok m' \<and> holds ops ok A m'"
proof -
  have inv: "manager_inv ops ok m" using assms(1) by (simp add: holds_def)
  then have "base_inv ops ok m" by (simp add: manager_inv_def)
  from add_alias_Ok [OF this assms(2), of a] obtain m' where
    m': "add_alias ops k a m = Ok m'" "same_libs ops m m'" by blast
  with inv_add_alias [OF inv assms(2) m'(1)] same_libs_pending_None [OF m'(2)] assms(1) show ?thesis
    by (auto simp: holds_def simp del: not_None_eq)
qed

lemma holds_reserve:
  assumes "holds ops ok A m" "\<not> registered ops m k"
  shows "\<exists>m'. reserve_pending ops k full i f m = Ok m' \<and> holds ops ok (btree_insert k A) m'"
proof -
  have inv: "manager_inv ops ok m" using assms(1) by (simp add: holds_def)
  from inv_reserve_pending [OF inv assms(2), of full i f] obtain m' where
    m': "reserve_pending ops k full i f m = Ok m'" "manager_inv ops ok m'"
      "same_libs ops (add_identity_opt i k (add_pending_reservation k (normalized_flags full f) m)) m'"
    by blast
  with same_libs_pending_None [OF m'(3)] assms(1) show ?thesis
    by (auto simp: holds_def add_pending_reservation_def simp del: not_None_eq)
qed

lemma holds_remove:
  assumes "holds ops ok A m" "k \<in> set A"
  shows "\<exists>m'. Registry.remove ops k m = Ok m' \<and> holds ops ok (remove1 k A) m'"
proof -
  have inv: "manager_inv ops ok m" and "registered ops m k"
    using assms by (auto simp: holds_def registered_def)
  from remove_Ok [OF this] obtain m' where
    "Registry.remove ops k m = Ok m'" "manager_inv ops ok m'" "removed_from k m m'" by blast
  with assms show ?thesis by (auto simp: holds_def removed_from_def)
qed

lemma holds_registry:
  assumes "fair_others ops ok others"
  shows "owned_registry ops ok (holds ops ok) others"
proof (unfold_locales, goal_cases)
  case (3 A m k a) then show ?case by (rule holds_alias)
next
  case (4 A m k full i f) then show ?case by (rule holds_reserve)
next
  case (5 A m k) then show ?case by (rule holds_remove)
qed (use assms in \<open>auto simp: holds_def fair_others_def\<close>)

end

section \<open>Triples\<close>

text \<open>
  What the operating system, the path type and \<open>ld.so.cache\<close> have to do: no call panics,
  joining a directory keeps the file name, and so does the cache.
\<close>

definition env_ok :: "os_env \<Rightarrow> bool" where
  "env_ok env \<longleftrightarrow>
     (\<forall>p. \<not> panics (fs_inode env p)) \<and> (\<forall>p n. \<not> panics (fs_read_limit env p n)) \<and>
     (\<forall>p. \<not> panics (fs_read env p)) \<and> (\<forall>p. \<not> panics (fs_open_elf env p)) \<and>
     (\<forall>n. \<not> panics (cached_path env n)) \<and>
     (\<forall>d n. CHR ''/'' \<notin> set n \<longrightarrow> fs_file_name env (fs_join env d n) = fs_file_name env n) \<and>
     (\<forall>n p. cached_path env n = Ok (Some p) \<longrightarrow> fs_file_name env p = fs_file_name env n)"

text \<open>The linker finds every library the registry shows it.\<close>

definition visible_ok :: "('c, 'i) link_ops \<Rightarrow> 'c visible \<Rightarrow> bool" where
  "visible_ok ops visible \<longleftrightarrow>
     (case visible of None \<Rightarrow> True | Some v \<Rightarrow> \<forall>m k. visible_contains ops m k \<longrightarrow> v m k)"

locale dlopen_call = owned_registry "w_ops w" ok J "w_others w"
  for w :: "('c, 'i) world" and ok :: "'c \<Rightarrow> bool" and J :: "string list \<Rightarrow> 'c manager \<Rightarrow> bool" +
  assumes env: "env_ok (w_env w)"
begin

definition good :: "'c open_state \<Rightarrow> bool" where
  "good s \<longleftrightarrow> J (os_added s) (os_manager s) \<and> \<not> os_committed s"

definition evolves :: "'c open_state \<Rightarrow> 'c open_state \<Rightarrow> bool" where
  "evolves s s' \<longleftrightarrow> os_flags s' = os_flags s \<and> set (os_added s) \<subseteq> set (os_added s') \<and>
     (\<forall>k. registered (w_ops w) (os_manager s') k \<longrightarrow>
        registered (w_ops w) (os_manager s) k \<or> k \<in> set (os_added s'))"

text \<open>A name the call has reserved already, or nobody has registered: it may be reserved.\<close>

definition reservable :: "string \<Rightarrow> 'c open_state \<Rightarrow> bool" where
  "reservable k s \<longleftrightarrow> k \<in> set (os_added s) \<or> \<not> registered (w_ops w) (os_manager s) k"

definition valid ::
  "('c open_state \<Rightarrow> bool) \<Rightarrow> ('c, 'a) action \<Rightarrow> ('a \<Rightarrow> 'c open_state \<Rightarrow> bool) \<Rightarrow> bool" where
  "valid P p Q \<longleftrightarrow> (\<forall>s r s'. good s \<longrightarrow> os_locked s \<longrightarrow> P s \<longrightarrow> p s = Some (r, s') \<longrightarrow>
     good s' \<and> os_locked s' \<and> evolves s s' \<and> (\<forall>a. r = Ok a \<longrightarrow> Q a s') \<and> \<not> panics r)"

lemma validI:
  assumes "\<And>s r s'. good s \<Longrightarrow> os_locked s \<Longrightarrow> P s \<Longrightarrow> p s = Some (r, s') \<Longrightarrow>
    good s' \<and> os_locked s' \<and> evolves s s' \<and> (\<forall>a. r = Ok a \<longrightarrow> Q a s') \<and> \<not> panics r"
  shows "valid P p Q"
  using assms unfolding valid_def by blast

lemma validD:
  assumes "valid P p Q" "good s" "os_locked s" "P s" "p s = Some (r, s')"
  shows "good s'" "os_locked s'" "evolves s s'" "r = Ok a \<Longrightarrow> Q a s'" "\<not> panics r"
  using assms unfolding valid_def by blast+

lemma evolves_refl [simp]: "evolves s s"
  by (simp add: evolves_def)

lemma evolves_trans: "evolves s s' \<Longrightarrow> evolves s' s'' \<Longrightarrow> evolves s s''"
  unfolding evolves_def by (auto dest: subsetD)

lemma reservable_evolves: "reservable k s \<Longrightarrow> evolves s s' \<Longrightarrow> reservable k s'"
  unfolding reservable_def evolves_def by blast

lemma v_weaken:
  "valid P p Q \<Longrightarrow> (\<And>s. P' s \<Longrightarrow> P s) \<Longrightarrow> (\<And>a s. good s \<Longrightarrow> Q a s \<Longrightarrow> Q' a s) \<Longrightarrow>
     valid P' p Q'"
  unfolding valid_def by blast

lemma v_pre: "valid P p Q \<Longrightarrow> (\<And>s. P' s \<Longrightarrow> P s) \<Longrightarrow> valid P' p Q"
  unfolding valid_def by blast

lemma v_frame:
  assumes "valid P p Q"
  shows "valid (\<lambda>s. P s \<and> reservable k s) p (\<lambda>a s. Q a s \<and> reservable k s)"
  using assms reservable_evolves unfolding valid_def by blast

lemma v_ret: "(\<And>s. P s \<Longrightarrow> Q a s) \<Longrightarrow> valid P (ret a) Q"
  by (simp add: valid_def ret_def)

lemma v_fail: "valid P (fail e) Q"
  by (simp add: valid_def fail_def)

lemma v_lift: "\<not> panics r \<Longrightarrow> valid P (lift_res r) (\<lambda>a s. P s \<and> r = Ok a)"
  by (simp add: valid_def lift_res_def)

lemma v_seq:
  assumes p: "valid P p Q" and f: "\<And>a. valid (Q a) (f a) R"
  shows "valid P (seq p f) R"
proof (rule validI)
  fix s r s'
  assume s: "good s" "os_locked s" "P s" and run: "seq p f s = Some (r, s')"
  then obtain r1 s1 where r1: "p s = Some (r1, s1)" by (auto simp: seq_def split: option.splits)
  note p1 = validD [OF p s r1]
  show "good s' \<and> os_locked s' \<and> evolves s s' \<and> (\<forall>a. r = Ok a \<longrightarrow> R a s') \<and> \<not> panics r"
  proof (cases r1)
    case (Ok a)
    with run r1 have "f a s1 = Some (r, s')" by (simp add: seq_def)
    from validD [OF f p1(1,2) p1(4) [OF Ok] this] p1(3) show ?thesis by (blast intro: evolves_trans)
  qed (use run r1 p1 in \<open>auto simp: seq_def\<close>)
qed

lemma v_get_added: "valid P get_added (\<lambda>a s. P s \<and> os_added s = a)"
  by (simp add: valid_def get_added_def)

lemma v_get_flags: "valid P get_flags (\<lambda>f s. P s \<and> os_flags s = f)"
  by (simp add: valid_def get_flags_def)

lemma v_with_manager: "valid P (with_manager f) (\<lambda>a s. P s \<and> a = f (os_manager s))"
  by (simp add: valid_def with_manager_def)

lemma v_manager_mut:
  assumes "\<And>s. good s \<Longrightarrow> P s \<Longrightarrow> \<exists>a m. f (os_manager s) = Ok (a, m) \<and> J (os_added s) m \<and>
      (\<forall>k. registered (w_ops w) m k \<longrightarrow> registered (w_ops w) (os_manager s) k \<or> k \<in> set (os_added s)) \<and>
      Q a (s\<lparr>os_manager := m\<rparr>)"
  shows "valid P (with_manager_mut f) Q"
proof (rule validI)
  fix s r s'
  assume s: "good s" "os_locked s" "P s" and run: "with_manager_mut f s = Some (r, s')"
  from assms [OF s(1,3)] obtain a m where am: "f (os_manager s) = Ok (a, m)" "J (os_added s) m"
    "\<forall>k. registered (w_ops w) m k \<longrightarrow> registered (w_ops w) (os_manager s) k \<or> k \<in> set (os_added s)"
    "Q a (s\<lparr>os_manager := m\<rparr>)" by blast
  with s run show "good s' \<and> os_locked s' \<and> evolves s s' \<and> (\<forall>a. r = Ok a \<longrightarrow> Q a s') \<and> \<not> panics r"
    by (auto simp: with_manager_mut_def good_def evolves_def)
qed

section \<open>Waiting\<close>

lemma good_wait:
  assumes "good s"
  shows "good (wait_for_other_thread w s)" "os_locked (wait_for_other_thread w s)"
    "evolves s (wait_for_other_thread w s)" "os_added (wait_for_other_thread w s) = os_added s"
proof -
  have J: "J (os_added s) (os_manager s)" using assms by (simp add: good_def)
  show "good (wait_for_other_thread w s)" "os_locked (wait_for_other_thread w s)"
    "evolves s (wait_for_other_thread w s)" "os_added (wait_for_other_thread w s) = os_added s"
    using assms J_others [OF J] others_fresh [OF J]
    by (auto simp: wait_for_other_thread_def lock_write_def take_lock_def good_def evolves_def)
qed

lemma v_await:
  "valid (\<lambda>s. P (os_added s)) (await_registered n w added look)
     (\<lambda>entry s. P (os_added s) \<and> look (os_manager s) = entry \<and> (\<forall>lib. entry = Some lib \<longrightarrow> ready added lib))"
proof (induction n)
  case 0
  show ?case by (simp add: valid_def)
next
  case (Suc n)
  show ?case
  proof (rule validI)
    fix s r s'
    let ?Q = "\<lambda>entry s. P (os_added s) \<and> look (os_manager s) = entry \<and>
      (\<forall>lib. entry = Some lib \<longrightarrow> ready added lib)"
    assume s: "good s" "os_locked s" "P (os_added s)" and run: "await_registered (Suc n) w added look s = Some (r, s')"
    show "good s' \<and> os_locked s' \<and> evolves s s' \<and> (\<forall>a. r = Ok a \<longrightarrow> ?Q a s') \<and> \<not> panics r"
    proof (cases "look (os_manager s)")
      case None
      with s run show ?thesis by auto
    next
      case (Some lib)
      show ?thesis
      proof (cases "ready added lib")
        case True
        with s run Some show ?thesis by auto
      next
        case False
        with s(2) run Some have "await_registered n w added look (wait_for_other_thread w s) = Some (r, s')" by simp
        from validD [OF Suc.IH good_wait(1,2) [OF s(1)] _ this] good_wait(3,4) [OF s(1)] s(3)
        show ?thesis by (auto intro: evolves_trans)
      qed
    qed
  qed
qed

text \<open>What a lookup says of the registry at that moment.\<close>

definition findable :: "library_lookup \<Rightarrow> 'c manager \<Rightarrow> bool" where
  "findable lib m \<longleftrightarrow> registered (w_ops w) m (lookup_shortname lib) \<and>
     (is_relocated lib \<longrightarrow> lc_view (w_ops w) (link_ctx m) (lookup_shortname lib) \<noteq> None)"

lemma lookup_findable: "J A m \<Longrightarrow> lookup (w_ops w) m n = Some lib \<Longrightarrow> findable lib m"
  using lookup_registered [OF J_ok, of A m n lib] lookup_relocated_view [OF J_ok, of A m n]
  by (cases lib) (auto simp: findable_def)

lemma identity_findable: "J A m \<Longrightarrow> lookup_by_identity (w_ops w) m i = Some lib \<Longrightarrow> findable lib m"
  using lookup_findable by (auto simp: lookup_by_identity_def split: option.splits)

lemma v_alias:
  "valid (\<lambda>s. P (os_added s) \<and> findable lib (os_manager s))
     (with_manager_mut (\<lambda>m. bind_res (add_alias (w_ops w) (lookup_shortname lib) a m) (\<lambda>m'. Ok ((), m'))))
     (\<lambda>_ s. P (os_added s) \<and> findable lib (os_manager s))"
proof (rule v_manager_mut)
  fix s assume s: "good s" "P (os_added s) \<and> findable lib (os_manager s)"
  let ?k = "lookup_shortname lib"
  have J: "J (os_added s) (os_manager s)" and reg: "registered (w_ops w) (os_manager s) ?k"
    using s by (simp_all add: good_def findable_def)
  from J_alias [OF J reg, of a] obtain m' where
    m': "add_alias (w_ops w) ?k a (os_manager s) = Ok m'" "J (os_added s) m'" by blast
  have "same_libs (w_ops w) (os_manager s) m'"
    using add_alias_Ok [of "os_manager s" ?k a] J_inv [OF J] reg m'(1) by (auto simp: manager_inv_def)
  from same_libs_registered [OF this] same_libs_view_None [OF this, of ?k] m' s
  show "\<exists>u m. bind_res (add_alias (w_ops w) ?k a (os_manager s)) (\<lambda>m'. Ok ((), m')) = Ok (u, m) \<and>
      J (os_added s) m \<and>
      (\<forall>k. registered (w_ops w) m k \<longrightarrow> registered (w_ops w) (os_manager s) k \<or> k \<in> set (os_added s)) \<and>
      P (os_added (s\<lparr>os_manager := m\<rparr>)) \<and> findable lib (os_manager (s\<lparr>os_manager := m\<rparr>))"
    by (simp add: findable_def del: not_None_eq)
qed

lemma v_await_identity:
  "valid (\<lambda>s. P (os_added s)) (await_registered n w added (\<lambda>m. lookup_by_identity (w_ops w) m ident))
     (\<lambda>entry s. P (os_added s) \<and> (\<forall>lib. entry = Some lib \<longrightarrow>
        findable lib (os_manager s) \<and> ready added lib))"
  by (rule v_weaken [OF v_await [of P]]) (auto simp: good_def dest: identity_findable)

lemma v_inode_fallback:
  "valid (\<lambda>s. P (os_added s)) (inode_fallback n w added path shortname) (\<lambda>entry s. P (os_added s) \<and>
     (\<forall>lib. entry = Some lib \<longrightarrow> findable lib (os_manager s) \<and> ready added lib))"
  unfolding inode_fallback_def
proof (rule v_seq [OF v_lift])
  show "\<not> panics (fs_inode (w_env w) path)" using env by (simp add: env_ok_def)
next
  fix ident
  show "valid (\<lambda>s. P (os_added s) \<and> fs_inode (w_env w) path = Ok ident)
     (seq (await_registered n w added (\<lambda>m. lookup_by_identity (w_ops w) m ident)) (\<lambda>entry.
       (case entry of
          Some lib \<Rightarrow>
            if ready added lib
            then seq (with_manager_mut (\<lambda>m. bind_res (add_alias (w_ops w) (lookup_shortname lib) shortname m)
                        (\<lambda>m'. Ok ((), m')))) (\<lambda>_. ret entry)
            else ret entry
        | None \<Rightarrow> ret entry)))
     (\<lambda>entry s. P (os_added s) \<and>
       (\<forall>lib. entry = Some lib \<longrightarrow> findable lib (os_manager s) \<and> ready added lib))"
  proof (rule v_seq [OF v_pre [OF v_await_identity [of P]]], goal_cases)
    case (2 entry)
    show ?case
    proof (cases entry)
      case None
      then show ?thesis by (auto intro!: v_ret)
    next
      case (Some lib)
      then show ?thesis
        by (auto intro!: v_seq [OF v_pre [OF v_alias [of P lib]]] v_ret)
    qed
  qed auto
qed

end

end
