(* ===== verification/Dlopen_Resolve.thy ===== *)
theory Dlopen_Resolve
  imports Dlopen_Hoare
begin

text \<open>
  The resolver under the calculus of \<open>Dlopen_Hoare\<close>: a request keeps the ownership of the
  call, never panics, and reserves a name only when it is free.
\<close>

context dlopen_call
begin

lemma v_visible_is_some_and:
  "valid P (visible_is_some_and visible key)
     (\<lambda>b s. P s \<and> (\<forall>v. visible = Some v \<longrightarrow> b = v (os_manager s) key))"
  unfolding visible_is_some_and_def
  by (cases visible) (auto intro!: v_ret v_weaken [OF v_with_manager [of P]])

lemma v_visible_map_or_true:
  "valid P (visible_map_or_true visible key)
     (\<lambda>b s. P s \<and> (if visible = None then b else b = the visible (os_manager s) key))"
  unfolding visible_map_or_true_def
  by (cases visible) (auto intro!: v_ret v_weaken [OF v_with_manager [of P]])

lemma v_resolve_found:
  "valid P (resolve_found lib visible)
     (\<lambda>r s. P s \<and> (r = None \<longrightarrow> (\<exists>v. visible = Some v \<and> \<not> v (os_manager s) (lookup_shortname lib))))"
  unfolding resolve_found_def
  by (rule v_seq [OF v_visible_map_or_true]) (auto intro!: v_ret split: if_splits)

text \<open>
  A library that is found but invisible to the linker is one this call is loading; the
  requested name is then one of its reservations or an alias.
\<close>

lemma invisible_reservable:
  assumes s: "good s" and vis: "visible_ok (w_ops w) (Some v)"
    and l: "lookup (w_ops w) (os_manager s) sn = Some lib" and r: "ready (Some (os_added s)) lib"
    and inv: "\<not> v (os_manager s) (lookup_shortname lib)"
  shows "reservable sn s"
proof -
  have ok: "ok (link_ctx (os_manager s))" using s by (auto simp: good_def intro: J_ok)
  have "\<not> is_relocated lib"
  proof
    assume "is_relocated lib"
    then obtain k nm where lib: "lib = Relocated k nm" by (cases lib) auto
    with lookup_relocated_view [OF ok] l obtain lb mt where
      "lc_view (w_ops w) (link_ctx (os_manager s)) k = Some (lb, mt)" by blast
    then have "lc_contains_key (w_ops w) (link_ctx (os_manager s)) k" using ok by (simp add: view_contains_key)
    moreover have "lookup (w_ops w) (os_manager s) k = Some lib" using lookup_canonical [OF ok l] lib by simp
    ultimately have "visible_contains (w_ops w) (os_manager s) k"
      using lib by (simp add: visible_contains_def canonical_name_owned_def)
    with vis inv lib show False by (simp add: visible_ok_def)
  qed
  with r have "lookup_shortname lib \<in> set (os_added s)" by (simp add: ready_def)
  then show ?thesis
    using lookup_total_on_registered [OF ok, of sn] l by (auto simp: reservable_def)
qed

lemma v_by_name:
  assumes vis: "visible_ok (w_ops w) visible"
  shows "valid (\<lambda>_. True) (resolve_existing_by_name n w sn visible) (\<lambda>r s. r = None \<longrightarrow> reservable sn s)"
  unfolding resolve_existing_by_name_def
proof (rule v_seq [OF v_visible_is_some_and], goal_cases)
  case (1 b)
  let ?A = "\<lambda>added s. os_added s = added"
  have wait: "valid (?A added) (wait_for_library n w (Some added) sn) (\<lambda>r s. ?A added s \<and>
      lookup (w_ops w) (os_manager s) sn = r \<and> (\<forall>lib. r = Some lib \<longrightarrow> ready (Some added) lib))" for added
    unfolding wait_for_library_def by (rule v_await)
  have "valid (\<lambda>s. ?A added s \<and> lookup (w_ops w) (os_manager s) sn = r \<and>
        (\<forall>lib. r = Some lib \<longrightarrow> ready (Some added) lib))
      (case r of None \<Rightarrow> ret None | Some lib \<Rightarrow> resolve_found lib visible)
      (\<lambda>r s. r = None \<longrightarrow> reservable sn s)" for added r
  proof (cases r)
    case None
    have "reservable sn s" if "good s" "lookup (w_ops w) (os_manager s) sn = None" for s
      using that lookup_total_on_registered [OF J_ok, of _ "os_manager s" sn]
      by (auto simp: reservable_def good_def)
    then show ?thesis using None by (auto simp: valid_def ret_def)
  next
    case (Some lib)
    let ?P = "\<lambda>s. ?A added s \<and> lookup (w_ops w) (os_manager s) sn = r \<and>
        (\<forall>lib. r = Some lib \<longrightarrow> ready (Some added) lib)"
    have "valid ?P (resolve_found lib visible) (\<lambda>r s. r = None \<longrightarrow> reservable sn s)"
      by (rule v_weaken [OF v_resolve_found [of ?P]]) (use Some vis in \<open>auto intro: invisible_reservable\<close>)
    then show ?thesis using Some by simp
  qed
  then show ?case
    by (auto intro!: v_ret v_seq [OF v_get_added] v_seq [OF v_pre [OF wait]])
qed

lemma v_by_path:
  "valid (reservable sn) (resolve_existing_by_path n w path sn visible) (\<lambda>_. reservable sn)"
proof -
  have "valid (\<lambda>_. True) (resolve_existing_by_path n w path sn visible) (\<lambda>_ _. True)"
    unfolding resolve_existing_by_path_def
  proof (rule v_seq [OF v_visible_is_some_and], goal_cases)
    case (1 b)
    have fallback: "valid (\<lambda>_. True) (inode_fallback n w (Some added) path sn) (\<lambda>_ _. True)" for added
      by (rule v_weaken [OF v_inode_fallback [of "\<lambda>_. True"]]) auto
    have "valid (\<lambda>_. True) (case r of None \<Rightarrow> ret None | Some lib \<Rightarrow> resolve_found lib visible) (\<lambda>_ _. True)" for r
      by (cases r) (auto intro!: v_ret v_weaken [OF v_resolve_found [of "\<lambda>_. True"]])
    then show ?case
      by (auto intro!: v_ret v_seq [OF v_pre [OF v_get_added [of "\<lambda>_. True"]]] v_seq [OF v_pre [OF fallback]])
  qed
  from v_frame [OF this, of sn] show ?thesis by simp
qed

lemma load_candidate_safe: "\<not> panics (load_candidate (w_env w) path bytes)"
proof -
  have "\<not> panics (load_candidate_file (w_env w) path)"
    unfolding load_candidate_file_def
    by (rule not_panics_bind; (rule if_split [THEN iffD2], intro conjI impI)?;
        (rule not_panics_bind)?) (use env in \<open>auto simp: env_ok_def\<close>)
  then show ?thesis
    by (simp add: load_candidate_def load_candidate_bytes_def split: option.splits)
qed

lemma v_reserve:
  "valid (reservable sn) (resolver_reserve_pending w sn path) (\<lambda>_ s. sn \<in> set (os_added s))"
proof (rule validI)
  fix s r s'
  assume s: "good s" "os_locked s" "reservable sn s" and run: "resolver_reserve_pending w sn path s = Some (r, s')"
  show "good s' \<and> os_locked s' \<and> evolves s s' \<and> (\<forall>a. r = Ok a \<longrightarrow> sn \<in> set (os_added s')) \<and> \<not> panics r"
  proof (cases "sn \<in> set (os_added s)")
    case True
    with run s show ?thesis
      by (auto simp: resolver_reserve_pending_def seq_def get_added_def ret_def)
  next
    case False
    let ?i = "case fs_inode (w_env w) path of Ok i \<Rightarrow> Some i | Err e \<Rightarrow> None | Panic p \<Rightarrow> None"
    have J: "J (os_added s) (os_manager s)" using s(1) by (simp add: good_def)
    have fresh: "\<not> registered (w_ops w) (os_manager s) sn" using s(3) False by (simp add: reservable_def)
    from J_reserve [OF J fresh, of path ?i "os_flags s"] obtain m' where
      m': "reserve_pending (w_ops w) sn path ?i (os_flags s) (os_manager s) = Ok m'"
        "J (btree_insert sn (os_added s)) m'" by blast
    with run False s(2) have "r = Ok ()" "s' = s\<lparr>os_manager := m', os_added := btree_insert sn (os_added s)\<rparr>"
      by (auto simp: resolver_reserve_pending_def seq_def get_added_def get_flags_def with_manager_mut_def Let_def)
    with m' s J_reserve_registered [OF J fresh m'(1)] show ?thesis
      by (auto simp: good_def evolves_def)
  qed
qed

lemma v_resolve_first:
  assumes "\<And>x. x \<in> set xs \<Longrightarrow> valid (reservable sn) (resolve x) (\<lambda>_ _. True)"
  shows "valid (reservable sn) (resolve_first resolve xs) (\<lambda>_. reservable sn)"
  using assms
proof (induction xs)
  case Nil
  show ?case by (simp add: valid_def)
next
  case (Cons x xs)
  have first: "valid (reservable sn) (resolve x) (\<lambda>_ _. True)" using Cons.prems by simp
  have rest: "valid (reservable sn) (resolve_first resolve xs) (\<lambda>_. reservable sn)"
    using Cons by simp
  show ?case
  proof (rule validI)
    fix s r s'
    assume s: "good s" "os_locked s" "reservable sn s" and run: "resolve_first resolve (x # xs) s = Some (r, s')"
    then obtain r1 s1 where r1: "resolve x s = Some (r1, s1)" by (auto split: option.splits)
    note p1 = validD [OF first s r1]
    have res1: "reservable sn s1" using reservable_evolves [OF s(3) p1(3)] .
    show "good s' \<and> os_locked s' \<and> evolves s s' \<and> (\<forall>a. r = Ok a \<longrightarrow> reservable sn s') \<and> \<not> panics r"
    proof (cases "\<exists>e. r1 = Err e \<and> should_continue_library_search e")
      case True
      with run r1 have "resolve_first resolve xs s1 = Some (r, s')" by auto
      from validD [OF rest p1(1,2) res1 this] p1(3) show ?thesis by (blast intro: evolves_trans)
    next
      case False
      with run r1 p1 res1 show ?thesis by (cases r1) auto
    qed
  qed
qed

lemma v_script:
  assumes "\<And>l. valid (\<lambda>_. True) (request l) (\<lambda>_ _. True)"
  shows "valid (reservable sn) (resolve_script request libs) (\<lambda>_ _. True)"
proof -
  have "valid (reservable sn) (request l) (\<lambda>_ _. True)" for l
    using assms by (rule v_pre) simp
  note first = v_resolve_first [OF this, of _ libs]
  show ?thesis
    unfolding resolve_script_def
    by (rule v_seq [OF first]) (auto intro!: v_ret v_fail split: option.splits)
qed

lemma v_candidate:
  assumes request: "\<And>l. valid (\<lambda>_. True) (request l) (\<lambda>_ _. True)"
    and name: "fs_file_name (w_env w) path = sn"
  shows "valid (reservable sn) (resolve_candidate_path n w request visible bytes path) (\<lambda>_ _. True)"
  unfolding resolve_candidate_path_def Let_def name
proof (rule v_seq [OF v_by_path], goal_cases)
  case (1 found)
  have "valid (reservable sn) (case input of
       Reader r \<Rightarrow> seq (resolver_reserve_pending w sn path) (\<lambda>_. ret (Load sn r))
     | Script libs \<Rightarrow> resolve_script request libs) (\<lambda>_ _. True)" for input
    using v_script [OF request] by (cases input) (auto intro!: v_seq [OF v_reserve] v_ret)
  then show ?case
    by (cases found) (auto intro!: v_ret v_seq [OF v_lift [OF load_candidate_safe]] intro: v_pre)
qed

text \<open>The request itself, for any fuel and any linker script.\<close>

lemma v_request:
  "visible_ok (w_ops w) visible \<Longrightarrow>
     valid (\<lambda>_. True) (resolve_request n w visible rpath runpath bytes lib_name) (\<lambda>_ _. True)"
proof (induction n arbitrary: bytes lib_name)
  case 0
  show ?case by (simp add: valid_def)
next
  case (Suc n)
  let ?sn = "fs_file_name (w_env w) lib_name"
  let ?candidate = "resolve_candidate_path n w (resolve_request n w visible rpath runpath None) visible bytes"
  have cand: "valid (reservable ?sn) (?candidate path) (\<lambda>_ _. True)"
    if "fs_file_name (w_env w) path = ?sn" for path
    by (rule v_candidate [OF Suc.IH [OF Suc.prems] that])
  have dirs: "valid (reservable ?sn) (resolve_first ?candidate (map (\<lambda>d. fs_join (w_env w) d lib_name) ds))
      (\<lambda>_. reservable ?sn)" if "CHR ''/'' \<notin> set lib_name" for ds
    by (rule v_resolve_first, rule cand) (use env that in \<open>auto simp: env_ok_def\<close>)
  have cached: "valid (\<lambda>s. reservable ?sn s \<and> cached_path (w_env w) lib_name = Ok cached)
      (case cached of None \<Rightarrow> ret None | Some path \<Rightarrow> resolve_first ?candidate [path])
      (\<lambda>_. reservable ?sn)" for cached
  proof (cases cached)
    case (Some path)
    show ?thesis
    proof (cases "cached_path (w_env w) lib_name = Ok (Some path)")
      case True
      then have "fs_file_name (w_env w) path = ?sn" using env by (auto simp: env_ok_def)
      then have "valid (reservable ?sn) (resolve_first ?candidate [path]) (\<lambda>_. reservable ?sn)"
        by (intro v_resolve_first) (simp add: cand)
      with Some show ?thesis by (auto intro: v_pre)
    qed (simp add: Some valid_def)
  qed (auto intro: v_ret)
  have safe: "\<not> panics (cached_path (w_env w) lib_name)" using env by (simp add: env_ok_def)
  show ?case
    unfolding resolve_request.simps Let_def
    by (rule v_seq [OF v_by_name [OF Suc.prems]])
      (auto intro!: v_ret v_fail v_seq [OF dirs] v_seq [OF v_lift [OF safe]] v_seq [OF cached]
        v_pre [OF cand] v_pre [OF v_seq [OF dirs]] split: option.splits if_splits)
qed

end

end
