(* ===== verification/Dlopen_Run.thy ===== *)
theory Dlopen_Run
  imports Dlopen_Resolve
begin

text \<open>
  A whole \<open>dlopen\<close> call: the conversation with the linker, publishing and rolling back. The
  linker of \<open>elf_loader\<close> is a parameter; what the crate relies on is \<open>linker_ok\<close>:

  \<^item> a dependency request sees at least the libraries the registry shows as visible;
  \<^item> once the linker has asked for a relocation plan it resolves no more names, because
    \<open>prepare_relocation\<close> has given up the lock by then;
  \<^item> the modules it reports as committed are in the link context it hands back.
\<close>

definition plans :: "('c, 'i) linker_call \<Rightarrow> bool" where
  "plans call \<longleftrightarrow> (case call of Call_Plan _ _ \<Rightarrow> True | Linked _ _ _ \<Rightarrow> True | Link_Error _ \<Rightarrow> True | _ \<Rightarrow> False)"

definition linker_ok ::
  "('c, 'i) link_ops \<Rightarrow> ('c \<Rightarrow> bool) \<Rightarrow> ('l \<Rightarrow> bool) \<Rightarrow> ('c, 'i, 'l) linker \<Rightarrow> bool" where
  "linker_ok ops ok planned lk \<longleftrightarrow> (\<forall>l a call l'. lk_next lk l a = (call, l') \<longrightarrow>
     (planned l \<longrightarrow> planned l' \<and> plans call) \<and>
     (case call of
        Call_Resolve_Dependency req \<Rightarrow> visible_ok ops (Some (dr_visible req))
      | Call_Plan _ _ \<Rightarrow> planned l'
      | Linked root c ids \<Rightarrow> ok c \<and> (\<forall>i \<in> set ids. lc_contains ops c i)
      | _ \<Rightarrow> True))"

text \<open>The root of a finished link is one of the committed modules, under its short name.\<close>

definition linker_roots :: "('c, 'i) link_ops \<Rightarrow> ('c, 'i, 'l) linker \<Rightarrow> bool" where
  "linker_roots ops lk \<longleftrightarrow> (\<forall>l a root c ids l'. lk_next lk l a = (Linked root c ids, l') \<longrightarrow>
     (\<exists>i \<in> set ids. lc_key ops c i = Some (dylib_shortname root)))"

locale linking_call = dlopen_call w ok J
  for w :: "('c, 'i) world" and ok :: "'c \<Rightarrow> bool" and J :: "string list \<Rightarrow> 'c manager \<Rightarrow> bool" +
  fixes lk :: "('c, 'i, 'l) linker" and planned :: "'l \<Rightarrow> bool"
  assumes linker: "linker_ok (w_ops w) ok planned lk"
begin

lemma v_load_root: "valid (\<lambda>_. True) (load_root n w key) (\<lambda>_ _. True)"
proof (rule validI)
  fix s r s'
  assume s: "good s" "os_locked s" and run: "load_root n w key s = Some (r, s')"
  have vis: "visible_ok (w_ops w) None" by (simp add: visible_ok_def)
  have "good (s\<lparr>os_root_bytes := None\<rparr>)" "os_locked (s\<lparr>os_root_bytes := None\<rparr>)"
    using s by (simp_all add: good_def)
  note * = validD [OF v_request [OF vis] this] validD [OF v_request [OF vis] s]
  have "evolves (s\<lparr>os_root_bytes := None\<rparr>) s' \<Longrightarrow> evolves s s'" by (simp add: evolves_def)
  with run show "good s' \<and> os_locked s' \<and> evolves s s' \<and> (\<forall>a. r = Ok a \<longrightarrow> True) \<and> \<not> panics r"
    using * by (auto simp: load_root_def split: if_splits)
qed

lemma v_key_answer:
  assumes "valid (\<lambda>_. True) p (\<lambda>_ _. True)"
  shows "valid (\<lambda>_. True) (key_answer show p) (\<lambda>_ _. True)"
proof (rule validI)
  fix s r s'
  assume s: "good s" "os_locked s" and run: "key_answer show p s = Some (r, s')"
  then obtain r1 where r1: "p s = Some (r1, s')"
    by (auto simp: key_answer_def split: option.splits res.splits)
  from validD [OF assms s _ r1] run r1
  show "good s' \<and> os_locked s' \<and> evolves s s' \<and> (\<forall>a. r = Ok a \<longrightarrow> True) \<and> \<not> panics r"
    by (cases r1) (auto simp: key_answer_def)
qed

lemma v_query: "valid (\<lambda>_. True) (seq (with_manager f) (\<lambda>b. ret (g b))) (\<lambda>_ _. True)"
  by (rule v_seq [OF v_with_manager]) (auto intro: v_ret)

lemma v_direct_deps:
  "valid (\<lambda>_. True) (seq (with_manager (\<lambda>m. visible_direct_deps (w_ops w) m key)) (\<lambda>r.
     seq (lift_res r) (\<lambda>ds. ret (Deps ds)))) (\<lambda>_ _. True)"
proof (rule validI)
  fix s r s'
  assume s: "good s" "os_locked s" and run: "seq (with_manager (\<lambda>m. visible_direct_deps (w_ops w) m key))
     (\<lambda>r. seq (lift_res r) (\<lambda>ds. ret (Deps ds))) s = Some (r, s')"
  from s have "manager_inv (w_ops w) ok (os_manager s)" by (auto simp: good_def intro: J_inv)
  from visible_agree(3) [OF this, of key] obtain ds where
    "visible_direct_deps (w_ops w) (os_manager s) key = Ok ds" by blast
  with s run show "good s' \<and> os_locked s' \<and> evolves s s' \<and> (\<forall>a. r = Ok a \<longrightarrow> True) \<and> \<not> panics r"
    by (auto simp: seq_def with_manager_def lift_res_def ret_def)
qed

lemma v_call:
  assumes "\<not> plans call"
    and "\<And>req. call = Call_Resolve_Dependency req \<Longrightarrow> visible_ok (w_ops w) (Some (dr_visible req))"
  shows "valid (\<lambda>_. True) (handle_call n w show call) (\<lambda>_ _. True)"
  using assms
  by (cases call) (auto simp: handle_call_def plans_def resolve_dependency_def
      intro: v_key_answer v_load_root v_request v_query v_direct_deps)

text \<open>The state between two calls of the linker: the lock is held or the scope is planned.\<close>

definition linking :: "'l \<Rightarrow> 'c open_state \<Rightarrow> bool" where
  "linking l s \<longleftrightarrow> good s \<and> (os_locked s \<or> planned l \<and> os_scope s \<noteq> None)"

lemma plan_linking:
  assumes "good s" "os_locked s \<or> os_scope s \<noteq> None" "plan scope s = Some (r, s')"
  shows "good s' \<and> os_scope s' \<noteq> None \<and> os_flags s' = os_flags s \<and> \<not> panics r"
  using assms
  by (auto simp: plan_def prepare_relocation_def seq_def get_flags_def with_manager_def take_lock_def good_def
      split: option.splits)

lemma step_linking:
  assumes s: "linking l s" and lk: "lk_next lk l a = (call, l')"
    and run: "handle_call n w (lk_show lk) call s = Some (r, s')"
    and call: "\<And>root c ids. call \<noteq> Linked root c ids" "\<And>e. call \<noteq> Link_Error e"
  shows "linking l' s' \<and> os_flags s' = os_flags s \<and> \<not> panics r"
proof -
  have ok: "planned l \<Longrightarrow> planned l' \<and> plans call"
    "\<And>req. call = Call_Resolve_Dependency req \<Longrightarrow> visible_ok (w_ops w) (Some (dr_visible req))"
    "\<And>k sc. call = Call_Plan k sc \<Longrightarrow> planned l'"
    using linker lk by (fastforce simp: linker_ok_def)+
  show ?thesis
  proof (cases "plans call")
    case True
    with call obtain k sc where c: "call = Call_Plan k sc" by (cases call) (auto simp: plans_def)
    with run have "plan sc s = Some (r, s')" by (simp add: handle_call_def)
    from plan_linking [OF _ _ this] s ok(3) [OF c] show ?thesis by (auto simp: linking_def)
  next
    case False
    with s ok(1) have "good s" "os_locked s" by (auto simp: linking_def)
    from validD [OF v_call [OF False ok(2)] this _ run] show ?thesis
      by (auto simp: linking_def evolves_def)
  qed
qed

lemma run_linker_good:
  "linking l s \<Longrightarrow> run_linker k n w lk l a s = Some (r, s') \<Longrightarrow>
     good s' \<and> os_flags s' = os_flags s \<and> \<not> panics r \<and>
     (\<forall>root c ids. r = Ok (root, c, ids) \<longrightarrow> (\<exists>l a l'. lk_next lk l a = (Linked root c ids, l')))"
proof (induction k arbitrary: l a s)
  case (Suc k)
  obtain call l' where lk: "lk_next lk l a = (call, l')" by (cases "lk_next lk l a")
  show ?case
  proof (cases "(\<exists>root c ids. call = Linked root c ids) \<or> (\<exists>e. call = Link_Error e)")
    case True
    with Suc.prems lk show ?thesis by (auto simp: linking_def; blast)
  next
    case False
    with Suc.prems(2) lk have run: "seq (handle_call n w (lk_show lk) call) (\<lambda>a'. run_linker k n w lk l' a') s = Some (r, s')"
      by (cases call) simp_all
    then obtain r1 s1 where r1: "handle_call n w (lk_show lk) call s = Some (r1, s1)"
      by (auto simp: seq_def split: option.splits)
    have s1: "linking l' s1" "os_flags s1 = os_flags s" "\<not> panics r1"
      using step_linking [OF Suc.prems(1) lk r1] False by blast+
    show ?thesis
    proof (cases r1)
      case (Ok a')
      with run r1 have "run_linker k n w lk l' a' s1 = Some (r, s')" by (simp add: seq_def)
      from Suc.IH [OF s1(1) this] s1(2) show ?thesis by simp
    next
      case (Err e)
      with run r1 s1 show ?thesis by (auto simp: seq_def linking_def)
    next
      case (Panic p)
      with s1(3) show ?thesis by simp
    qed
  qed
qed simp

section \<open>Outcomes\<close>

text \<open>A handle on a committed library, which heads its own search list.\<close>

definition handle_ok :: "'c manager \<Rightarrow> elf_library \<Rightarrow> bool" where
  "handle_ok m h \<longleftrightarrow> (\<exists>deps. el_deps h = Some (el_inner h # deps)) \<and>
     (\<exists>k meta. lc_view (w_ops w) (link_ctx m) k = Some (el_inner h, meta))"

definition outcome :: "(error, elf_library) res \<Rightarrow> 'c open_state \<Rightarrow> bool" where
  "outcome r s \<longleftrightarrow>
     (case r of
        Ok h \<Rightarrow> os_committed s \<and> manager_inv (w_ops w) ok (os_manager s) \<and> handle_ok (os_manager s) h
      | Err e \<Rightarrow> good s
      | Panic p \<Rightarrow> \<not> linker_roots (w_ops w) lk)"

lemma library_scope_head:
  assumes inv: "manager_inv (w_ops w) ok m" and s: "library_scope (w_ops w) m name = Some deps"
  shows "\<exists>lib rest k meta. deps = lib # rest \<and> lc_view (w_ops w) (link_ctx m) k = Some (lib, meta)"
proof -
  have ok: "ok (link_ctx m)" using inv by (rule inv_ctx)
  from s obtain c i where i: "committed_id (w_ops w) m c = Some i" "library_scope_by_id (w_ops w) m i = Some deps"
    by (auto simp: library_scope_def split: option.splits)
  have "lc_view (w_ops w) (link_ctx m) c \<noteq> None" using i(1) committed_id_None [OF ok, of c] by auto
  then obtain lib meta where v: "lc_view (w_ops w) (link_ctx m) c = Some (lib, meta)" by auto
  from committed_id_Some [OF ok v] i(1) have "lc_get (w_ops w) (link_ctx m) i = Some lib"
    "lc_contains (w_ops w) (link_ctx m) i" by auto
  with scope_head [OF ok this(2)] i(2) have "\<exists>rest. deps = lib # rest"
    by (cases "lc_dependency_modules (w_ops w) (link_ctx m) i") (auto simp: library_scope_by_id_def Let_def)
  with v show ?thesis by blast
qed

lemma finish_existing_outcome:
  assumes s: "good s" "os_locked s" and l: "findable lib (os_manager s)" "ready None lib"
    and run: "finish_existing w lib s = Some (r, s')"
  shows "outcome r s' \<and> is_Ok r"
proof -
  have inv: "manager_inv (w_ops w) ok (os_manager s)" using s by (auto simp: good_def intro: J_inv)
  obtain k nm where lib: "lib = Relocated k nm" using l(2) by (cases lib) (auto simp: ready_def)
  obtain cl0 meta0 where "lc_view (w_ops w) (link_ctx (os_manager s)) k = Some (cl0, meta0)"
    using l(1) lib by (auto simp: findable_def)
  then have "lookup (w_ops w) (os_manager s) k = Some (Relocated k (dl_name cl0))"
    using lookup_key [OF inv_ctx [OF inv], of k] by (simp add: registered_def)
  from open_existing_Ok [OF inv this, of "os_flags s"] obtain cl deps m' meta' where
    o: "open_existing (w_ops w) k (os_flags s) (os_manager s) =
        Ok (Some \<lparr>el_inner = cl, el_deps = Some (cl # deps)\<rparr>, m')" "manager_inv (w_ops w) ok m'"
      "lc_view (w_ops w) (link_ctx m') = (lc_view (w_ops w) (link_ctx (os_manager s)))(k \<mapsto> (cl, meta'))"
    by blast
  then have "lc_view (w_ops w) (link_ctx m') k = Some (cl, meta')" by simp
  then have "handle_ok m' \<lparr>el_inner = cl, el_deps = Some (cl # deps)\<rparr>" by (auto simp: handle_ok_def)
  with run o s lib show ?thesis
    by (auto simp: finish_existing_def seq_def get_flags_def with_manager_mut_def set_committed_def ret_def
        outcome_def)
qed

lemma lock_write_good:
  "good s \<Longrightarrow> good (lock_write w s) \<and> os_locked (lock_write w s) \<and> os_flags (lock_write w s) = os_flags s \<and>
     os_added (lock_write w s) = os_added s"
  by (auto simp: lock_write_def good_def intro: J_others)

lemma publish_outcome:
  assumes s: "good s" and lk: "lk_next lk l a = (Linked root c ids, l')"
    and run: "seq (complete_relocation w c ids) (\<lambda>_. seq (context_library_scope w (dylib_shortname root)) finish) s
      = Some (r, s')"
  shows "outcome r s'"
proof -
  have src: "ok c" "\<And>i. i \<in> set ids \<Longrightarrow> lc_contains (w_ops w) c i"
    using linker lk by (fastforce simp: linker_ok_def)+
  let ?s = "lock_write w s"
  have "manager_inv (w_ops w) ok (os_manager ?s)" and locked: "os_locked ?s"
    using lock_write_good [OF s] by (auto simp: good_def intro: J_inv)
  from inv_merge_link_context [OF this(1) src(1), of ids "os_flags s"] src(2) obtain m' where
    m': "merge_link_context (w_ops w) c (os_flags s) ids (os_manager ?s) = Ok m'" "manager_inv (w_ops w) ok m'"
      "\<forall>i \<in> set ids. \<exists>k. lc_key (w_ops w) c i = Some k \<and> lc_view (w_ops w) (link_ctx m') k \<noteq> None" by blast
  have run': "seq (context_library_scope w (dylib_shortname root)) finish (?s\<lparr>os_manager := m'\<rparr>) = Some (r, s')"
    using run m'(1) locked by (simp add: seq_def [of "complete_relocation w c ids"] complete_relocation_def
        with_manager_mut_def)
  show ?thesis
  proof (cases "library_scope (w_ops w) m' (dylib_shortname root)")
    case None
    have "\<not> linker_roots (w_ops w) lk"
    proof
      assume "linker_roots (w_ops w) lk"
      with lk m'(3) have "lc_view (w_ops w) (link_ctx m') (dylib_shortname root) \<noteq> None"
        by (fastforce simp: linker_roots_def)
      then obtain lib meta where "lc_view (w_ops w) (link_ctx m') (dylib_shortname root) = Some (lib, meta)" by auto
      from get_lib_view [OF inv_ctx [OF m'(2)] this] None show False
        by (auto simp: get_lib_def library_scope_def split: option.splits)
    qed
    with None run' locked show ?thesis
      by (auto simp: seq_def context_library_scope_def with_manager_def lift_res_def outcome_def)
  next
    case (Some deps)
    from library_scope_head [OF m'(2) Some] obtain lib rest k meta where
      d: "deps = lib # rest" "lc_view (w_ops w) (link_ctx m') k = Some (lib, meta)" by blast
    then have "handle_ok m' \<lparr>el_inner = lib, el_deps = Some deps\<rparr>" by (auto simp: handle_ok_def)
    with d Some run' locked m'(2) show ?thesis
      by (auto simp: seq_def context_library_scope_def with_manager_def ret_def finish_def set_committed_def
          outcome_def)
  qed
qed

lemma link_load_outcome:
  assumes s: "good s" "os_locked s" and run: "link_load k n w lk root s = Some (r, s')"
  shows "outcome r s'"
proof -
  from run obtain r1 s1 where r1: "run_linker k n w lk (lk_start lk root) Start s = Some (r1, s1)"
    by (auto simp: link_load_def seq_def split: option.splits)
  have "linking (lk_start lk root) s" using s by (simp add: linking_def)
  note * = run_linker_good [OF this r1]
  show ?thesis
  proof (cases r1)
    case (Ok res)
    obtain rt c ids where res: "res = (rt, c, ids)" by (cases res)
    with * Ok obtain l a l' where lk: "lk_next lk l a = (Linked rt c ids, l')" by blast
    from run r1 Ok res have
      "seq (complete_relocation w c ids) (\<lambda>_. seq (context_library_scope w (dylib_shortname rt)) finish) s1 = Some (r, s')"
      by (simp add: link_load_def seq_def [of "run_linker k n w lk (lk_start lk root) Start"])
    from publish_outcome [OF _ lk this] * show ?thesis by blast
  next
    case (Err e)
    with run r1 * show ?thesis by (auto simp: link_load_def seq_def outcome_def)
  next
    case (Panic p)
    with * show ?thesis by simp
  qed
qed

lemma link_root_outcome:
  assumes s: "good s" "os_locked s" and run: "link_root k n w lk request root s = Some (r, s')"
  shows "outcome r s'"
proof (cases root)
  case (Load_Request key b)
  with run have "link_load k n w lk root (s\<lparr>os_root_request := request, os_root_bytes := b, os_scope := None\<rparr>)
    = Some (r, s')" by (simp add: link_root_def)
  then show ?thesis by (rule link_load_outcome [rotated 2]) (use s in \<open>simp_all add: good_def\<close>)
next
  case (Mapped_Root key raw)
  let ?s = "s\<lparr>os_root_request := request, os_root_bytes := None, os_scope := None\<rparr>"
  have good: "good ?s" "os_locked ?s" using s by (simp_all add: good_def)
  have wait: "valid (\<lambda>_. True) (wait_for_library n w None key) (\<lambda>f s. True \<and>
      lookup (w_ops w) (os_manager s) key = f \<and> (\<forall>lib. f = Some lib \<longrightarrow> ready None lib))"
    unfolding wait_for_library_def by (rule v_await)
  from run Mapped_Root obtain r1 s1 where r1: "wait_for_library n w None key ?s = Some (r1, s1)"
    by (auto simp: link_root_def seq_def Let_def split: option.splits)
  note w1 = validD [OF wait good TrueI r1]
  show ?thesis
  proof (cases r1)
    case (Ok found)
    note found = w1(4) [OF Ok]
    show ?thesis
    proof (cases found)
      case (Some lib)
      with found w1(1) have "findable lib (os_manager s1)" "ready None lib"
        by (auto simp: good_def intro: lookup_findable)
      from finish_existing_outcome [OF w1(1,2) this] run Mapped_Root r1 Ok Some show ?thesis
        by (simp add: link_root_def seq_def)
    next
      case None
      have J: "J (os_added s1) (os_manager s1)" using w1(1) by (simp add: good_def)
      have fresh: "\<not> registered (w_ops w) (os_manager s1) key"
        using found None lookup_total_on_registered [OF J_ok [OF J], of key] by auto
      from J_reserve [OF J fresh, of raw None "os_flags s1"] obtain m' where
        m': "reserve_pending (w_ops w) key raw None (os_flags s1) (os_manager s1) = Ok m'"
          "J (btree_insert key (os_added s1)) m'" by blast
      let ?s2 = "s1\<lparr>os_manager := m', os_added := btree_insert key (os_added s1)\<rparr>"
      have "link_load k n w lk root ?s2 = Some (r, s')"
        using run Mapped_Root r1 Ok None w1(2) m'(1)
        by (simp add: link_root_def seq_def context_reserve_pending_def get_flags_def with_manager_mut_def)
      then show ?thesis
        by (rule link_load_outcome [rotated 2]) (use w1(1,2) m'(2) in \<open>auto simp: good_def\<close>)
    qed
  next
    case (Err e)
    with run Mapped_Root r1 w1(1) show ?thesis by (auto simp: link_root_def seq_def outcome_def)
  next
    case (Panic p)
    with w1(5) show ?thesis by simp
  qed
qed

lemma try_existing_outcome:
  assumes s: "good s" "os_locked s" and run: "try_existing n w path s = Some (r, s')"
  shows "(\<forall>h. r = Ok (Some h) \<longrightarrow> outcome (Ok h) s') \<and>
    (\<not> (\<exists>h. r = Ok (Some h)) \<longrightarrow> good s' \<and> os_locked s' \<and> os_flags s' = os_flags s) \<and> \<not> panics r"
proof -
  let ?n = "request_shortname path"
  have wait: "valid (\<lambda>_. True) (wait_for_library n w None ?n) (\<lambda>f s. True \<and>
      lookup (w_ops w) (os_manager s) ?n = f \<and> (\<forall>lib. f = Some lib \<longrightarrow> ready None lib))"
    unfolding wait_for_library_def by (rule v_await)
  from run obtain r1 s1 where r1: "wait_for_library n w None ?n s = Some (r1, s1)"
    by (auto simp: try_existing_def seq_def Let_def split: option.splits)
  note w1 = validD [OF wait s TrueI r1]
  have reopen: "(\<forall>h. r = Ok (Some h) \<longrightarrow> outcome (Ok h) s') \<and> (\<exists>h. r = Ok (Some h))"
    if "good s2" "os_locked s2" "findable lib (os_manager s2)" "ready None lib"
      "seq (finish_existing w lib) (\<lambda>h. ret (Some h)) s2 = Some (r, s')" for s2 lib
    using finish_existing_outcome [OF that(1-4)] that(5)
    by (auto simp: seq_def ret_def split: option.splits res.splits)
  show ?thesis
  proof (cases r1)
    case (Ok found)
    note found = w1(4) [OF Ok]
    show ?thesis
    proof (cases found)
      case (Some lib)
      have "findable lib (os_manager s1)" "ready None lib"
        using found w1(1) Some by (auto simp: good_def intro: lookup_findable)
      moreover have "seq (finish_existing w lib) (\<lambda>h. ret (Some h)) s1 = Some (r, s')"
        using run r1 Ok Some by (simp add: try_existing_def Let_def seq_def [of "wait_for_library n w None ?n"])
      ultimately have "(\<forall>h. r = Ok (Some h) \<longrightarrow> outcome (Ok h) s') \<and> (\<exists>h. r = Ok (Some h))"
        by (rule reopen [OF w1(1,2)])
      then show ?thesis by auto
    next
      case None
      let ?rest = "\<lambda>s. (case inode_fallback n w None path ?n s of
               None \<Rightarrow> None
             | Some (Ok (Some lib), s') \<Rightarrow> seq (finish_existing w lib) (\<lambda>h. ret (Some h)) s'
             | Some (Ok None, s') \<Rightarrow> Some (Ok None, s')
             | Some (Err e, s') \<Rightarrow>
                 if CHR ''/'' \<in> set path then Some (Err e, s') else Some (Ok None, s')
             | Some (Panic p, s') \<Rightarrow> Some (Panic p, s'))"
      have rest: "?rest s1 = Some (r, s')"
        using run r1 Ok None by (simp add: try_existing_def Let_def seq_def [of "wait_for_library n w None ?n"])
      then obtain r2 s2 where r2: "inode_fallback n w None path ?n s1 = Some (r2, s2)"
        by (auto split: option.splits)
      note w2 = validD [OF v_inode_fallback [of "\<lambda>_. True"] w1(1,2) TrueI r2]
      have flags: "os_flags s2 = os_flags s" using w1(3) w2(3) by (simp add: evolves_def)
      show ?thesis
      proof (cases "\<exists>lib. r2 = Ok (Some lib)")
        case True
        then obtain lib where lib: "r2 = Ok (Some lib)" by blast
        then have "(\<forall>h. r = Ok (Some h) \<longrightarrow> outcome (Ok h) s') \<and> (\<exists>h. r = Ok (Some h))"
          using rest r2 w2(4) [OF lib] by (intro reopen [OF w2(1,2), of lib]) auto
        then show ?thesis by auto
      next
        case False
        with rest r2 w2(1,2,5) flags show ?thesis
          by (cases r2) (auto split: option.splits if_splits)
      qed
    qed
  next
    case (Err e)
    with run r1 w1(1,2,3) show ?thesis by (auto simp: try_existing_def Let_def seq_def evolves_def)
  next
    case (Panic p)
    with w1(5) show ?thesis by simp
  qed
qed

text \<open>The call as a whole, from a registry in which it owns nothing.\<close>

lemma remove_added_no_Err: "remove_added_libraries ops names m \<noteq> Err e"
proof (induction names arbitrary: m)
  case (Cons n names)
  have "Registry.remove ops n m \<noteq> Err e" by (simp add: Registry.remove_def split: option.splits)
  with Cons show ?case by (cases "Registry.remove ops n m") auto
qed simp

definition settled :: "(error, elf_library) res \<Rightarrow> 'c manager \<Rightarrow> bool" where
  "settled r m \<longleftrightarrow>
     (case r of
        Ok h \<Rightarrow> manager_inv (w_ops w) ok m \<and> handle_ok m h
      | Err e \<Rightarrow> J [] m
      | Panic p \<Rightarrow> \<not> linker_roots (w_ops w) lk)"

lemma drop_outcome:
  assumes out: "outcome r s" and drop: "drop_context w (r, s) = (r', s')"
  shows "settled r' (os_manager s')"
proof (cases r)
  case (Ok h)
  with assms show ?thesis by (auto simp: drop_context_def outcome_def take_lock_def settled_def)
next
  case (Err e)
  with out have s: "good s" by (simp add: outcome_def)
  then have J: "J (os_added (lock_write w s)) (os_manager (lock_write w s))" and "\<not> os_committed s"
    using lock_write_good [OF s] by (auto simp: good_def)
  with J_rollback [OF J] Err drop show ?thesis
    by (auto simp: drop_context_def Let_def take_lock_def settled_def)
next
  case (Panic p)
  with assms show ?thesis
    by (auto simp: drop_context_def outcome_def Let_def remove_added_no_Err settled_def
        split: res.splits if_splits)
qed

lemma body_outcome:
  assumes s: "good s" "os_locked s" and run: "dlopen_body k n w lk path bytes s = Some (r, s')"
  shows "outcome r s'"
proof -
  from run obtain r1 s1 where r1: "try_existing n w path s = Some (r1, s1)"
    by (auto simp: dlopen_body_def seq_def split: option.splits)
  note * = try_existing_outcome [OF s r1]
  show ?thesis
  proof (cases r1)
    case (Ok found)
    show ?thesis
    proof (cases found)
      case (Some h)
      with run r1 Ok * show ?thesis by (auto simp: dlopen_body_def seq_def ret_def)
    next
      case None
      with * Ok have s1: "good s1" "os_locked s1" by auto
      have "(if is_noload (os_flags s1) then fail (find_lib_error (''can not find file: '' @ path))
          else link_root k n w lk path (Load_Request path bytes)) s1 = Some (r, s')"
        using run r1 Ok None by (simp add: dlopen_body_def seq_def get_flags_def)
      with link_root_outcome [OF s1] s1 show ?thesis by (auto simp: fail_def outcome_def split: if_splits)
    qed
  next
    case (Err e)
    with run r1 * show ?thesis by (auto simp: dlopen_body_def seq_def outcome_def)
  next
    case (Panic p)
    with * show ?thesis by simp
  qed
qed

lemma open_context_good: "J [] m \<Longrightarrow> good (open_context w flags t m) \<and> os_locked (open_context w flags t m)"
  by (simp add: open_context_def good_def)

lemma dlopen_outcome:
  assumes J: "J [] m" and run: "dlopen_impl k n w lk t path flags bytes m = Some (r, s')"
  shows "settled r (os_manager s')"
proof -
  from run obtain r1 s1 where
    "dlopen_body k n w lk path bytes (open_context w flags t m) = Some (r1, s1)"
    and drop: "drop_context w (r1, s1) = (r, s')" by (auto simp: dlopen_impl_def)
  then have "outcome r1 s1" using body_outcome open_context_good [OF J] by blast
  then show ?thesis using drop by (rule drop_outcome)
qed

lemma mapped_outcome:
  assumes J: "J [] m" and run: "dlopen_mapped_root k n w lk t request raw flags m = Some (r, s')"
  shows "settled r (os_manager s')"
proof -
  from run obtain r1 s1 where
    "link_root k n w lk request (Mapped_Root (shortname_from_name raw) raw) (open_context w flags t m)
      = Some (r1, s1)"
    and drop: "drop_context w (r1, s1) = (r, s')" by (auto simp: dlopen_mapped_root_def)
  then have "outcome r1 s1" using link_root_outcome open_context_good [OF J] by blast
  then show ?thesis using drop by (rule drop_outcome)
qed

end

end
