(* ===== verification/Dlopen_Spec.thy ===== *)
theory Dlopen_Spec
  imports Dlopen_Run Registry_Spec
begin

text \<open>
  What a \<open>dlopen\<close> call promises: a failed call leaves the libraries as they were, every call
  keeps the registry invariant, a loaded library is reopened without the file system, a call
  with \<open>RTLD_NOLOAD\<close> loads nothing. The witnesses run in a small world: the registry
  \<open>ex_m\<close>, a file system with one library, and a linker that loads it or fails.
\<close>

section \<open>A concrete world\<close>

definition ex_libz :: dylib where
  "ex_libz = ex_dylib ''/usr/lib/libz.so'' 0x700000 [''libc.so.6''] (Some \<lparr>fi_dev = 1, fi_ino = 20\<rparr>)"

definition missing :: "(error, 'a) res" where
  "missing = Err (IO NotFound ''No such file'')"

definition ex_env :: os_env where
  "ex_env = \<lparr>
     fs_inode = (\<lambda>p. if p = ''/usr/lib/libz.so'' then Ok \<lparr>fi_dev = 1, fi_ino = 20\<rparr> else missing),
     fs_read_limit = (\<lambda>p n. if p = ''/usr/lib/libz.so'' then Ok [0x7f, 0x45, 0x4c, 0x46] else missing),
     fs_read = (\<lambda>p. missing),
     fs_open_elf = (\<lambda>p. if p = ''/usr/lib/libz.so'' then Ok () else missing),
     fs_file_name = request_shortname,
     fs_join = (\<lambda>d n. d @ CHR ''/'' # n),
     fs_envp = None,
     fs_cache = None,
     fs_arch = X86_64\<rparr>"

definition ex_world :: "(list_ctx, string) world" where
  "ex_world = \<lparr>w_ops = list_ops, w_others = (\<lambda>t m. m), w_env = ex_env\<rparr>"

text \<open>
  A linker that resolves the root and asks for a plan; \<open>None\<close> is a relocation that fails.
\<close>

fun ex_next :: "elf_error option \<Rightarrow> nat \<Rightarrow> answer \<Rightarrow> (list_ctx, string) linker_call \<times> nat" where
  "ex_next err 0 a = (Call_Load_Root ''libz.so'', 1)"
| "ex_next err (Suc 0) (Key_Err e) = (Link_Error e, 0)"
| "ex_next err (Suc 0) a = (Call_Plan ''libz.so'' [Some ex_libz], 2)"
| "ex_next err l a = (case err of
     Some e \<Rightarrow> (Link_Error e, 2)
   | None \<Rightarrow> (Linked ex_libz [(''libz.so'', ex_libz, global_meta_default, [])] [''libz.so''], 2))"

definition ex_linker :: "elf_error option \<Rightarrow> (list_ctx, string, nat) linker" where
  "ex_linker err = \<lparr>lk_start = (\<lambda>_. 0), lk_next = ex_next err, lk_show = (\<lambda>_. ''loader error'')\<rparr>"

lemma ex_env_ok: "env_ok ex_env"
  by (simp add: env_ok_def ex_env_def cached_path_def missing_def request_shortname_def
      rsplit_once_append rsplit_once_None [THEN iffD2])

lemma ex_next_shape:
  "ex_next err l a = (call, l') \<Longrightarrow> 2 \<le> l \<Longrightarrow> l' = 2 \<and>
     (call = (case err of Some e \<Rightarrow> Link_Error e
       | None \<Rightarrow> Linked ex_libz [(''libz.so'', ex_libz, global_meta_default, [])] [''libz.so'']))"
  by (cases "(err, l, a)" rule: ex_next.cases) (auto split: option.splits)

lemma ex_linker_ok: "linker_ok list_ops im_wf (\<lambda>l. 2 \<le> l) (ex_linker err)"
  unfolding linker_ok_def
proof (intro allI impI)
  fix l a call l'
  assume "lk_next (ex_linker err) l a = (call, l')"
  then have n: "ex_next err l a = (call, l')" by (simp add: ex_linker_def)
  show "(2 \<le> l \<longrightarrow> 2 \<le> l' \<and> plans call) \<and>
     (case call of Call_Resolve_Dependency req \<Rightarrow> visible_ok list_ops (Some (dr_visible req))
      | Call_Plan _ _ \<Rightarrow> 2 \<le> l' | Linked root c ids \<Rightarrow> im_wf c \<and> (\<forall>i \<in> set ids. lc_contains list_ops c i)
      | _ \<Rightarrow> True)"
    using n by (cases "(err, l, a)" rule: ex_next.cases)
      (auto simp: plans_def im_wf_def im_keys_def split: option.splits)
qed

lemma ex_linker_roots: "linker_roots list_ops (ex_linker err)"
  unfolding linker_roots_def
proof (intro allI impI)
  fix l a root c ids l'
  assume "lk_next (ex_linker err) l a = (Linked root c ids, l')"
  then have "root = ex_libz \<and> c = [(''libz.so'', ex_libz, global_meta_default, [])] \<and> ids = [''libz.so'']"
    by (cases "(err, l, a)" rule: ex_next.cases) (auto simp: ex_linker_def split: option.splits)
  moreover have "dylib_shortname ex_libz = ''libz.so''" by code_simp
  ultimately show "\<exists>i \<in> set ids. lc_key list_ops c i = Some (dylib_shortname root)" by (simp add: im_keys_def)
qed

lemma ex_inv: "manager_inv list_ops im_wf ex_m"
  by (rule list_ctx.inv_reachable [OF ex_reachable])

interpretation ex_own: owned_registry list_ops im_wf "own list_ops im_wf ex_m" "\<lambda>t m. m"
  by (rule list_ctx.own_registry [OF ex_inv])

interpretation ex_call: linking_call ex_world im_wf "own list_ops im_wf ex_m" "ex_linker err" "\<lambda>l. 2 \<le> l"
  by (intro linking_call.intro dlopen_call.intro dlopen_call_axioms.intro linking_call_axioms.intro)
    (simp_all add: ex_world_def ex_own.owned_registry_axioms ex_env_ok ex_linker_ok)

lemma ex_dlopen:
  "map_option fst (dlopen_impl 4 2 ex_world (ex_linker (Some (Elf_Native 1))) 0 ''libz.so'' RTLD_NOW None ex_m)
     = Some (Err (LoaderError (Elf_Native 1)))"
  "map_option (is_Ok \<circ> fst) (dlopen_impl 4 2 ex_world (ex_linker None) 0 ''libz.so'' RTLD_NOW None ex_m) = Some True"
  by code_simp+

section \<open>Properties\<close>

text \<open>
  C2. A \<open>dlopen\<close> that returns an error leaves every library, its flags, the load order and
  the global scope as they were, drops all its reservations, and every name that led to a
  library still leads to it; whatever the linker did before it failed. (No other thread
  changes the registry meanwhile.)
\<close>

theorem dlopen_failure_restores:
  assumes "link_context (w_ops w) ok" "manager_inv (w_ops w) ok m" "w_others w = (\<lambda>t m. m)"
    and "env_ok (w_env w)" "linker_ok (w_ops w) ok planned lk"
    and "dlopen_impl k n w lk t path flags bytes m = Some (Err e, s)"
  shows "same_entries (w_ops w) m (os_manager s) \<and> manager_inv (w_ops w) ok (os_manager s) \<and>
    (\<forall>nm l. lookup (w_ops w) m nm = Some l \<longrightarrow> lookup (w_ops w) (os_manager s) nm = Some l)"
proof -
  have "owned_registry (w_ops w) ok (own (w_ops w) ok m) (w_others w)"
    using link_context.own_registry [OF assms(1,2)] assms(3) by simp
  then have call: "linking_call w ok (own (w_ops w) ok m) lk planned"
    using assms(4,5) by (intro linking_call.intro dlopen_call.intro dlopen_call_axioms.intro
        linking_call_axioms.intro)
  from linking_call.dlopen_outcome [OF call link_context.own_start [OF assms(1,2)] assms(6)]
  have "own (w_ops w) ok m [] (os_manager s)"
    by (simp add: linking_call.settled_def [OF call])
  from link_context.own_empty [OF assms(1) this assms(2)] show ?thesis by blast
qed

theorem dlopen_failure_restores_witness:
  "\<exists>s. dlopen_impl 4 2 ex_world (ex_linker (Some (Elf_Native 1))) 0 ''libz.so'' RTLD_NOW None ex_m =
      Some (Err (LoaderError (Elf_Native 1)), s) \<and> same_entries list_ops ex_m (os_manager s)"
proof -
  from ex_dlopen(1) obtain s where s: "dlopen_impl 4 2 ex_world (ex_linker (Some (Elf_Native 1))) 0
      ''libz.so'' RTLD_NOW None ex_m = Some (Err (LoaderError (Elf_Native 1)), s)" by auto
  have w: "w_ops ex_world = list_ops" "w_others ex_world = (\<lambda>t m. m)" "w_env ex_world = ex_env"
    by (simp_all add: ex_world_def)
  from dlopen_failure_restores [of ex_world, unfolded w, OF list_ctx.link_context_axioms ex_inv refl
      ex_env_ok ex_linker_ok s] s show ?thesis by blast
qed



text \<open>
  C10. Opening a library that is already loaded, under any of its names and with any path in
  front, returns a handle on that library at once: no waiting, no file system, no linker. Its
  flags gain \<open>RTLD_GLOBAL\<close> and \<open>RTLD_NODELETE\<close> if the call asked for them, and no other
  library changes.
\<close>

theorem dlopen_reopens:
  assumes L: "link_context (w_ops w) ok" and inv: "manager_inv (w_ops w) ok m"
    and l: "lookup (w_ops w) m (request_shortname path) = Some (Relocated key nm)"
  shows "\<exists>lib meta deps s meta'.
     dlopen_impl k (Suc n) w lk t path flags bytes m =
       Some (Ok \<lparr>el_inner = lib, el_deps = Some (lib # deps)\<rparr>, s) \<and>
     lc_view (w_ops w) (link_ctx m) key = Some (lib, meta) \<and>
     lc_view (w_ops w) (link_ctx (os_manager s)) = (lc_view (w_ops w) (link_ctx m))(key \<mapsto> (lib, meta')) \<and>
     gm_flags meta' = gm_flags meta OR promotable flags \<and>
     os_ticks s = t \<and> \<not> os_locked s"
proof -
  let ?s = "open_context w flags t m"
  have s: "os_manager ?s = m" "os_locked ?s" "os_ticks ?s = t" by (simp_all add: open_context_def)
  have prom: "promotable (os_flags ?s) = promotable flags"
    by (rule bit_eqI) (auto simp: open_context_def bit_promotable bit_or_iff RTLD_NOW_def bit_numeral_rec
        simp flip: bit_1_iff)
  note ctx = link_context.inv_ctx [OF L inv]
  have key: "lookup (w_ops w) m key = Some (Relocated key nm)"
    using link_context.lookup_canonical [OF L ctx l] by simp
  from link_context.open_existing_Ok [OF L inv key, of "os_flags ?s"] obtain lib meta deps m' meta' where
    o: "open_existing (w_ops w) key (os_flags ?s) m = Ok (Some \<lparr>el_inner = lib, el_deps = Some (lib # deps)\<rparr>, m')"
      "lc_view (w_ops w) (link_ctx m) key = Some (lib, meta)"
      "lc_view (w_ops w) (link_ctx m') = (lc_view (w_ops w) (link_ctx m))(key \<mapsto> (lib, meta'))"
      "gm_flags meta' = gm_flags meta OR promotable (os_flags ?s)" by blast
  have wait: "wait_for_library (Suc n) w None (request_shortname path) ?s = Some (Ok (Some (Relocated key nm)), ?s)"
    using l s by (simp add: wait_for_library_def ready_def)
  have "try_existing (Suc n) w path ?s =
      Some (Ok (Some \<lparr>el_inner = lib, el_deps = Some (lib # deps)\<rparr>), ?s\<lparr>os_manager := m', os_committed := True\<rparr>)"
    using wait o(1) s by (simp add: try_existing_def Let_def seq_def finish_existing_def get_flags_def
        with_manager_mut_def set_committed_def ret_def)
  then have "dlopen_impl k (Suc n) w lk t path flags bytes m =
      Some (Ok \<lparr>el_inner = lib, el_deps = Some (lib # deps)\<rparr>,
        take_lock (?s\<lparr>os_manager := m', os_committed := True\<rparr>))"
    by (simp add: dlopen_impl_def dlopen_body_def seq_def ret_def drop_context_def)
  with o(2,3,4) prom s(3) show ?thesis
    by (intro exI [of _ lib] exI [of _ meta] exI [of _ deps] exI [of _ meta']
        exI [of _ "take_lock (?s\<lparr>os_manager := m', os_committed := True\<rparr>)"] conjI)
      (simp_all add: take_lock_def)
qed

theorem dlopen_reopens_witness:
  "\<exists>lib deps s. dlopen_impl 1 1 ex_world (ex_linker None) 0 ''/lib/libdl.so.2'' RTLD_GLOBAL None ex_m =
     Some (Ok \<lparr>el_inner = lib, el_deps = Some (lib # deps)\<rparr>, s) \<and> os_ticks s = 0"
proof -
  have l: "lookup (w_ops ex_world) ex_m (request_shortname ''/lib/libdl.so.2'') =
      Some (Relocated ''libc.so.6'' ''/lib/libc.so.6'')" by code_simp
  have w: "w_ops ex_world = list_ops" by (simp add: ex_world_def)
  have "link_context (w_ops ex_world) im_wf" "manager_inv (w_ops ex_world) im_wf ex_m"
    by (simp_all add: w list_ctx.link_context_axioms ex_inv)
  from dlopen_reopens [OF this l, of 1 0] show ?thesis by fastforce
qed

text \<open>
  With \<open>RTLD_NOLOAD\<close>, a library that is loaded neither under the name nor under the
  inode of the file is not loaded: the call returns the error of \<open>stat\<close> for a path with a
  slash, else that the file can not be found, and the registry is the same as before.
\<close>

theorem dlopen_noload_absent:
  assumes "is_noload flags" "lookup (w_ops w) m (request_shortname path) = None"
    and "\<not> panics (fs_inode (w_env w) path)"
    and "\<And>i. fs_inode (w_env w) path = Ok i \<Longrightarrow> lookup_by_identity (w_ops w) m i = None"
  shows "\<exists>s. dlopen_impl k (Suc n) w lk t path flags bytes m =
      Some (Err (case fs_inode (w_env w) path of
                   Err e \<Rightarrow> if CHR ''/'' \<in> set path then e else find_lib_error (''can not find file: '' @ path)
                 | _ \<Rightarrow> find_lib_error (''can not find file: '' @ path)), s) \<and>
    os_manager s = m \<and> os_ticks s = t \<and> \<not> os_locked s"
proof -
  let ?s = "open_context w flags t m"
  have s: "os_manager ?s = m" "os_locked ?s" "os_ticks ?s = t" "os_added ?s = []" "\<not> os_committed ?s"
    by (simp_all add: open_context_def)
  have noload: "is_noload (os_flags ?s)"
    using assms(1) by (auto simp: open_context_def flag_bits bit_or_iff)
  have wait: "wait_for_library (Suc n) w None (request_shortname path) ?s = Some (Ok None, ?s)"
    using assms(2) s by (simp add: wait_for_library_def)
  have fb: "inode_fallback (Suc n) w None path (request_shortname path) ?s =
      (case fs_inode (w_env w) path of Ok i \<Rightarrow> Some (Ok None, ?s) | Err e \<Rightarrow> Some (Err e, ?s)
       | Panic p \<Rightarrow> Some (Panic p, ?s))"
    using assms(4) s by (simp add: inode_fallback_def seq_def lift_res_def ret_def split: res.splits)
  show ?thesis
    using assms(3) wait fb s noload
    by (cases "fs_inode (w_env w) path")
      (simp_all add: dlopen_impl_def dlopen_body_def try_existing_def Let_def seq_def get_flags_def fail_def
        drop_context_def lock_write_def take_lock_def)
qed

theorem dlopen_noload_absent_witness:
  "\<exists>s. dlopen_impl 1 1 ex_world (ex_linker None) 0 ''libq.so'' RTLD_NOLOAD None ex_m =
     Some (Err (FindLibError ''can not find file: libq.so''), s) \<and> os_manager s = ex_m"
proof -
  have "is_noload RTLD_NOLOAD" "lookup (w_ops ex_world) ex_m (request_shortname ''libq.so'') = None"
    by code_simp+
  moreover have "fs_inode (w_env ex_world) ''libq.so'' = Err (IO NotFound ''No such file'')"
    by (simp add: ex_world_def ex_env_def missing_def)
  ultimately show ?thesis
    using dlopen_noload_absent [of RTLD_NOLOAD ex_world ex_m "''libq.so''" 1 0 "ex_linker None" 0 None]
    by (simp add: find_lib_error_def)  blast
qed

end
