(* ===== verification/Dlopen_Live.thy ===== *)
theory Dlopen_Live
  imports Dlopen_Spec
begin

text \<open>
  Whether a \<open>dlopen\<close> call comes to an end: the spin loop that waits for another thread, the
  recursion through linker scripts, and the order of the search for a file.
\<close>

section \<open>Waiting for another thread\<close>

text \<open>The registry after the lock was given up \<open>j\<close> times, from tick \<open>t\<close> on.\<close>

primrec after_waits :: "('c, 'i) world \<Rightarrow> nat \<Rightarrow> nat \<Rightarrow> 'c manager \<Rightarrow> 'c manager" where
  "after_waits w t 0 m = m"
| "after_waits w t (Suc j) m = after_waits w (Suc t) j (w_others w t m)"

definition blocked :: "string list option \<Rightarrow> library_lookup option \<Rightarrow> bool" where
  "blocked added entry \<longleftrightarrow> (case entry of None \<Rightarrow> False | Some lib \<Rightarrow> \<not> ready added lib)"

lemma wait_state:
  "wait_for_other_thread w s =
     s\<lparr>os_manager := w_others w (os_ticks s) (os_manager s), os_ticks := Suc (os_ticks s), os_locked := True\<rparr>"
  by (simp add: wait_for_other_thread_def lock_write_def take_lock_def)

lemma await_unblocked:
  "os_locked s \<Longrightarrow> j < n \<Longrightarrow> \<not> blocked added (look (after_waits w (os_ticks s) j (os_manager s))) \<Longrightarrow>
     (\<And>i. i < j \<Longrightarrow> blocked added (look (after_waits w (os_ticks s) i (os_manager s)))) \<Longrightarrow>
     await_registered n w added look s =
       Some (Ok (look (after_waits w (os_ticks s) j (os_manager s))),
         s\<lparr>os_manager := after_waits w (os_ticks s) j (os_manager s), os_ticks := os_ticks s + j\<rparr>)"
proof (induction j arbitrary: n s)
  case 0
  then show ?case by (cases n) (auto simp: blocked_def split: option.splits)
next
  case (Suc j)
  let ?s = "wait_for_other_thread w s"
  obtain n' where n: "n = Suc n'" using Suc.prems(2) by (cases n) auto
  from Suc.prems(4) [of 0] have "blocked added (look (os_manager s))" by simp
  then have step: "await_registered n w added look s = await_registered n' w added look ?s"
    using Suc.prems(1) n by (auto simp: blocked_def split: option.splits)
  have "blocked added (look (after_waits w (os_ticks ?s) i (os_manager ?s)))" if "i < j" for i
    using Suc.prems(4) [of "Suc i"] that by (simp add: wait_state)
  with Suc.IH [of ?s n'] Suc.prems n step show ?case by (simp add: wait_state)
qed

lemma await_blocked:
  "os_locked s \<Longrightarrow> (\<And>j. blocked added (look (after_waits w (os_ticks s) j (os_manager s)))) \<Longrightarrow>
     await_registered n w added look s = None"
proof (induction n arbitrary: s)
  case (Suc n)
  let ?s = "wait_for_other_thread w s"
  from Suc.prems(2) [of 0] have "blocked added (look (os_manager s))" by simp
  then have step: "await_registered (Suc n) w added look s = await_registered n w added look ?s"
    using Suc.prems(1) by (auto simp: blocked_def split: option.splits)
  have "blocked added (look (after_waits w (os_ticks ?s) j (os_manager ?s)))" for j
    using Suc.prems(2) [of "Suc j"] by (simp add: wait_state)
  with Suc.IH [of ?s] step show ?case by (simp add: wait_state)
qed simp

section \<open>A search that returns\<close>

text \<open>
  A calm state: the call holds the lock and every library that is still loading is its own.
  Then nothing it looks up makes it wait.
\<close>

definition calm :: "'c open_state \<Rightarrow> bool" where
  "calm s \<longleftrightarrow> os_locked s \<and> (\<forall>k. im_get (pending (os_manager s)) k \<noteq> None \<longrightarrow> k \<in> set (os_added s))"

definition returns :: "('c, 'a) action \<Rightarrow> bool" where
  "returns p \<longleftrightarrow> (\<forall>s. calm s \<longrightarrow> (\<exists>r s'. p s = Some (r, s') \<and> calm s'))"

lemma returnsD: "returns p \<Longrightarrow> calm s \<Longrightarrow> \<exists>r s'. p s = Some (r, s') \<and> calm s'"
  by (simp add: returns_def)

lemma returns_ret: "returns (ret a)" and returns_fail: "returns (fail e)" and
  returns_lift: "returns (lift_res r)" and returns_get_added: "returns get_added" and
  returns_get_flags: "returns get_flags"
  by (simp_all add: returns_def ret_def fail_def lift_res_def get_added_def get_flags_def)

lemma returns_with_manager: "returns (with_manager f)"
  by (simp add: returns_def with_manager_def)

lemma returns_seq:
  assumes "returns p" "\<And>a. returns (f a)"
  shows "returns (seq p f)"
  unfolding returns_def
proof (intro allI impI)
  fix s :: "'a open_state" assume "calm s"
  from returnsD [OF assms(1) this] obtain r s1 where r: "p s = Some (r, s1)" "calm s1" by blast
  show "\<exists>r s'. seq p f s = Some (r, s') \<and> calm s'"
  proof (cases r)
    case (Ok a)
    with returnsD [OF assms(2) r(2), of a] r(1) show ?thesis by (simp add: seq_def)
  qed (use r in \<open>simp_all add: seq_def\<close>)
qed

lemmas returns_intros = returns_ret returns_fail returns_lift returns_get_added returns_get_flags
  returns_with_manager

lemma returns_manager_mut:
  assumes "\<And>m a m' k. f m = Ok (a, m') \<Longrightarrow> im_get (pending m') k \<noteq> None \<Longrightarrow> im_get (pending m) k \<noteq> None"
  shows "returns (with_manager_mut f)"
proof -
  have "calm (s\<lparr>os_manager := m'\<rparr>)" if "calm s" "f (os_manager s) = Ok (a, m')" for s a m'
    using that assms [OF that(2)] by (auto simp: calm_def simp del: not_None_eq)
  then show ?thesis by (auto simp: returns_def with_manager_mut_def split: res.splits)
qed

lemma lookup_pending:
  "lookup ops m n = Some lib \<Longrightarrow> is_relocated lib \<or> im_get (pending m) (lookup_shortname lib) \<noteq> None"
  by (auto simp: lookup_def committed_lookup_def pending_lookup_def split: option.splits)

lemma identity_pending:
  "lookup_by_identity ops m i = Some lib \<Longrightarrow> is_relocated lib \<or> im_get (pending m) (lookup_shortname lib) \<noteq> None"
  by (auto simp: lookup_by_identity_def split: option.splits dest: lookup_pending)

text \<open>The two lookups of the resolver are answered at once.\<close>

lemma await_calm:
  assumes "calm s"
    and "\<And>lib. look (os_manager s) = Some lib \<Longrightarrow>
      is_relocated lib \<or> im_get (pending (os_manager s)) (lookup_shortname lib) \<noteq> None"
  shows "await_registered (Suc n) w (Some (os_added s)) look s = Some (Ok (look (os_manager s)), s)"
proof (cases "look (os_manager s)")
  case (Some lib)
  with assms(2) [OF Some] assms(1) have "ready (Some (os_added s)) lib"
    by (auto simp: ready_def calm_def simp del: not_None_eq)
  with Some assms(1) show ?thesis by (simp add: calm_def)
qed (use assms(1) in \<open>simp add: calm_def\<close>)

lemma add_alias_pending:
  "add_alias ops k a m = Ok m' \<Longrightarrow> im_get (pending m') j \<noteq> None \<Longrightarrow> im_get (pending m) j \<noteq> None"
  by (auto simp: add_alias_def split: if_splits option.splits)

lemma add_aliases_pending_keys:
  "add_aliases ops k as m = Ok m' \<Longrightarrow> im_get (pending m') j \<noteq> None \<Longrightarrow> im_get (pending m) j \<noteq> None"
proof (induction as arbitrary: m)
  case (Cons a as)
  then obtain m1 where "add_alias ops k a m = Ok m1" "add_aliases ops k as m1 = Ok m'"
    by (auto simp: bind_res_Ok_iff)
  with Cons add_alias_pending show ?case by blast
qed simp

lemma returns_alias: "returns (with_manager_mut (\<lambda>m. bind_res (add_alias ops k a m) (\<lambda>m'. Ok ((), m'))))"
  by (rule returns_manager_mut) (auto simp: bind_res_Ok_iff simp del: not_None_eq dest: add_alias_pending)

lemma returns_resolve_found: "returns (resolve_found lib visible)"
  unfolding resolve_found_def visible_map_or_true_def
  by (cases visible) (auto intro!: returns_seq returns_intros)

lemma returns_by_name: "returns (resolve_existing_by_name (Suc n) w sn visible)"
  unfolding resolve_existing_by_name_def
proof (rule returns_seq)
  show "returns (visible_is_some_and visible sn)"
    unfolding visible_is_some_and_def by (cases visible) (auto intro: returns_intros)
  fix b
  have "returns (seq get_added (\<lambda>added. seq (wait_for_library (Suc n) w (Some added) sn)
      (\<lambda>found. case found of None \<Rightarrow> ret None | Some lib \<Rightarrow> resolve_found lib visible)))" (is "returns ?p")
    unfolding returns_def
  proof (intro allI impI)
    fix s :: "'a open_state" assume s: "calm s"
    let ?look = "\<lambda>m. lookup (w_ops w) m sn"
    have "wait_for_library (Suc n) w (Some (os_added s)) sn s = Some (Ok (?look (os_manager s)), s)"
      unfolding wait_for_library_def by (rule await_calm [OF s]) (rule lookup_pending)
    then have "?p s = (case ?look (os_manager s) of None \<Rightarrow> ret None | Some lib \<Rightarrow> resolve_found lib visible) s"
      by (simp add: seq_def get_added_def)
    with s returnsD [OF returns_resolve_found s] show "\<exists>r s'. ?p s = Some (r, s') \<and> calm s'"
      by (cases "?look (os_manager s)") (simp_all add: ret_def)
  qed
  then show "returns (if b then ret (Some (Existing sn)) else ?p)" by (simp add: returns_ret)
qed

lemma returns_inode:
  assumes s: "calm s"
  shows "\<exists>r s'. inode_fallback (Suc n) w (Some (os_added s)) path sn s = Some (r, s') \<and> calm s'"
proof (cases "fs_inode (w_env w) path")
  case (Ok i)
  let ?look = "\<lambda>m. lookup_by_identity (w_ops w) m i"
  have "await_registered (Suc n) w (Some (os_added s)) ?look s = Some (Ok (?look (os_manager s)), s)"
    by (rule await_calm [OF s]) (rule identity_pending)
  then have eq: "inode_fallback (Suc n) w (Some (os_added s)) path sn s =
      (case ?look (os_manager s) of
         Some lib \<Rightarrow> if ready (Some (os_added s)) lib
           then seq (with_manager_mut (\<lambda>m. bind_res (add_alias (w_ops w) (lookup_shortname lib) sn m)
                  (\<lambda>m'. Ok ((), m')))) (\<lambda>_. ret (?look (os_manager s)))
           else ret (?look (os_manager s))
       | None \<Rightarrow> ret (?look (os_manager s))) s"
    using Ok by (simp add: inode_fallback_def seq_def [of "lift_res _"] seq_def [of "await_registered _ _ _ _"] lift_res_def
        del: await_registered.simps)
  have "returns (seq (with_manager_mut (\<lambda>m. bind_res (add_alias (w_ops w) k sn m) (\<lambda>m'. Ok ((), m'))))
      (\<lambda>_. ret e))" for k and e :: "library_lookup option"
    by (intro returns_seq returns_alias returns_ret)
  from returnsD [OF this s] s show ?thesis
    unfolding eq by (cases "?look (os_manager s)") (auto simp: ret_def)
qed (use s in \<open>simp_all add: inode_fallback_def seq_def lift_res_def\<close>)

lemma returns_by_path: "returns (resolve_existing_by_path (Suc n) w path sn visible)"
  unfolding resolve_existing_by_path_def
proof (rule returns_seq)
  show "returns (visible_is_some_and visible sn)"
    unfolding visible_is_some_and_def by (cases visible) (auto intro: returns_intros)
  fix b
  have found: "returns (case found of None \<Rightarrow> ret None | Some lib \<Rightarrow> resolve_found lib visible)" for found
    by (cases found) (auto intro: returns_ret returns_resolve_found)
  have "returns (seq get_added (\<lambda>added. seq (inode_fallback (Suc n) w (Some added) path sn)
      (\<lambda>found. case found of None \<Rightarrow> ret None | Some lib \<Rightarrow> resolve_found lib visible)))" (is "returns ?p")
    unfolding returns_def
  proof (intro allI impI)
    fix s :: "'a open_state" assume s: "calm s"
    from returns_inode [OF s, of n w path sn] obtain r s1 where
      r: "inode_fallback (Suc n) w (Some (os_added s)) path sn s = Some (r, s1)" "calm s1" by blast
    show "\<exists>r s'. ?p s = Some (r, s') \<and> calm s'"
    proof (cases r)
      case (Ok f)
      with r returnsD [OF found r(2), of f] show ?thesis by (simp add: seq_def get_added_def)
    qed (use r in \<open>simp_all add: seq_def get_added_def\<close>)
  qed
  then show "returns (if b then ret (Some (Existing sn)) else ?p)" by (simp add: returns_ret)
qed

lemma returns_reserve: "returns (resolver_reserve_pending w sn path)"
  unfolding returns_def
proof (intro allI impI)
  fix s :: "'a open_state" assume s: "calm s"
  let ?i = "case fs_inode (w_env w) path of Ok i \<Rightarrow> Some i | Err e \<Rightarrow> None | Panic p \<Rightarrow> None"
  let ?r = "reserve_pending (w_ops w) sn path ?i (os_flags s) (os_manager s)"
  have "calm (s\<lparr>os_manager := m', os_added := btree_insert sn (os_added s)\<rparr>)" if "?r = Ok m'" for m'
  proof -
    have "im_get (pending m') j \<noteq> None \<Longrightarrow> j = sn \<or> im_get (pending (os_manager s)) j \<noteq> None" for j
      using add_aliases_pending_keys [OF that [unfolded reserve_pending_def], of j]
      by (auto simp: add_pending_reservation_def split: if_splits)
    with s show ?thesis by (auto simp: calm_def simp del: not_None_eq)
  qed
  with s show "\<exists>r s'. resolver_reserve_pending w sn path s = Some (r, s') \<and> calm s'"
    by (cases ?r) (auto simp: resolver_reserve_pending_def seq_def get_added_def get_flags_def Let_def
        with_manager_mut_def ret_def calm_def)
qed

lemma returns_first:
  fixes resolve :: "'x \<Rightarrow> ('c, resolved_key) action"
  assumes "\<And>x. x \<in> set xs \<Longrightarrow> returns (resolve x)"
  shows "returns (resolve_first resolve xs)"
  using assms
proof (induction xs)
  case (Cons x xs)
  then have x: "returns (resolve x)" and xs: "returns (resolve_first resolve xs)" by simp_all
  show ?case
    unfolding returns_def
  proof (intro allI impI)
    fix s :: "'c open_state" assume "calm s"
    from returnsD [OF x this] obtain r s1 where "resolve x s = Some (r, s1)" "calm s1" by blast
    with returnsD [OF xs, of s1] show "\<exists>r s'. resolve_first resolve (x # xs) s = Some (r, s') \<and> calm s'"
      by (cases r) auto
  qed
qed (simp add: returns_def)

lemma returns_candidate:
  assumes "\<And>libs l. load_candidate (w_env w) path bytes = Ok (Script libs) \<Longrightarrow> l \<in> set libs \<Longrightarrow> returns (request l)"
  shows "returns (resolve_candidate_path (Suc n) w request visible bytes path)"
  unfolding resolve_candidate_path_def Let_def
proof (rule returns_seq [OF returns_by_path])
  let ?sn = "fs_file_name (w_env w) path"
  fix found :: "resolved_key option"
  have "returns (seq (lift_res (load_candidate (w_env w) path bytes)) (\<lambda>input. case input of
      Reader r \<Rightarrow> seq (resolver_reserve_pending w ?sn path) (\<lambda>_. ret (Load ?sn r))
    | Script libs \<Rightarrow> resolve_script request libs))" (is "returns (seq ?l ?k)")
  proof (cases "load_candidate (w_env w) path bytes")
    case (Ok input)
    have "returns (?k input)"
    proof (cases input)
      case (Reader r)
      then show ?thesis by (auto intro: returns_seq returns_reserve returns_ret)
    next
      case (Script libs)
      with Ok assms have "returns (resolve_first request libs)" by (auto intro: returns_first)
      with Script show ?thesis
        by (auto simp: resolve_script_def intro!: returns_seq returns_ret returns_fail split: option.splits)
    qed
    with Ok show ?thesis by (simp add: returns_def seq_def lift_res_def)
  qed (simp_all add: returns_def seq_def lift_res_def)
  then show "returns (case found of Some module \<Rightarrow> ret module | None \<Rightarrow> seq ?l ?k)"
    by (cases found) (auto intro: returns_ret)
qed

lemma seq_assoc: "seq (seq p f) g = seq p (\<lambda>a. seq (f a) g)"
  by (auto simp: seq_def fun_eq_iff split: option.splits res.splits)

lemma seq_option:
  "seq (case r of None \<Rightarrow> p | Some a \<Rightarrow> ret (Some a)) f = (case r of None \<Rightarrow> seq p f | Some a \<Rightarrow> f (Some a))"
  by (cases r) (simp_all add: seq_def ret_def fun_eq_iff)

lemma seq_lift_Ok: "seq (lift_res (Ok a)) f = f a"
  by (simp add: seq_def lift_res_def fun_eq_iff)

lemma resolve_first_append:
  "resolve_first f (xs @ ys) = seq (resolve_first f xs) (\<lambda>r. case r of
     None \<Rightarrow> resolve_first f ys | Some module \<Rightarrow> ret (Some module))"
proof
  show "resolve_first f (xs @ ys) s = seq (resolve_first f xs) (\<lambda>r. case r of
     None \<Rightarrow> resolve_first f ys | Some module \<Rightarrow> ret (Some module)) s" for s
    by (induction xs arbitrary: s) (auto simp: seq_def ret_def split: option.splits res.splits)
qed

text \<open>The files a request looks at, in the order of the search.\<close>

definition candidate_paths :: "os_env \<Rightarrow> string list \<Rightarrow> string list \<Rightarrow> string \<Rightarrow> string list" where
  "candidate_paths env rpath runpath lib_name =
     (if CHR ''/'' \<in> set lib_name then [lib_name]
      else map (\<lambda>dir. fs_join env dir lib_name)
          ((if runpath = [] then rpath else []) @ ld_library_path (fs_envp env) @ runpath) @
        (case cached_path env lib_name of Ok (Some path) \<Rightarrow> [path] | _ \<Rightarrow> []) @
        map (\<lambda>dir. fs_join env dir lib_name) (default_path (fs_arch env)))"

lemma candidate_paths_search:
  "candidate_paths env rpath runpath lib_name =
     (if CHR ''/'' \<in> set lib_name then [lib_name]
      else map (\<lambda>dir. fs_join env dir lib_name) (search_dirs env rpath runpath) @
        (case cached_path env lib_name of Ok (Some path) \<Rightarrow> [path] | _ \<Rightarrow> []) @
        map (\<lambda>dir. fs_join env dir lib_name) (default_path (fs_arch env)))"
  by (simp add: candidate_paths_def search_dirs_def)

text \<open>
  Linker scripts that refer to each other in a well-founded way: the libraries a script names
  have a smaller rank than the library whose file it is.
\<close>

definition script_rank :: "os_env \<Rightarrow> string list \<Rightarrow> string list \<Rightarrow> (string \<Rightarrow> nat) \<Rightarrow> bool" where
  "script_rank env rpath runpath rank \<longleftrightarrow>
     (\<forall>lib path libs. path \<in> set (candidate_paths env rpath runpath lib) \<longrightarrow>
        load_candidate env path None = Ok (Script libs) \<longrightarrow> (\<forall>l \<in> set libs. rank l < rank lib))"

lemma returns_request:
  assumes rank: "script_rank (w_env w) rpath runpath rank"
  shows "rank lib + 2 \<le> n \<Longrightarrow>
     (\<And>path libs l. load_candidate (w_env w) path bytes = Ok (Script libs) \<Longrightarrow>
        path \<in> set (candidate_paths (w_env w) rpath runpath lib) \<Longrightarrow> l \<in> set libs \<Longrightarrow> rank l < rank lib) \<Longrightarrow>
     returns (resolve_request n w visible rpath runpath bytes lib)"
proof (induction n arbitrary: lib bytes)
  case (Suc n)
  then obtain n' where n: "n = Suc n'" by (cases n) auto
  let ?paths = "candidate_paths (w_env w) rpath runpath lib"
  let ?cand = "resolve_candidate_path n w (resolve_request n w visible rpath runpath None) visible bytes"
  have cand: "returns (?cand path)" if "path \<in> set ?paths" for path
    unfolding n
  proof (rule returns_candidate)
    fix libs l assume "load_candidate (w_env w) path bytes = Ok (Script libs)" "l \<in> set libs"
    with Suc.prems(2) that have "rank l < rank lib" by blast
    with Suc.prems(1) rank show "returns (resolve_request (Suc n') w visible rpath runpath None l)"
      by (intro Suc.IH [unfolded n]) (auto simp: script_rank_def n)
  qed
  have first: "returns (resolve_first ?cand ps)" if "set ps \<subseteq> set ?paths" for ps
    using that by (intro returns_first cand) auto
  have cached: "returns (seq (lift_res (cached_path (w_env w) lib)) f)"
    if "\<And>c. cached_path (w_env w) lib = Ok c \<Longrightarrow> returns (f c)" for f :: "string option \<Rightarrow> ('a, resolved_key) action"
    using that by (cases "cached_path (w_env w) lib") (simp_all add: returns_def seq_def lift_res_def)
  show ?case
    unfolding resolve_request.simps Let_def
    by (rule returns_seq [OF returns_by_name [of n', folded n]])
      (auto intro!: returns_ret returns_fail returns_seq [OF first] cached returns_seq [OF returns_ret] cand first
        simp: candidate_paths_search split: option.splits if_splits)
qed simp

section \<open>Concrete worlds\<close>

text \<open>Another thread is loading \<open>libz.so.1\<close> from the file \<open>/usr/lib/libz.so\<close> is a link to.\<close>

definition ex_busy_m :: "list_ctx manager" where
  "ex_busy_m = res_get ex_m (reserve_pending list_ops ''libz.so.1'' ''/usr/lib/libz.so.1''
     (Some \<lparr>fi_dev = 1, fi_ino = 20\<rparr>) RTLD_NOW ex_m)"

definition ex_busy_world :: "(nat \<Rightarrow> list_ctx manager \<Rightarrow> list_ctx manager) \<Rightarrow> (list_ctx, string) world" where
  "ex_busy_world others = \<lparr>w_ops = list_ops, w_others = others, w_env = ex_env\<rparr>"

text \<open>That thread gives up the second time it runs.\<close>

definition ex_gives_up :: "nat \<Rightarrow> list_ctx manager \<Rightarrow> list_ctx manager" where
  "ex_gives_up t m = (if t = 1 then res_get m (Registry.remove list_ops ''libz.so.1'' m) else m)"

text \<open>
  That thread gives up, and a third thread commits a library of its own under the name
  \<open>libz.so\<close>.
\<close>

definition ex_other_libz :: dylib where
  "ex_other_libz = ex_dylib ''/b/libz.so'' 0x900000 [] (Some \<lparr>fi_dev = 1, fi_ino = 30\<rparr>)"

definition ex_removed :: "list_ctx manager" where
  "ex_removed = res_get ex_m (Registry.remove list_ops ''libz.so.1'' ex_busy_m)"

definition ex_overtaken :: "list_ctx manager" where
  "ex_overtaken = res_get ex_m (merge_link_context list_ops
     [(''libz.so'', ex_other_libz, global_meta_default, [])] RTLD_NOW [''libz.so''] ex_removed)"

text \<open>A linker script that names itself.\<close>

definition ex_cycle_env :: os_env where
  "ex_cycle_env = ex_env\<lparr>fs_inode := (\<lambda>p. Ok \<lparr>fi_dev = 1, fi_ino = 40\<rparr>),
     fs_read_limit := (\<lambda>p n. Ok (bytes_of_str ''INPUT(/l)'')), fs_read := (\<lambda>p. Ok (bytes_of_str ''INPUT(/l)''))\<rparr>"

lemma ex_script: "get_linker_script_libs (bytes_of_str ''INPUT(/l)'') = [''/l'']"
proof -
  have "from_utf8_lossy (bytes_of_str ''INPUT(/l)'') = code_points ''INPUT(/l)''"
    by (rule lossy_ascii) (simp add: is_ascii_def)
  then have "get_linker_script_libs (bytes_of_str ''INPUT(/l)'') =
    map (\<lambda>t. str_of_bytes (utf8_encode t)) (script_loop (tokenize (code_points ''INPUT(/l)'')) [])"
    by (simp add: get_linker_script_libs_def)
  also have "script_loop (tokenize (code_points ''INPUT(/l)'')) [] = [code_points ''/l'']"
    by (simp add: code_points_def is_whitespace_def in_token_def peek_is_def is_input_command_def
        eq_ignore_ascii_case_def to_ascii_lower_def starts_with_dash_def tokenize.simps(2))
  also have "map (\<lambda>t. str_of_bytes (utf8_encode t)) [code_points ''/l''] = [''/l'']"
    by (simp add: encode_ascii is_ascii_def)
  finally show ?thesis .
qed
lemma ex_cycle_script: "load_candidate_file ex_cycle_env p = Ok (Script (''/l'' # []))"
proof -
  have "\<not> is_elf_input (bytes_of_str ''INPUT(/l)'')" by (simp add: is_elf_input_def bytes_of_str_def)
  then show ?thesis by (simp add: load_candidate_file_def ex_cycle_env_def ex_script)
qed

section \<open>Properties\<close>



text \<open>
  C11. The search for a library returns: when every library still loading belongs to this
  call, and linker scripts refer to each other without a cycle (a rank on names decreases
  from a script to the libraries it lists), fuel \<open>rank + 2\<close> suffices.
\<close>

theorem resolve_request_terminates:
  assumes "script_rank (w_env w) rpath runpath rank" "calm s" "rank lib + 2 \<le> n"
  shows "\<exists>r s'. resolve_request n w visible rpath runpath None lib s = Some (r, s') \<and> calm s'"
  using returnsD [OF returns_request [OF assms(1,3)] assms(2)] assms(1) by (auto simp: script_rank_def)

theorem resolve_request_terminates_witness:
  "\<exists>r s'. resolve_request 2 ex_world None [] [] None ''libz.so'' (open_context ex_world RTLD_NOW 0 ex_m) = Some (r, s')"
proof -
  have "load_candidate ex_env path None \<noteq> Ok (Script libs)" for path libs
    by (simp add: load_candidate_def load_candidate_file_def ex_env_def missing_def is_elf_input_def)
  then have "script_rank (w_env ex_world) [] [] (\<lambda>_. 0)" by (simp add: script_rank_def ex_world_def)
  moreover have "pending ex_m = []" by code_simp
  then have "calm (open_context ex_world RTLD_NOW 0 ex_m)"
    by (simp add: calm_def open_context_def im_get_def)
  ultimately show ?thesis
    using resolve_request_terminates [of ex_world "[]" "[]" "\<lambda>_. 0" "open_context ex_world RTLD_NOW 0 ex_m"
        "''libz.so''" 2 None] by auto
qed

text \<open>
  C34. A linker script that names its own file is followed without end: for every amount of
  fuel the search has not returned.
\<close>

theorem resolve_request_cyclic_script:
  assumes "CHR ''/'' \<in> set lib" "os_locked s" "lookup (w_ops w) (os_manager s) (fs_file_name (w_env w) lib) = None"
    and "fs_inode (w_env w) lib = Ok i" "lookup_by_identity (w_ops w) (os_manager s) i = None"
    and "load_candidate_file (w_env w) lib = Ok (Script (lib # libs))"
  shows "resolve_request n w None rpath runpath None lib s = None"
proof (induction n)
  case (Suc n)
  show ?case
  proof (cases n)
    case 0
    then show ?thesis
      by (simp add: Let_def seq_def resolve_existing_by_name_def visible_is_some_and_def ret_def get_added_def
          wait_for_library_def)
  next
    case (Suc n')
    then have "resolve_existing_by_name n w (fs_file_name (w_env w) lib) None s = Some (Ok None, s)"
      using assms(2,3) by (simp add: seq_def resolve_existing_by_name_def visible_is_some_and_def ret_def
          get_added_def wait_for_library_def)
    moreover have "resolve_existing_by_path n w lib (fs_file_name (w_env w) lib) None s = Some (Ok None, s)"
      using assms(2,4,5) Suc by (simp add: seq_def resolve_existing_by_path_def visible_is_some_and_def ret_def
          get_added_def inode_fallback_def lift_res_def)
    ultimately show ?thesis
      using assms(1,6) Suc.IH
      by (simp add: Let_def seq_def resolve_candidate_path_def lift_res_def load_candidate_def resolve_script_def)
  qed
qed simp

theorem resolve_request_cyclic_script_witness:
  "\<forall>n. resolve_request n (ex_world\<lparr>w_env := ex_cycle_env\<rparr>) None [] [] None ''/l''
     (open_context ex_world RTLD_NOW 0 ex_m) = None"
proof -
  let ?w = "ex_world\<lparr>w_env := ex_cycle_env\<rparr>" and ?s = "open_context ex_world RTLD_NOW 0 ex_m"
  have "CHR ''/'' \<in> set ''/l''" "os_locked ?s" by (simp_all add: open_context_def)
  moreover have "lookup (w_ops ?w) (os_manager ?s) (fs_file_name (w_env ?w) ''/l'') = None" by code_simp
  moreover have "fs_inode (w_env ?w) ''/l'' = Ok \<lparr>fi_dev = 1, fi_ino = 40\<rparr>" by (simp add: ex_cycle_env_def)
  moreover have "lookup_by_identity (w_ops ?w) (os_manager ?s) \<lparr>fi_dev = 1, fi_ino = 40\<rparr> = None" by code_simp
  moreover have "load_candidate_file (w_env ?w) ''/l'' = Ok (Script (''/l'' # []))" by (simp add: ex_cycle_script)
  ultimately show ?thesis
    by (intro allI) (rule resolve_request_cyclic_script)
qed

text \<open>
  C13. For a library that is not loaded under its name, the search is one pass over the
  candidate files: the run path of the dependent (\<open>DT_RPATH\<close> only without \<open>DT_RUNPATH\<close>) around
  \<open>LD_LIBRARY_PATH\<close>, then \<open>ld.so.cache\<close>, then the default directories. The first candidate
  that does not fail with \<open>NotFound\<close> decides.
\<close>

theorem resolve_request_search_order:
  assumes "CHR ''/'' \<notin> set lib" "cached_path (w_env w) lib = Ok cached"
    and "resolve_existing_by_name n w (fs_file_name (w_env w) lib) visible s = Some (Ok None, s1)"
  shows "resolve_request (Suc n) w visible rpath runpath bytes lib s =
    seq (resolve_first (resolve_candidate_path n w (resolve_request n w visible rpath runpath None) visible bytes)
           (candidate_paths (w_env w) rpath runpath lib))
      (\<lambda>r. case r of Some module \<Rightarrow> ret module
        | None \<Rightarrow> fail (find_lib_error (''can not find library: '' @ lib))) s1"
proof -
  let ?f = "resolve_candidate_path n w (resolve_request n w visible rpath runpath None) visible bytes"
  let ?c = "case cached of None \<Rightarrow> [] | Some path \<Rightarrow> [path]"
  have paths: "candidate_paths (w_env w) rpath runpath lib =
      map (\<lambda>dir. fs_join (w_env w) dir lib) (search_dirs (w_env w) rpath runpath) @ ?c @
      map (\<lambda>dir. fs_join (w_env w) dir lib) (default_path (fs_arch (w_env w)))"
    using assms(1,2) by (simp add: candidate_paths_search split: option.splits)
  have cached: "(case cached of None \<Rightarrow> ret None | Some path \<Rightarrow> resolve_first ?f [path]) = resolve_first ?f ?c"
    by (cases cached) (auto simp: fun_eq_iff ret_def)
  have name: "seq (resolve_existing_by_name n w (fs_file_name (w_env w) lib) visible) g s = g None s1" for g
    using assms(3) by (simp add: seq_def)
  show ?thesis
    unfolding resolve_request.simps Let_def name paths resolve_first_append seq_assoc seq_option
      assms(2) seq_lift_Ok cached option.case if_not_P [OF assms(1)]
    by (rule refl)
qed

theorem resolve_request_search_order_witness:
  "resolve_request (Suc 1) ex_world None [] [] None ''libz.so'' (open_context ex_world RTLD_NOW 0 ex_m) =
    seq (resolve_first (resolve_candidate_path 1 ex_world (resolve_request 1 ex_world None [] [] None) None None)
           (candidate_paths ex_env [] [] ''libz.so''))
      (\<lambda>r. case r of Some module \<Rightarrow> ret module
        | None \<Rightarrow> fail (find_lib_error (''can not find library: '' @ ''libz.so'')))
      (open_context ex_world RTLD_NOW 0 ex_m)"
proof -
  let ?s = "open_context ex_world RTLD_NOW 0 ex_m"
  have env: "w_env ex_world = ex_env" and slash: "CHR ''/'' \<notin> set ''libz.so''" by (simp_all add: ex_world_def)
  have cached: "cached_path (w_env ex_world) ''libz.so'' = Ok None"
    by (simp add: env cached_path_def ex_env_def)
  have "lookup (w_ops ex_world) (os_manager ?s) (fs_file_name (w_env ex_world) ''libz.so'') = None"
    by code_simp
  then have name: "resolve_existing_by_name 1 ex_world (fs_file_name (w_env ex_world) ''libz.so'') None ?s =
      Some (Ok None, ?s)"
    by (simp add: resolve_existing_by_name_def visible_is_some_and_def seq_def ret_def get_added_def
        wait_for_library_def open_context_def)
  show ?thesis
    using resolve_request_search_order [OF slash cached name, of "[]" "[]" None] unfolding env .
qed

text \<open>
  C35. A race: while a search waits for another thread that is loading the same file under
  another name, it gives up the lock after it has looked up its own name. If that thread then
  fails and a third one commits a library under the name, the search reserves the name
  nevertheless: the library is loading and committed at once, and the invariant is lost. Every
  step of the other threads keeps the invariant.
\<close>

theorem resolve_request_race:
  "\<exists>w s s' m1. manager_inv list_ops im_wf (os_manager s) \<and> os_locked s \<and> w_ops w = list_ops \<and> env_ok (w_env w) \<and>
     manager_step list_ops im_wf (os_manager s) m1 \<and>
     manager_step list_ops im_wf m1 (w_others w (os_ticks s) (os_manager s)) \<and>
     resolve_request 3 w None [] [] None ''libz.so'' s =
       Some (Ok (Load ''libz.so'' (Elf_File ''/usr/lib/libz.so'')), s') \<and>
     \<not> manager_inv list_ops im_wf (os_manager s')"
proof -
  let ?w = "ex_busy_world (\<lambda>t m. ex_overtaken)"
  let ?s = "open_context ?w RTLD_NOW 0 ex_busy_m"
  let ?run = "resolve_request 3 ?w None [] [] None ''libz.so'' ?s"
  have free: "\<not> registered list_ops ex_m ''libz.so.1''"
    using list_ctx.contains_canonical_key_iff [OF list_ctx.inv_ctx [OF ex_inv], of "''libz.so.1''"] by code_simp
  have inv: "manager_inv list_ops im_wf ex_busy_m"
    using list_ctx.inv_reserve_pending [OF ex_inv free, of "''/usr/lib/libz.so.1''"
        "Some \<lparr>fi_dev = 1, fi_ino = 20\<rparr>" RTLD_NOW] by (auto simp: ex_busy_m_def)
  have "is_Ok (Registry.remove list_ops ''libz.so.1'' ex_busy_m)" by code_simp
  then have step1: "manager_step list_ops im_wf ex_busy_m ex_removed"
    unfolding ex_removed_def by (rule manager_step.unload [OF is_Ok_res_get])
  have "is_Ok (merge_link_context list_ops [(''libz.so'', ex_other_libz, global_meta_default, [])] RTLD_NOW
      [''libz.so''] ex_removed)" by code_simp
  then have step2: "manager_step list_ops im_wf ex_removed ex_overtaken"
    unfolding ex_overtaken_def
    by (intro manager_step.merge [OF _ _ is_Ok_res_get]) (simp_all add: im_wf_def im_keys_def)
  have "map_option fst ?run = Some (Ok (Load ''libz.so'' (Elf_File ''/usr/lib/libz.so'')))"
    "map_option (\<lambda>(r, s). im_get (pending (os_manager s)) ''libz.so'' \<noteq> None \<and>
       lc_contains_key list_ops (link_ctx (os_manager s)) ''libz.so'') ?run = Some True"
    by code_simp+
  then obtain s' where s': "?run = Some (Ok (Load ''libz.so'' (Elf_File ''/usr/lib/libz.so'')), s')"
    "im_get (pending (os_manager s')) ''libz.so'' \<noteq> None" "lc_contains_key list_ops (link_ctx (os_manager s')) ''libz.so''"
    by auto
  have broken: "\<not> manager_inv list_ops im_wf (os_manager s')"
  proof
    assume "manager_inv list_ops im_wf (os_manager s')"
    then have "lc_view list_ops (link_ctx (os_manager s')) ''libz.so'' = None" "im_wf (link_ctx (os_manager s'))"
      using s'(2) by (auto simp: manager_inv_defs)
    with s'(3) list_ctx.view_contains_key show False by blast
  qed
  show ?thesis
    by (rule exI [of _ ?w], rule exI [of _ ?s], rule exI [of _ s'], rule exI [of _ ex_removed])
      (use inv step1 step2 s'(1) broken in \<open>simp add: open_context_def ex_busy_world_def ex_env_ok\<close>)
qed

end
