(* ===== verification/Usize.thy ===== *)
theory Usize
  imports Prelude
begin

text \<open>
  The checked arithmetic of \<open>usize\<close> the sources use (\<open>checked_add\<close>,
  \<open>checked_next_power_of_two\<close>) and what it means on natural numbers.
\<close>

definition checked_add :: "usize \<Rightarrow> usize \<Rightarrow> usize option" where
  "checked_add a b = (if a + b < a then None else Some (a + b))"

definition checked_next_power_of_two :: "usize \<Rightarrow> usize option" where
  "checked_next_power_of_two x = find (\<lambda>p. x \<le> p) (map (\<lambda>i. push_bit i 1) [0..<64])"

lemma usize_bound: "unat (x :: usize) < 2 ^ 64"
  using unsigned_less [of x] by simp

lemma checked_add_Some:
  "checked_add a b = Some c \<longleftrightarrow> unat a + unat b < 2 ^ 64 \<and> c = a + b"
proof -
  have "a \<le> a + b \<longleftrightarrow> unat a + unat b < 2 ^ 64"
    using no_olen_add_nat [of a b] by simp
  then show ?thesis by (auto simp: checked_add_def not_less)
qed

lemma checked_add_None: "checked_add a b = None \<longleftrightarrow> 2 ^ 64 \<le> unat a + unat b"
  using checked_add_Some [of a b "a + b"] by (cases "checked_add a b") (auto simp: checked_add_def split: if_splits)

lemma checked_add_unat: "checked_add a b = Some c \<Longrightarrow> unat c = unat a + unat b"
  using unat_add_lem [of a b] by (simp add: checked_add_Some)

lemma next_power_of_two:
  assumes "checked_next_power_of_two x = Some p"
  shows "\<exists>k < 64. p = 2 ^ k" "x \<le> p"
  using assms by (auto simp: checked_next_power_of_two_def find_Some_iff push_bit_eq_mult)

lemma and_not_mask_unat: "unat ((x :: usize) AND NOT (mask k)) = unat x div 2 ^ k * 2 ^ k"
proof -
  have eq: "x AND NOT (mask k) = push_bit k (drop_bit k x)"
    by (rule bit_eqI) (auto simp: bit_and_iff bit_not_iff bit_mask_iff bit_push_bit_iff bit_drop_bit_eq)
  have "unat x div 2 ^ k * 2 ^ k \<le> unat x" by simp
  also have "\<dots> < 2 ^ 64" using unsigned_less [of x] by simp
  finally show ?thesis
    unfolding eq unsigned_push_bit_eq unat_drop_bit_eq
    by (simp add: push_bit_eq_mult drop_bit_eq_div take_bit_nat_eq_self)
qed

lemma unat_power: "k < 64 \<Longrightarrow> unat (2 ^ k :: usize) = 2 ^ k"
proof -
  assume "k < 64"
  then have "(2 :: nat) ^ k < 2 ^ 64" by (intro power_strict_increasing) simp_all
  moreover have "unat (2 ^ k :: usize) = 2 ^ k mod 2 ^ 64"
    using unat_of_nat [where 'a = 64, of "2 ^ k"] by simp
  ultimately show ?thesis by simp
qed

text \<open>Divisibility by a power of two survives wrap-around.\<close>

lemma dvd_unat_add:
  assumes "k < 64" "2 ^ k dvd unat (x :: usize)" "2 ^ k dvd unat y"
  shows "2 ^ k dvd unat (x + y)"
proof -
  have "(2 :: nat) ^ k dvd 2 ^ 64" using assms(1) by (intro le_imp_power_dvd) simp
  moreover have "unat (x + y) = (unat x + unat y) mod 2 ^ 64" by (simp add: unat_word_ariths)
  ultimately show ?thesis using assms(2,3) by (simp only: dvd_mod dvd_add)
qed

lemma dvd_unat_uminus:
  assumes "k < 64" "2 ^ k dvd unat (x :: usize)"
  shows "2 ^ k dvd unat (- x)"
proof (cases "x = 0")
  case False
  have "x + - x = 0" by simp
  then have "(unat x + unat (- x)) mod 2 ^ 64 = 0"
    using unat_word_ariths(1) [of x "- x"] by simp
  then have "2 ^ 64 dvd unat x + unat (- x)" by (simp only: mod_eq_0_iff_dvd)
  moreover have "(2 :: nat) ^ k dvd 2 ^ 64" using assms(1) by (intro le_imp_power_dvd) simp
  ultimately have "2 ^ k dvd unat x + unat (- x)" by (rule dvd_trans [rotated])
  with assms(2) show ?thesis by (simp only: dvd_add_right_iff)
qed simp

end
