(* ===== verification/Memory.thy ===== *)
theory Memory
  imports Usize
begin

text \<open>
  Memory as the startup code sees it: a function from addresses to bytes. A \<open>usize\<close> is read
  and written as eight bytes, the lowest first; addresses wrap around at \<open>2 ^ 64\<close>.
\<close>

type_synonym memory = "usize \<Rightarrow> u8"

fun load_le :: "nat \<Rightarrow> memory \<Rightarrow> usize \<Rightarrow> usize" where
  "load_le 0 mem a = 0"
| "load_le (Suc n) mem a = ucast (mem a) OR push_bit 8 (load_le n mem (a + 1))"

definition read_usize :: "memory \<Rightarrow> usize \<Rightarrow> usize" where
  "read_usize mem a = load_le 8 mem a"

definition write_usize :: "usize \<Rightarrow> usize \<Rightarrow> memory \<Rightarrow> memory" where
  "write_usize a v mem = (\<lambda>x. if x - a < 8 then ucast (drop_bit (8 * unat (x - a)) v) else mem x)"

text \<open>Two words that do not overlap.\<close>

definition apart :: "usize \<Rightarrow> usize \<Rightarrow> bool" where
  "apart a b \<longleftrightarrow> 8 \<le> b - a \<and> 8 \<le> a - b"

lemma apart_sym: "apart a b \<Longrightarrow> apart b a"
  by (simp add: apart_def)

lemma bit_load_le:
  "bit (load_le n mem a) i \<longleftrightarrow> i < 64 \<and> i < 8 * n \<and> bit (mem (a + of_nat (i div 8))) (i mod 8)"
proof (induction n arbitrary: a i)
  case (Suc n)
  show ?case
  proof (cases "i < 8")
    case True
    then show ?thesis by (simp add: bit_or_iff bit_push_bit_iff bit_ucast_iff)
  next
    case False
    then obtain j where i: "i = j + 8" using le_Suc_ex [of 8 i] by (metis add.commute not_less)
    have "\<not> bit (mem a) (j + 8)" using bit_imp_le_length [of "mem a" "j + 8"] by auto
    moreover have "i div 8 = Suc (j div 8)" by (simp add: i)
    then have "a + of_nat (i div 8) = a + 1 + of_nat (j div 8)" by simp
    ultimately show ?thesis
      by (auto simp: bit_or_iff bit_push_bit_iff bit_ucast_iff Suc.IH i add.assoc)
  qed
qed simp

lemma load_le_cong:
  "(\<And>k. k < n \<Longrightarrow> mem' (a + of_nat k) = mem (a + of_nat k)) \<Longrightarrow> load_le n mem' a = load_le n mem a"
  by (rule bit_eqI) (auto simp: bit_load_le)

lemma read_write_same [simp]: "read_usize (write_usize a v mem) a = v"
proof (rule bit_eqI)
  fix i assume "possible_bit TYPE(64 word) i"
  then have i: "i < 64" by (simp add: possible_bit_word)
  then have un: "unat (of_nat (i div 8) :: usize) = i div 8" by (simp add: unat_of_nat)
  moreover from i have lt: "(of_nat (i div 8) :: usize) < 8" by (simp add: word_less_nat_alt un)
  moreover have "bit v (8 * (i div 8) + i mod 8) \<longleftrightarrow> bit v i" by simp
  ultimately show "bit (read_usize (write_usize a v mem) a) i \<longleftrightarrow> bit v i"
    using i by (simp add: read_usize_def write_usize_def bit_load_le bit_ucast_iff bit_drop_bit_eq un)
qed

lemma read_write_other:
  assumes "apart a b"
  shows "read_usize (write_usize a v mem) b = read_usize mem b"
  unfolding read_usize_def
proof (rule load_le_cong)
  fix k :: nat assume k: "k < 8"
  then have un: "unat (of_nat k :: usize) = k" by (simp add: unat_of_nat)
  have "\<not> b + of_nat k - a < 8"
  proof
    assume less: "b + of_nat k - a < 8"
    let ?d = "b - a" and ?k = "of_nat k :: usize"
    have eq: "b + ?k - a = ?d + ?k" by simp
    have big: "8 \<le> unat ?d" "8 \<le> unat (- ?d)" using assms by (simp_all add: apart_def word_le_nat_alt)
    have "unat (?d + ?k) < 8" using less eq by (simp add: word_less_nat_alt)
    moreover have "unat (?d + ?k) = (unat ?d + k) mod 2 ^ 64" by (simp add: unat_word_ariths un)
    moreover have "unat ?d \<le> 2 ^ 64 - 8"
    proof -
      have "0 < unat ?d" using big(1) by linarith
      then have "unat (- ?d) = 2 ^ 64 - unat ?d"
        using unat_sub_if_size [of 0 ?d] by (simp add: word_size del: unat_gt_0)
      then show ?thesis using big(2) by linarith
    qed
    ultimately show False using big(1) k by simp
  qed
  then show "write_usize a v mem (b + of_nat k) = mem (b + of_nat k)" by (simp add: write_usize_def)
qed

lemma write_outside: "\<not> x - a < 8 \<Longrightarrow> write_usize a v mem x = mem x"
  by (simp add: write_usize_def)

section \<open>Arrays of words\<close>

fun words_at :: "memory \<Rightarrow> usize \<Rightarrow> usize list \<Rightarrow> bool" where
  "words_at mem p [] \<longleftrightarrow> True"
| "words_at mem p (x # xs) \<longleftrightarrow> read_usize mem p = x \<and> words_at mem (p + 8) xs"

lemma words_at_append:
  "words_at mem p (xs @ ys) \<longleftrightarrow> words_at mem p xs \<and> words_at mem (p + 8 * of_nat (length xs)) ys"
proof (induction xs arbitrary: p)
  case (Cons x xs)
  then show ?case by (simp add: algebra_simps)
qed simp

lemma words_at_iff: "words_at mem p xs \<longleftrightarrow> (\<forall>i < length xs. read_usize mem (p + 8 * of_nat i) = xs ! i)"
proof (induction xs arbitrary: p)
  case (Cons x xs)
  then show ?case by (simp add: All_less_Suc2 algebra_simps)
qed simp

lemma words_at_nth: "words_at mem p xs \<Longrightarrow> i < length xs \<Longrightarrow> read_usize mem (p + 8 * of_nat i) = xs ! i"
  by (simp add: words_at_iff)

lemma words_at_cong:
  "(\<And>i. i < length xs \<Longrightarrow> read_usize mem' (p + 8 * of_nat i) = read_usize mem (p + 8 * of_nat i)) \<Longrightarrow>
   words_at mem' p xs = words_at mem p xs"
  by (simp add: words_at_iff)

text \<open>Different elements of one array do not overlap, whatever its address.\<close>

lemma apart_index:
  assumes "i < j" "j < 2 ^ 61"
  shows "apart (p + 8 * of_nat i) (p + 8 * of_nat j)"
proof -
  let ?n = "8 * (j - i)"
  have n: "8 \<le> ?n" "?n \<le> 2 ^ 64 - 8" "?n < 2 ^ 64" using assms by simp_all
  have "p + 8 * of_nat j - (p + 8 * of_nat i) = (of_nat ?n :: usize)"
    using assms(1) by (simp add: of_nat_diff algebra_simps)
  moreover have un: "unat (of_nat ?n :: usize) = ?n"
    using n(3) by (simp only: unat_of_nat) simp
  moreover have "p + 8 * of_nat i - (p + 8 * of_nat j) = - (of_nat ?n :: usize)"
    using assms(1) by (simp add: of_nat_diff algebra_simps)
  moreover have "unat (- (of_nat ?n :: usize)) = 2 ^ 64 - ?n"
    using unat_sub_if_size [of 0 "of_nat ?n :: usize"] un n(1) by (simp add: word_size)
  ultimately show ?thesis using n by (simp add: apart_def word_le_nat_alt)
qed

lemma read_write_index:
  assumes "i \<noteq> j" "i < 2 ^ 61" "j < 2 ^ 61"
  shows "read_usize (write_usize (p + 8 * of_nat i) v mem) (p + 8 * of_nat j) = read_usize mem (p + 8 * of_nat j)"
proof -
  have "apart (p + 8 * of_nat i) (p + 8 * of_nat j)"
    using apart_index [of i j p] apart_index [of j i p] assms by (cases "i < j") (auto intro: apart_sym)
  then show ?thesis by (rule read_write_other)
qed

text \<open>Writing an element of an array.\<close>

lemma words_at_update:
  assumes "words_at mem p xs" "i < length xs" "length xs \<le> 2 ^ 61"
  shows "words_at (write_usize (p + 8 * of_nat i) v mem) p (xs[i := v])"
proof -
  have "read_usize (write_usize (p + 8 * of_nat i) v mem) (p + 8 * of_nat j) = xs[i := v] ! j" if "j < length xs" for j
    using words_at_nth [OF assms(1) that] read_write_index [of i j p v mem] assms(2,3) that
    by (cases "i = j") auto
  then show ?thesis by (subst words_at_iff) simp
qed

section \<open>Regions\<close>

text \<open>The address \<open>x\<close> is one of the \<open>n\<close> bytes from \<open>p\<close> on.\<close>

definition inside :: "usize \<Rightarrow> usize \<Rightarrow> nat \<Rightarrow> bool" where
  "inside x p n \<longleftrightarrow> unat (x - p) < n"

lemma inside_mono:
  assumes "inside x (p + of_nat a) m" "a + m \<le> n"
  shows "inside x p n"
proof -
  have "x - p = (x - (p + of_nat a)) + of_nat a" by simp
  then have "unat (x - p) \<le> unat (x - (p + of_nat a)) + unat (of_nat a :: usize)"
    by (metis unat_plus_if' le_add1 nat_le_linear not_le diff_le_self)
  moreover have "unat (of_nat a :: usize) \<le> a" by (simp add: unat_of_nat)
  ultimately show ?thesis using assms by (simp add: inside_def)
qed

lemma inside_offset: "k < n \<Longrightarrow> inside (p + of_nat k) p n"
proof -
  have "unat (of_nat k :: usize) \<le> k" by (simp add: unat_of_nat)
  then show "k < n \<Longrightarrow> ?thesis" by (simp add: inside_def)
qed

lemma inside_iff: "n \<le> 2 ^ 64 \<Longrightarrow> inside x p n \<longleftrightarrow> (\<exists>k < n. x = p + of_nat k)"
proof
  assume "inside x p n"
  then show "\<exists>k < n. x = p + of_nat k"
    by (intro exI [of _ "unat (x - p)"]) (simp add: inside_def)
qed (auto intro: inside_offset)

text \<open>A region ends where the next one begins.\<close>

lemma not_inside_before:
  assumes "k < a" "a + m \<le> 2 ^ 64"
  shows "\<not> inside (p + of_nat k) (p + of_nat a) m"
proof -
  have "p + of_nat k - (p + of_nat a) = - (of_nat (a - k) :: usize)" using assms(1) by (simp add: of_nat_diff)
  moreover have "unat (- (of_nat (a - k) :: usize)) = 2 ^ 64 - (a - k)"
  proof (cases "a - k = 2 ^ 64")
    case False
    with assms have "unat (of_nat (a - k) :: usize) = a - k" by (simp only: unat_of_nat) simp
    then show ?thesis
      using unat_sub_if_size [of 0 "of_nat (a - k) :: usize"] assms(1) by (simp add: word_size)
  qed simp
  ultimately show ?thesis using assms by (simp add: inside_def)
qed

lemma before_disjoint:
  assumes "inside x p a" "a + m \<le> 2 ^ 64"
  shows "\<not> inside x (p + of_nat a) m"
proof -
  from assms obtain k where "k < a" "x = p + of_nat k" by (auto simp: inside_iff)
  with assms(2) not_inside_before show ?thesis by blast
qed

lemma read_frame:
  assumes "\<And>x. inside x a 8 \<Longrightarrow> mem' x = mem x"
  shows "read_usize mem' a = read_usize mem a"
  unfolding read_usize_def by (rule load_le_cong) (auto intro: assms inside_offset)

lemma write_frame: "\<not> inside x a 8 \<Longrightarrow> write_usize a v mem x = mem x"
  by (simp add: write_usize_def inside_def word_less_nat_alt)

lemma words_frame:
  assumes "\<And>x. inside x p (8 * length xs) \<Longrightarrow> mem' x = mem x"
  shows "words_at mem' p xs = words_at mem p xs"
proof (rule words_at_cong, rule read_frame)
  fix i x assume "i < length xs" "inside x (p + 8 * of_nat i) 8"
  then show "mem' x = mem x" using inside_mono [of x p "8 * i" 8 "8 * length xs"] by (auto intro: assms)
qed

text \<open>Memory that holds a given array.\<close>

fun store_words :: "usize \<Rightarrow> usize list \<Rightarrow> memory \<Rightarrow> memory" where
  "store_words p [] mem = mem"
| "store_words p (x # xs) mem = write_usize p x (store_words (p + 8) xs mem)"

lemma store_words_at: "8 * length xs \<le> 2 ^ 64 \<Longrightarrow> words_at (store_words p xs mem) p xs"
proof (induction xs arbitrary: p)
  case (Cons x xs)
  have "write_usize p x (store_words (p + 8) xs mem) y = store_words (p + 8) xs mem y"
    if "inside y (p + 8) (8 * length xs)" for y
    using before_disjoint [of y p 8 "8 * length xs"] that Cons.prems by (intro write_frame) auto
  from words_frame [OF this] Cons show ?case by simp
qed simp

lemma store_words_frame: "\<not> inside x p (8 * length xs) \<Longrightarrow> store_words p xs mem x = mem x"
proof (induction xs arbitrary: p)
  case (Cons y ys)
  have "\<not> inside x p 8" "\<not> inside x (p + 8) (8 * length ys)"
    using Cons.prems inside_mono [of x p 0 8 "8 * length (y # ys)"]
      inside_mono [of x p 8 "8 * length ys" "8 * length (y # ys)"] by auto
  with Cons.IH show ?case by (simp add: write_frame)
qed simp

end
