(* ===== verification/Static_Tls.thy ===== *)
theory Static_Tls
  imports Memory
begin

text \<open>
  \<open>src/rtld.rs\<close>, module \<open>tls\<close>: the static TLS area of the replacement dynamic linker. Each
  module with thread-local storage gets a block at a fixed offset below the thread pointer;
  the blocks of the main thread live in an arena, those of another thread in a fresh
  allocation.

  Parameters (record \<open>tls_env\<close>): the allocator, which gives the \<open>n\<close>-th allocation of a size
  and an alignment an address, and \<open>DefaultTlsResolver::add_static_tls\<close> of \<open>elf_loader\<close>; the
  backend with its two functions is registered by the code. An overflow that a build with
  overflow checks reports is a panic.
\<close>

section \<open>State\<close>

datatype tls_error = Static_Resolver_Unsupported | Other_Tls_Error nat

text \<open>\<open>TlsInfo\<close> of \<open>elf_loader\<close>; the image is read through its pointer.\<close>

record tls_info =
  ti_image :: "nat \<Rightarrow> u8"
  ti_filesz :: usize
  ti_memsz :: usize
  ti_align :: usize

record tls_backend =
  be_init_tcb :: "usize \<Rightarrow> memory \<Rightarrow> bool \<times> memory"
  be_install_thread_pointer :: "usize \<Rightarrow> bool"
  be_tcb_size :: usize
  be_tcb_align :: usize

record static_tls_area =
  ta_tp :: usize
  ta_used :: usize
  ta_max_align :: usize

record static_tls_module =
  tm_info :: tls_info
  tm_offset :: usize

record tls_allocation =
  al_tp :: usize
  al_base :: usize
  al_size :: usize
  al_align :: usize

record tls_state =
  ts_backend :: "tls_backend option"
  ts_area :: "static_tls_area option"
  ts_modules :: "static_tls_module list"
  ts_allocations :: "tls_allocation list"
  ts_mem :: memory
  ts_allocs :: nat
  ts_freed :: "(usize \<times> usize \<times> usize) list"

record tls_env =
  te_alloc :: "nat \<Rightarrow> usize \<Rightarrow> usize \<Rightarrow> usize"
  te_add_static_tls :: "tls_info \<Rightarrow> usize \<Rightarrow> (tls_error, usize) res"

type_synonym 'a tls_action = "tls_state \<Rightarrow> (tls_error, 'a) res \<times> tls_state"

definition STATIC_TLS_ARENA_SIZE :: usize where "STATIC_TLS_ARENA_SIZE = 1024 * 1024"
definition STATIC_TLS_TCB_SIZE :: usize where "STATIC_TLS_TCB_SIZE = 4096"

definition tls_seq :: "'a tls_action \<Rightarrow> ('a \<Rightarrow> 'b tls_action) \<Rightarrow> 'b tls_action" where
  "tls_seq p f s =
     (case p s of (Ok a, s') \<Rightarrow> f a s' | (Err e, s') \<Rightarrow> (Err e, s') | (Panic m, s') \<Rightarrow> (Panic m, s'))"

text \<open>\<open>Option::ok_or(TlsError::StaticResolverUnsupported)?\<close>\<close>

definition or_unsupported :: "'a option \<Rightarrow> 'a tls_action" where
  "or_unsupported v s = (case v of Some a \<Rightarrow> (Ok a, s) | None \<Rightarrow> (Err Static_Resolver_Unsupported, s))"

section \<open>Operations\<close>

definition align_up :: "usize \<Rightarrow> usize \<Rightarrow> usize option" where
  "align_up value align = map_option (\<lambda>v. v AND NOT (align - 1)) (checked_add value (align - 1))"

definition register_backend :: "tls_backend \<Rightarrow> tls_state \<Rightarrow> tls_state" where
  "register_backend backend s =
     (case ts_backend s of None \<Rightarrow> s\<lparr>ts_backend := Some backend\<rparr> | Some _ \<Rightarrow> s)"

definition static_used_info :: "tls_state \<Rightarrow> usize \<times> usize" where
  "static_used_info s =
     (case ts_area s of Some area \<Rightarrow> (ta_used area, ta_max_align area) | None \<Rightarrow> (0, 1))"

definition static_info :: "tls_state \<Rightarrow> usize \<times> usize" where
  "static_info s =
     (case ts_backend s of
        None \<Rightarrow> static_used_info s
      | Some backend \<Rightarrow>
          (case static_used_info s of (used, align) \<Rightarrow>
             (let align = max (max align (be_tcb_align backend)) 1;
                  sz = (case align_up used align of
                            None \<Rightarrow> 0
                          | Some used \<Rightarrow>
                              (case checked_add used (be_tcb_size backend) of None \<Rightarrow> 0 | Some n \<Rightarrow> n))
              in (sz, align))))"

definition init_tcb :: "usize \<Rightarrow> unit tls_action" where
  "init_tcb tp s =
     (case ts_backend s of
        None \<Rightarrow> (Err Static_Resolver_Unsupported, s)
      | Some backend \<Rightarrow>
          (case be_init_tcb backend tp (ts_mem s) of (done_ok, mem) \<Rightarrow>
             (if done_ok then Ok () else Err Static_Resolver_Unsupported, s\<lparr>ts_mem := mem\<rparr>)))"

definition install_thread_pointer :: "usize \<Rightarrow> unit tls_action" where
  "install_thread_pointer tp s =
     (case ts_backend s of
        None \<Rightarrow> (Err Static_Resolver_Unsupported, s)
      | Some backend \<Rightarrow>
          (if be_install_thread_pointer backend tp then Ok () else Err Static_Resolver_Unsupported, s))"

text \<open>
  \<open>Layout::from_size_align\<close> refuses an alignment that is not a power of two and a size that
  overflows \<open>isize\<close> when rounded up. \<open>alloc_zeroed\<close> clears the new block; a null pointer ends
  the process.
\<close>

definition layout_ok :: "usize \<Rightarrow> usize \<Rightarrow> bool" where
  "layout_ok sz align \<longleftrightarrow> align \<noteq> 0 \<and> align AND (align - 1) = 0 \<and> sz \<le> push_bit 63 1 - align"

definition clear_block :: "usize \<Rightarrow> usize \<Rightarrow> memory \<Rightarrow> memory" where
  "clear_block base sz mem = (\<lambda>a. if a - base < sz then 0 else mem a)"

definition alloc_zeroed :: "tls_env \<Rightarrow> usize \<Rightarrow> usize \<Rightarrow> usize tls_action" where
  "alloc_zeroed env sz align s =
     (let base = te_alloc env (ts_allocs s) sz align;
          s = s\<lparr>ts_allocs := Suc (ts_allocs s)\<rparr>
      in if base = 0 then (Panic ''memory allocation failed'', s)
         else (Ok base, s\<lparr>ts_mem := clear_block base sz (ts_mem s)\<rparr>))"

definition ensure_static_tls_area :: "tls_env \<Rightarrow> static_tls_area tls_action" where
  "ensure_static_tls_area env =
     tls_seq (or_unsupported (if layout_ok (STATIC_TLS_ARENA_SIZE + STATIC_TLS_TCB_SIZE) 4096
                              then Some () else None)) (\<lambda>_.
     tls_seq (alloc_zeroed env (STATIC_TLS_ARENA_SIZE + STATIC_TLS_TCB_SIZE) 4096) (\<lambda>base.
     (let tp = base + STATIC_TLS_ARENA_SIZE in
      tls_seq (init_tcb tp) (\<lambda>_.
      tls_seq (install_thread_pointer tp) (\<lambda>_ s.
        (Ok \<lparr>ta_tp = tp, ta_used = 0, ta_max_align = 1\<rparr>, s))))))"

text \<open>
  \<open>copy_nonoverlapping\<close> of the image and \<open>write_bytes\<close> of the rest; the length of the rest is
  \<open>memsz - filesz\<close>.
\<close>

definition copy_image :: "usize \<Rightarrow> (nat \<Rightarrow> u8) \<Rightarrow> usize \<Rightarrow> memory \<Rightarrow> memory" where
  "copy_image dst src n mem = (\<lambda>a. if a - dst < n then src (unat (a - dst)) else mem a)"

definition init_static_tls_module :: "usize \<Rightarrow> static_tls_module \<Rightarrow> unit tls_action" where
  "init_static_tls_module tp module s =
     (let info = tm_info module;
          dst = tp + tm_offset module;
          mem = copy_image dst (ti_image info) (ti_filesz info) (ts_mem s)
      in if ti_memsz info < ti_filesz info
         then (Panic ''attempt to subtract with overflow'', s\<lparr>ts_mem := mem\<rparr>)
         else (Ok (), s\<lparr>ts_mem := clear_block (dst + ti_filesz info)
                                 (ti_memsz info - ti_filesz info) mem\<rparr>))"

fun init_modules :: "usize \<Rightarrow> static_tls_module list \<Rightarrow> unit tls_action" where
  "init_modules tp [] s = (Ok (), s)"
| "init_modules tp (module # modules) s =
     tls_seq (init_static_tls_module tp module) (\<lambda>_. init_modules tp modules) s"

definition static_area :: "tls_env \<Rightarrow> static_tls_area tls_action" where
  "static_area env s =
     (case ts_area s of
        Some area \<Rightarrow> (Ok area, s)
      | None \<Rightarrow> tls_seq (ensure_static_tls_area env) (\<lambda>area s. (Ok area, s\<lparr>ts_area := Some area\<rparr>)) s)"

definition place_module :: "tls_env \<Rightarrow> tls_info \<Rightarrow> static_tls_area \<Rightarrow> (usize \<times> usize) tls_action" where
  "place_module env tls_info area =
     tls_seq (or_unsupported (checked_next_power_of_two (max (ti_align tls_info) 1))) (\<lambda>align.
     tls_seq (or_unsupported (checked_add (ta_used area) (ti_memsz tls_info))) (\<lambda>sum.
     tls_seq (or_unsupported (align_up sum align)) (\<lambda>used.
       if used > STATIC_TLS_ARENA_SIZE then (\<lambda>s. (Err Static_Resolver_Unsupported, s))
       else
         (let offset = - used;
              module = \<lparr>tm_info = tls_info, tm_offset = offset\<rparr>
          in tls_seq (init_static_tls_module (ta_tp area) module) (\<lambda>_ s.
             (let s = s\<lparr>ts_area := Some (area\<lparr>ta_used := used, ta_max_align := max (ta_max_align area) align\<rparr>)\<rparr>
              in case te_add_static_tls env tls_info offset of
                   Ok i \<Rightarrow> (Ok (i, offset), s\<lparr>ts_modules := ts_modules s @ [module]\<rparr>)
                 | Err e \<Rightarrow> (Err e, s)
                 | Panic p \<Rightarrow> (Panic p, s)))))))"

definition register_static_module :: "tls_env \<Rightarrow> tls_info \<Rightarrow> (usize \<times> usize) tls_action" where
  "register_static_module env tls_info = tls_seq (static_area env) (place_module env tls_info)"

definition refresh_static_tls :: "unit tls_action" where
  "refresh_static_tls s =
     (case ts_area s of None \<Rightarrow> (Ok (), s) | Some area \<Rightarrow> init_modules (ta_tp area) (ts_modules s) s)"

text \<open>\<open>init\<close> and \<open>allocate\<close> return the null pointer, 0, when they fail.\<close>

definition tls_init :: "usize \<Rightarrow> usize tls_action" where
  "tls_init storage s =
     (if storage = 0 then (Ok 0, s)
      else
        (case init_tcb storage s of
           (Ok _, s) \<Rightarrow> tls_seq (init_modules storage (ts_modules s)) (\<lambda>_ s. (Ok storage, s)) s
         | (_, s) \<Rightarrow> (Ok 0, s)))"

definition allocate_storage :: "tls_env \<Rightarrow> usize option tls_action" where
  "allocate_storage env s =
     (case ts_backend s of
        None \<Rightarrow> (Ok None, s)
      | Some backend \<Rightarrow>
          (case static_used_info s of (static_size, static_align) \<Rightarrow>
            (case checked_next_power_of_two (max (max static_align (be_tcb_align backend)) 8) of
               None \<Rightarrow> (Ok None, s)
             | Some align \<Rightarrow>
                 (case align_up static_size align of
                    None \<Rightarrow> (Ok None, s)
                  | Some static_size \<Rightarrow>
                      (case checked_add static_size (be_tcb_size backend) of
                         None \<Rightarrow> (Ok None, s)
                       | Some total_size \<Rightarrow>
                           if \<not> layout_ok (max total_size 1) align then (Ok None, s)
                           else
                             tls_seq (alloc_zeroed env (max total_size 1) align) (\<lambda>base s.
                               (let tp = base + static_size in
                                (Ok (Some tp), s\<lparr>ts_allocations := ts_allocations s @
                                   [\<lparr>al_tp = tp, al_base = base, al_size = max total_size 1,
                                     al_align = align\<rparr>]\<rparr>))) s)))))"

definition tls_allocate :: "tls_env \<Rightarrow> usize \<Rightarrow> usize tls_action" where
  "tls_allocate env storage =
     (if storage = 0
      then tls_seq (allocate_storage env) (\<lambda>r. case r of None \<Rightarrow> (\<lambda>s. (Ok 0, s)) | Some st \<Rightarrow> tls_init st)
      else tls_init storage)"

text \<open>\<open>Vec::swap_remove\<close>: the last element takes the place of the removed one.\<close>

definition swap_remove :: "nat \<Rightarrow> 'a list \<Rightarrow> 'a list" where
  "swap_remove i xs = butlast (xs[i := last xs])"

fun find_position :: "('a \<Rightarrow> bool) \<Rightarrow> 'a list \<Rightarrow> nat option" where
  "find_position P [] = None"
| "find_position P (x # xs) = (if P x then Some 0 else map_option Suc (find_position P xs))"

definition tls_deallocate :: "usize \<Rightarrow> bool \<Rightarrow> tls_state \<Rightarrow> tls_state" where
  "tls_deallocate storage dealloc_tcb s =
     (if \<not> dealloc_tcb \<or> storage = 0 then s
      else
        (case find_position (\<lambda>a. al_tp a = storage) (ts_allocations s) of
           None \<Rightarrow> s
         | Some i \<Rightarrow>
             (let a = ts_allocations s ! i in
              s\<lparr>ts_allocations := swap_remove i (ts_allocations s),
                ts_freed := (al_base a, al_size a, al_align a) # ts_freed s\<rparr>)))"

section \<open>Rounding up\<close>

lemma align_up_power:
  assumes "k < 64"
  shows "align_up v (2 ^ k) =
    (if unat v + 2 ^ k \<le> 2 ^ 64 then Some (of_nat ((unat v + (2 ^ k - 1)) div 2 ^ k * 2 ^ k)) else None)"
proof -
  have m: "(2 ^ k :: usize) - 1 = mask k" by (simp add: mask_eq_exp_minus_1)
  have um: "unat (mask k :: usize) = 2 ^ k - 1"
    unfolding m [symmetric] using assms unat_power [OF assms] by (simp add: unat_sub_if_size)
  have pos: "(1 :: nat) \<le> 2 ^ k" by simp
  show ?thesis
  proof (cases "unat v + 2 ^ k \<le> 2 ^ 64")
    case True
    with um pos have "unat v + unat (mask k :: usize) < 2 ^ 64" by linarith
    then have add: "checked_add v (mask k) = Some (v + mask k)" by (simp only: checked_add_Some simp_thms)
    from checked_add_unat [OF this] have un: "unat (v + mask k) = unat v + (2 ^ k - 1)" by (simp only: um)
    have "(v + mask k) AND NOT (mask k) = of_nat (unat ((v + mask k) AND NOT (mask k)))" by simp
    then show ?thesis using True add by (simp only: align_up_def m add option.map and_not_mask_unat un if_True)
  next
    case False
    with um pos have "2 ^ 64 \<le> unat v + unat (mask k :: usize)" by linarith
    then show ?thesis using False by (simp add: align_up_def m checked_add_None)
  qed
qed

lemma align_up_Some:
  assumes "align_up v (2 ^ k) = Some r" "k < 64"
  shows "2 ^ k dvd unat r" "unat v \<le> unat r" "unat r < unat v + 2 ^ k"
proof -
  let ?n = "(unat v + (2 ^ k - 1)) div 2 ^ k * 2 ^ k"
  from assms have le: "unat v + 2 ^ k \<le> 2 ^ 64" and r: "r = of_nat ?n"
    by (auto simp: align_up_power split: if_splits)
  have up: "?n \<le> unat v + (2 ^ k - 1)" by simp
  have pos: "(1 :: nat) \<le> 2 ^ k" by simp
  from up le pos have "?n < 2 ^ 64" by linarith
  then have n: "unat r = ?n" using r by (simp only: unat_of_nat) (simp add: unat_of_nat)
  show "2 ^ k dvd unat r" unfolding n by simp
  show "unat r < unat v + 2 ^ k" unfolding n using up pos by linarith
  have "(unat v + (2 ^ k - 1)) mod 2 ^ k < 2 ^ k" by simp
  then show "unat v \<le> unat r"
    unfolding n using div_mult_mod_eq [of "unat v + (2 ^ k - 1)" "2 ^ k"] pos by linarith
qed

section \<open>Layout of the blocks\<close>

text \<open>
  How far below the thread pointer a block starts, how long it is, and that the blocks of a
  list are stacked below each other without overlap.
\<close>

definition depth :: "static_tls_module \<Rightarrow> nat" where
  "depth m = unat (- tm_offset m)"

definition block_len :: "static_tls_module \<Rightarrow> nat" where
  "block_len m = unat (ti_memsz (tm_info m))"

definition stacked :: "static_tls_module list \<Rightarrow> bool" where
  "stacked ms = sorted_wrt (\<lambda>m m'. depth m + block_len m' \<le> depth m') ms"

definition block_ok :: "nat \<Rightarrow> usize \<Rightarrow> static_tls_module \<Rightarrow> bool" where
  "block_ok used max_align m \<longleftrightarrow> block_len m \<le> depth m \<and> depth m \<le> used \<and>
     ti_filesz (tm_info m) \<le> ti_memsz (tm_info m) \<and>
     (\<exists>k < 64. ti_align (tm_info m) \<le> 2 ^ k \<and> (2 ^ k :: usize) \<le> max_align \<and> 2 ^ k dvd depth m)"

definition tls_inv :: "tls_state \<Rightarrow> bool" where
  "tls_inv s \<longleftrightarrow>
     (case ts_area s of
        None \<Rightarrow> ts_modules s = []
      | Some area \<Rightarrow> unat (ta_used area) \<le> unat STATIC_TLS_ARENA_SIZE \<and> stacked (ts_modules s) \<and>
          (\<forall>m \<in> set (ts_modules s). block_ok (unat (ta_used area)) (ta_max_align area) m))"

inductive tls_step :: "tls_env \<Rightarrow> tls_state \<Rightarrow> tls_state \<Rightarrow> bool" for env where
  backend: "tls_step env s (register_backend b s)"
| register: "ti_filesz info \<le> ti_memsz info \<Longrightarrow> register_static_module env info s = (r, s') \<Longrightarrow> tls_step env s s'"
| refresh: "refresh_static_tls s = (r, s') \<Longrightarrow> tls_step env s s'"
| allocate: "tls_allocate env storage s = (r, s') \<Longrightarrow> tls_step env s s'"
| deallocate: "tls_step env s (tls_deallocate storage dealloc_tcb s)"

inductive tls_reachable :: "tls_env \<Rightarrow> tls_state \<Rightarrow> bool" for env where
  start: "ts_area s = None \<Longrightarrow> ts_modules s = [] \<Longrightarrow> tls_reachable env s"
| step: "tls_reachable env s \<Longrightarrow> tls_step env s s' \<Longrightarrow> tls_reachable env s'"

text \<open>Operations that do not touch the area and the list of modules.\<close>

definition same_layout :: "tls_state \<Rightarrow> tls_state \<Rightarrow> bool" where
  "same_layout s s' \<longleftrightarrow> ts_area s' = ts_area s \<and> ts_modules s' = ts_modules s"

lemma same_layout_refl [simp]: "same_layout s s"
  by (simp add: same_layout_def)

lemma same_layout_inv: "same_layout s s' \<Longrightarrow> tls_inv s \<Longrightarrow> tls_inv s'"
  by (auto simp: same_layout_def tls_inv_def split: option.splits)

lemma layout_frames:
  "init_tcb tp s = (r, s') \<Longrightarrow> same_layout s s'"
  "install_thread_pointer tp s = (r2, s') \<Longrightarrow> same_layout s s'"
  "alloc_zeroed env sz al s = (r3, s') \<Longrightarrow> same_layout s s'"
  "init_static_tls_module tp m s = (r4, s') \<Longrightarrow> same_layout s s'"
  by (auto simp: init_tcb_def install_thread_pointer_def alloc_zeroed_def init_static_tls_module_def
      same_layout_def Let_def split: option.splits prod.splits if_splits)

lemma same_layout_trans: "same_layout s s' \<Longrightarrow> same_layout s' s'' \<Longrightarrow> same_layout s s''"
  by (simp add: same_layout_def)

lemma seq_frame:
  assumes "tls_seq p f s = (r, s')" "\<And>r1 s1. p s = (r1, s1) \<Longrightarrow> same_layout s s1"
    and "\<And>a s1. p s = (Ok a, s1) \<Longrightarrow> f a s1 = (r, s') \<Longrightarrow> same_layout s1 s'"
  shows "same_layout s s'"
proof -
  obtain r1 s1 where p: "p s = (r1, s1)" by (cases "p s")
  then show ?thesis
    using assms by (cases r1) (auto simp: tls_seq_def intro: same_layout_trans)
qed

lemma init_modules_frame: "init_modules tp ms s = (r, s') \<Longrightarrow> same_layout s s'"
proof (induction ms arbitrary: s)
  case (Cons m ms)
  from Cons.prems show ?case
    by (auto intro: seq_frame [OF _ layout_frames(4) Cons.IH])
qed (simp add: same_layout_def)

lemma tls_init_frame: "tls_init storage s = (r, s') \<Longrightarrow> same_layout s s'"
proof (cases "storage = 0")
  case False
  assume run: "tls_init storage s = (r, s')"
  obtain r1 s1 where i: "init_tcb storage s = (r1, s1)" by (cases "init_tcb storage s")
  note fr = layout_frames(1) [OF i]
  show ?thesis
  proof (cases r1)
    case (Ok u)
    with run i False have "tls_seq (init_modules storage (ts_modules s1)) (\<lambda>_ s. (Ok storage, s)) s1 = (r, s')"
      by (simp add: tls_init_def)
    from seq_frame [OF this init_modules_frame] fr show ?thesis
      by (auto simp: same_layout_def)
  qed (use run i False fr in \<open>auto simp: tls_init_def\<close>)
qed (simp add: tls_init_def same_layout_def)

lemma allocate_storage_frame: "allocate_storage env s = (r, s') \<Longrightarrow> same_layout s s'"
  unfolding allocate_storage_def
  by (auto split: option.splits prod.splits if_splits simp: Let_def same_layout_def
      dest!: seq_frame [OF _ layout_frames(3)])

lemma tls_allocate_frame:
  assumes "tls_allocate env storage s = (r, s')"
  shows "same_layout s s'"
proof (cases "storage = 0")
  case True
  with assms have "tls_seq (allocate_storage env)
      (\<lambda>r. case r of None \<Rightarrow> (\<lambda>s. (Ok 0, s)) | Some st \<Rightarrow> tls_init st) s = (r, s')"
    by (simp add: tls_allocate_def)
  then show ?thesis
    by (rule seq_frame [OF _ allocate_storage_frame])
      (auto split: option.splits intro: tls_init_frame)
qed (use assms in \<open>auto simp: tls_allocate_def intro: tls_init_frame\<close>)

text \<open>Registering a module: the new block lies below all others.\<close>

lemma tls_seq_Ok:
  "tls_seq p f s = (Ok b, s') \<longleftrightarrow> (\<exists>a s1. p s = (Ok a, s1) \<and> f a s1 = (Ok b, s'))"
  by (auto simp: tls_seq_def split: prod.splits res.splits)

lemma tls_seq_cases:
  assumes "tls_seq p f s = (r, s')"
  obtains (step) a s1 where "p s = (Ok a, s1)" "f a s1 = (r, s')"
    | (stop) r1 where "p s = (r1, s')" "\<not> is_Ok r1" "\<not> is_Ok r"
  using assms by (auto simp: tls_seq_def split: prod.splits res.splits)

lemma or_unsupported_cases: "or_unsupported v s = (r, s') \<Longrightarrow> s' = s \<and> (\<forall>a. r = Ok a \<longrightarrow> v = Some a)"
  by (auto simp: or_unsupported_def split: option.splits)

lemma ensure_area:
  assumes "ensure_static_tls_area env s = (r, s')"
  shows "same_layout s s' \<and> (\<forall>area. r = Ok area \<longrightarrow> ta_used area = 0 \<and> ta_max_align area = 1)"
proof -
  have or_frame: "or_unsupported v t = (q, t') \<Longrightarrow> same_layout t t'" for v :: "unit option" and t q t'
    by (auto simp: same_layout_def dest: or_unsupported_cases)
  have "same_layout s s'"
    using assms unfolding ensure_static_tls_area_def Let_def
    by (elim seq_frame) (auto elim!: seq_frame intro: or_frame layout_frames)
  moreover have "\<forall>area. r = Ok area \<longrightarrow> ta_used area = 0 \<and> ta_max_align area = 1"
    using assms unfolding ensure_static_tls_area_def Let_def by (auto simp: tls_seq_Ok)
  ultimately show ?thesis by blast
qed

lemma static_area_inv:
  assumes inv: "tls_inv s" and run: "static_area env s = (r, s')"
  shows "tls_inv s'" and "r = Ok area \<Longrightarrow> ts_area s' = Some area"
proof -
  have "tls_inv s' \<and> (\<forall>area. r = Ok area \<longrightarrow> ts_area s' = Some area)"
  proof (cases "ts_area s")
    case (Some a)
    with run inv show ?thesis by (auto simp: static_area_def)
  next
    case None
    with run have "tls_seq (ensure_static_tls_area env) (\<lambda>area s. (Ok area, s\<lparr>ts_area := Some area\<rparr>)) s = (r, s')"
      by (simp add: static_area_def)
    then show ?thesis
    proof (cases rule: tls_seq_cases)
      case (step a s1)
      from ensure_area [OF step(1)] have "same_layout s s1" "ta_used a = 0" by auto
      with step(2) None inv show ?thesis
        by (auto simp: tls_inv_def same_layout_def stacked_def)
    next
      case (stop r1)
      from ensure_area [OF stop(1)] inv show ?thesis
        using stop by (auto intro: same_layout_inv)
    qed
  qed
  then show "tls_inv s'" and "r = Ok area \<Longrightarrow> ts_area s' = Some area" by auto
qed

lemma block_ok_mono: "block_ok u al m \<Longrightarrow> u \<le> u' \<Longrightarrow> al \<le> al' \<Longrightarrow> block_ok u' al' m"
  unfolding block_ok_def by (meson order_trans)

text \<open>What a registration does to the layout: nothing, or a new depth with or without the block.\<close>

lemma place_module_cases:
  assumes "place_module env info area s = (r, s')" "ti_filesz info \<le> ti_memsz info"
  shows "(s' = s \<and> \<not> is_Ok r) \<or>
    (\<exists>k used mem. k < 64 \<and> ti_align info \<le> 2 ^ k \<and> unat (ta_used area) + unat (ti_memsz info) \<le> unat used \<and>
       2 ^ k dvd unat used \<and> used \<le> STATIC_TLS_ARENA_SIZE \<and>
       s' = s\<lparr>ts_mem := mem,
         ts_area := Some (area\<lparr>ta_used := used, ta_max_align := max (ta_max_align area) (2 ^ k)\<rparr>),
         ts_modules := ts_modules s @ (if is_Ok r then [\<lparr>tm_info = info, tm_offset = - used\<rparr>] else [])\<rparr>)"
proof -
  consider "s' = s" "\<not> is_Ok r" | align sum used where
    "checked_next_power_of_two (max (ti_align info) 1) = Some align"
    "checked_add (ta_used area) (ti_memsz info) = Some sum" "align_up sum align = Some used"
    "used \<le> STATIC_TLS_ARENA_SIZE"
    using assms(1) unfolding place_module_def
    by (auto simp: or_unsupported_def tls_seq_def not_less split: option.splits if_splits)
  then show ?thesis
  proof cases
    case (2 align sum used)
    from next_power_of_two [OF 2(1)] obtain k where k: "k < 64" "align = 2 ^ k" "ti_align info \<le> 2 ^ k" by auto
    from align_up_Some [OF 2(3) [unfolded k(2)] k(1)] checked_add_unat [OF 2(2)] have
      used: "2 ^ k dvd unat used" "unat (ta_used area) + unat (ti_memsz info) \<le> unat used" by auto
    let ?m = "\<lparr>tm_info = info, tm_offset = - used\<rparr>"
    obtain mem where "init_static_tls_module (ta_tp area) ?m s = (Ok (), s\<lparr>ts_mem := mem\<rparr>)"
      using assms(2) by (auto simp: init_static_tls_module_def Let_def not_less)
    moreover have "\<not> used > STATIC_TLS_ARENA_SIZE" using 2(4) by simp
    ultimately have "s' = s\<lparr>ts_mem := mem,
         ts_area := Some (area\<lparr>ta_used := used, ta_max_align := max (ta_max_align area) (2 ^ k)\<rparr>),
         ts_modules := ts_modules s @ (if is_Ok r then [?m] else [])\<rparr>"
      using assms(1) 2(1-3) k(2) unfolding place_module_def
      by (auto simp: or_unsupported_def tls_seq_def Let_def split: res.splits)
    with k used 2(4) show ?thesis by blast
  qed blast
qed

lemma register_inv:
  assumes inv: "tls_inv s" and info: "ti_filesz info \<le> ti_memsz info"
    and run: "register_static_module env info s = (r, s')"
  shows "tls_inv s'"
  using run unfolding register_static_module_def
proof (cases rule: tls_seq_cases)
  case (stop r1)
  with static_area_inv(1) [OF inv] show ?thesis by blast
next
  case (step area s1)
  note inv1 = static_area_inv(1) [OF inv step(1)] and area = static_area_inv(2) [OF inv step(1) refl]
  from place_module_cases [OF step(2) info] show ?thesis
  proof (elim disjE exE conjE)
    fix k used mem
    assume k: "k < 64" "ti_align info \<le> 2 ^ k" "2 ^ k dvd unat used"
      and used: "unat (ta_used area) + unat (ti_memsz info) \<le> unat used" "used \<le> STATIC_TLS_ARENA_SIZE"
      and s': "s' = s1\<lparr>ts_mem := mem,
         ts_area := Some (area\<lparr>ta_used := used, ta_max_align := max (ta_max_align area) (2 ^ k)\<rparr>),
         ts_modules := ts_modules s1 @ (if is_Ok r then [\<lparr>tm_info = info, tm_offset = - used\<rparr>] else [])\<rparr>"
    let ?m = "\<lparr>tm_info = info, tm_offset = - used\<rparr>"
    have old: "block_ok (unat used) (max (ta_max_align area) (2 ^ k)) m" "depth m + block_len ?m \<le> depth ?m"
      if "m \<in> set (ts_modules s1)" for m
    proof -
      have ok: "block_ok (unat (ta_used area)) (ta_max_align area) m"
        using inv1 area that by (simp add: tls_inv_def)
      then show "block_ok (unat used) (max (ta_max_align area) (2 ^ k)) m"
        by (rule block_ok_mono) (use used(1) in simp_all)
      from ok show "depth m + block_len ?m \<le> depth ?m"
        using used(1) by (simp add: block_ok_def depth_def block_len_def)
    qed
    have new: "block_ok (unat used) (max (ta_max_align area) (2 ^ k)) ?m"
      using k used info by (auto simp: block_ok_def depth_def block_len_def)
    have "stacked (ts_modules s1)" using inv1 area by (simp add: tls_inv_def)
    with old new used(2) show ?thesis
      by (auto simp: s' tls_inv_def stacked_def sorted_wrt_append word_le_nat_alt)
  qed (use inv1 in simp)
qed

lemma tls_step_inv: "tls_step env s s' \<Longrightarrow> tls_inv s \<Longrightarrow> tls_inv s'"
proof (induction rule: tls_step.induct)
  case (backend s b)
  then show ?case by (auto simp: register_backend_def tls_inv_def split: option.splits)
next
  case (register info s r s')
  then show ?case by (blast intro: register_inv)
next
  case (refresh s r s')
  then have "same_layout s s'"
    by (auto simp: refresh_static_tls_def split: option.splits intro: init_modules_frame)
  with refresh show ?case by (blast intro: same_layout_inv)
next
  case (allocate storage s r s')
  then show ?case by (blast intro: same_layout_inv tls_allocate_frame)
next
  case (deallocate s storage d)
  then show ?case by (auto simp: tls_deallocate_def tls_inv_def Let_def split: option.splits)
qed

lemma tls_reachable_inv: "tls_reachable env s \<Longrightarrow> tls_inv s"
proof (induction rule: tls_reachable.induct)
  case (start s)
  then show ?case by (simp add: tls_inv_def)
qed (blast intro: tls_step_inv)

section \<open>Contents of the blocks\<close>

definition block_addrs :: "usize \<Rightarrow> static_tls_module \<Rightarrow> usize set" where
  "block_addrs tp m = {tp + tm_offset m + of_nat k | k. k < block_len m}"

definition has_image :: "memory \<Rightarrow> usize \<Rightarrow> static_tls_module \<Rightarrow> bool" where
  "has_image mem tp m \<longleftrightarrow> (\<forall>k < block_len m. mem (tp + tm_offset m + of_nat k) =
     (if k < unat (ti_filesz (tm_info m)) then ti_image (tm_info m) k else 0))"

text \<open>The distance of an address of a block below the thread pointer.\<close>

lemma block_distance:
  assumes "a \<in> block_addrs tp m" "block_len m \<le> depth m"
  shows "depth m - block_len m < unat (tp - a)" "unat (tp - a) \<le> depth m"
proof -
  from assms(1) obtain k where a: "a = tp + tm_offset m + of_nat k" and k: "k < block_len m"
    by (auto simp: block_addrs_def)
  have le: "k \<le> depth m" using k assms(2) by simp
  have "tp - a = of_nat (depth m) - of_nat k" by (simp add: a depth_def)
  also have "\<dots> = of_nat (depth m - k)" using le by (simp add: of_nat_diff)
  finally have "unat (tp - a) = (depth m - k) mod 2 ^ 64" by (simp add: unat_of_nat)
  moreover have "depth m < 2 ^ 64" using unsigned_less [of "- tm_offset m"] by (simp add: depth_def)
  ultimately have "unat (tp - a) = depth m - k" by simp
  then show "depth m - block_len m < unat (tp - a)" "unat (tp - a) \<le> depth m"
    using k assms(2) by simp_all
qed

lemma block_inside:
  assumes "x \<in> block_addrs (base + sz) m" "block_len m \<le> depth m" "depth m \<le> unat sz"
  shows "unat (x - base) < unat sz"
proof -
  let ?d = "base + sz - x"
  from block_distance [OF assms(1,2)] assms(3) have d: "0 < unat ?d" "unat ?d \<le> unat sz" by linarith+
  have "x - base = sz - ?d" by simp
  also from d(2) have "unat \<dots> = unat sz - unat ?d" by (intro unat_sub) (simp add: word_le_nat_alt)
  finally show ?thesis using d by simp
qed

lemma stacked_disjoint:
  assumes "depth m + block_len m' \<le> depth m'" "block_len m \<le> depth m"
  shows "block_addrs tp m \<inter> block_addrs tp m' = {}"
proof -
  have "False" if "a \<in> block_addrs tp m" "a \<in> block_addrs tp m'" for a
    using block_distance [OF that(1)] block_distance [OF that(2)] assms by linarith
  then show ?thesis by blast
qed

lemma minus_less_minus:
  assumes "(f :: usize) \<le> m"
  shows "x - f < m - f \<longleftrightarrow> f \<le> x \<and> x < m"
proof -
  have lt: "unat x < 2 ^ 64" "unat f < 2 ^ 64" "unat m < 2 ^ 64" by (rule usize_bound)+
  have mf: "unat (m - f) = unat m - unat f" using assms by (rule unat_sub)
  show ?thesis
  proof (cases "f \<le> x")
    case True
    with mf assms lt show ?thesis by (simp add: word_less_nat_alt word_le_nat_alt unat_sub) arith
  next
    case False
    then have "unat (x - f) = unat x + 2 ^ 64 - unat f"
      using lt by (simp add: unat_sub_if_size word_le_nat_alt word_size)
    with False mf assms lt show ?thesis by (simp add: word_less_nat_alt word_le_nat_alt)
  qed
qed

lemma init_module_mem:
  assumes "ti_filesz (tm_info m) \<le> ti_memsz (tm_info m)"
  shows "init_static_tls_module tp m s = (Ok (), s\<lparr>ts_mem := \<lambda>a.
    (let x = a - (tp + tm_offset m) in
     if x < ti_filesz (tm_info m) then ti_image (tm_info m) (unat x)
     else if x < ti_memsz (tm_info m) then 0 else ts_mem s a)\<rparr>)"
proof -
  let ?f = "ti_filesz (tm_info m)" and ?m = "ti_memsz (tm_info m)"
  have "x - ?f < ?m - ?f \<longleftrightarrow> \<not> x < ?f \<and> x < ?m" for x
    using minus_less_minus [OF assms] by (simp add: not_less)
  then have "a - (tp + tm_offset m + ?f) < ?m - ?f \<longleftrightarrow>
      \<not> a - (tp + tm_offset m) < ?f \<and> a - (tp + tm_offset m) < ?m" for a
    by (simp only: diff_diff_eq [symmetric])
  then show ?thesis
    using assms by (auto simp: init_static_tls_module_def Let_def clear_block_def copy_image_def fun_eq_iff not_less
        intro!: arg_cong2 [where f = Pair] arg_cong2 [where f = ts_mem_update])
qed

lemma in_block: "a - (tp + tm_offset m) < ti_memsz (tm_info m) \<longleftrightarrow> a \<in> block_addrs tp m"
proof
  assume "a - (tp + tm_offset m) < ti_memsz (tm_info m)"
  then show "a \<in> block_addrs tp m"
    by (auto simp: block_addrs_def block_len_def word_less_nat_alt intro!: exI [of _ "unat (a - (tp + tm_offset m))"])
next
  assume "a \<in> block_addrs tp m"
  then obtain k where k: "a = tp + tm_offset m + of_nat k" "k < block_len m" by (auto simp: block_addrs_def)
  have "block_len m < 2 ^ 64" unfolding block_len_def by (rule usize_bound)
  with k show "a - (tp + tm_offset m) < ti_memsz (tm_info m)"
    by (simp add: word_less_nat_alt unat_of_nat block_len_def)
qed

lemma init_module_image:
  assumes "ti_filesz (tm_info m) \<le> ti_memsz (tm_info m)" "init_static_tls_module tp m s = (r, s')"
  shows "r = Ok ()" "has_image (ts_mem s') tp m" "a \<notin> block_addrs tp m \<Longrightarrow> ts_mem s' a = ts_mem s a"
proof -
  note run = init_module_mem [OF assms(1), of tp s]
  show "r = Ok ()" using run assms(2) by simp
  show "a \<notin> block_addrs tp m \<Longrightarrow> ts_mem s' a = ts_mem s a"
    using run assms in_block [of a tp m] by (auto simp: Let_def)
  show "has_image (ts_mem s') tp m"
    unfolding has_image_def
  proof (intro allI impI)
    fix k assume k: "k < block_len m"
    have "block_len m < 2 ^ 64" unfolding block_len_def by (rule usize_bound)
    with k have un: "unat (of_nat k :: usize) = k" by (simp add: unat_of_nat)
    with k have "(of_nat k :: usize) < ti_memsz (tm_info m)"
      "(of_nat k :: usize) < ti_filesz (tm_info m) \<longleftrightarrow> k < unat (ti_filesz (tm_info m))"
      by (simp_all add: word_less_nat_alt block_len_def)
    then show "ts_mem s' (tp + tm_offset m + of_nat k) =
        (if k < unat (ti_filesz (tm_info m)) then ti_image (tm_info m) k else 0)"
      using run assms(2) un by (auto simp: Let_def)
  qed
qed

lemma has_image_cong:
  assumes "\<And>a. a \<in> block_addrs tp m \<Longrightarrow> mem' a = mem a" "has_image mem tp m"
  shows "has_image mem' tp m"
proof -
  have "mem' (tp + tm_offset m + of_nat k) = mem (tp + tm_offset m + of_nat k)" if "k < block_len m" for k
    by (rule assms(1)) (use that in \<open>auto simp: block_addrs_def\<close>)
  with assms(2) show ?thesis by (simp add: has_image_def)
qed

text \<open>Initialising all modules: a later block does not overwrite an earlier one.\<close>

lemma init_modules_images:
  assumes "init_modules tp ms s = (r, s')" "stacked ms" "\<forall>m \<in> set ms. block_ok used al m"
  shows "r = Ok () \<and> (\<forall>m \<in> set ms. has_image (ts_mem s') tp m) \<and>
    (\<forall>a. (\<forall>m \<in> set ms. a \<notin> block_addrs tp m) \<longrightarrow> ts_mem s' a = ts_mem s a)"
  using assms
proof (induction ms arbitrary: s)
  case (Cons m ms)
  have ok: "ti_filesz (tm_info m) \<le> ti_memsz (tm_info m)" "block_len m \<le> depth m"
    using Cons.prems(3) by (simp_all add: block_ok_def)
  obtain r1 s1 where r1: "init_static_tls_module tp m s = (r1, s1)" by fastforce
  note image = init_module_image [OF ok(1) r1]
  from Cons.prems(1) r1 image(1) have "init_modules tp ms s1 = (r, s')" by (simp add: tls_seq_def)
  from Cons.IH [OF this] Cons.prems(2,3) have rest: "r = Ok ()" "\<forall>m \<in> set ms. has_image (ts_mem s') tp m"
    "\<forall>a. (\<forall>m \<in> set ms. a \<notin> block_addrs tp m) \<longrightarrow> ts_mem s' a = ts_mem s1 a"
    by (simp_all add: stacked_def)
  have "a \<notin> block_addrs tp m'" if "a \<in> block_addrs tp m" "m' \<in> set ms" for a m'
  proof -
    have "depth m + block_len m' \<le> depth m'" using Cons.prems(2) that(2) by (simp add: stacked_def)
    from stacked_disjoint [OF this ok(2), of tp] that(1) show ?thesis by blast
  qed
  then have "has_image (ts_mem s') tp m"
    using has_image_cong [OF _ image(2), of "ts_mem s'"] rest(3) by blast
  with rest image(3) show ?case by simp
qed simp

section \<open>A concrete run\<close>

definition ex_backend :: tls_backend where
  "ex_backend = \<lparr>be_init_tcb = (\<lambda>tp mem. (True, mem)), be_install_thread_pointer = (\<lambda>tp. True),
     be_tcb_size = 0x900, be_tcb_align = 64\<rparr>"

definition ex_tls_env :: tls_env where
  "ex_tls_env = \<lparr>te_alloc = (\<lambda>n sz al. if n = 0 then 0x7000000 else 0x8000000),
     te_add_static_tls = (\<lambda>info offset. Ok 1)\<rparr>"

definition ex_info :: "usize \<Rightarrow> usize \<Rightarrow> usize \<Rightarrow> tls_info" where
  "ex_info filesz memsz align =
     \<lparr>ti_image = (\<lambda>i. 7), ti_filesz = filesz, ti_memsz = memsz, ti_align = align\<rparr>"

definition ex_tls0 :: tls_state where
  "ex_tls0 = register_backend ex_backend \<lparr>ts_backend = None, ts_area = None, ts_modules = [],
     ts_allocations = [], ts_mem = (\<lambda>a. 0), ts_allocs = 0, ts_freed = []\<rparr>"

definition ex_tls1 :: tls_state where
  "ex_tls1 = snd (register_static_module ex_tls_env (ex_info 4 10 8) ex_tls0)"

definition ex_tls2 :: tls_state where
  "ex_tls2 = snd (register_static_module ex_tls_env (ex_info 0 100 64) ex_tls1)"

lemma ex_tls_reachable: "tls_reachable ex_tls_env ex_tls2"
proof -
  have 0: "tls_reachable ex_tls_env ex_tls0"
    unfolding ex_tls0_def
    by (rule tls_reachable.step [OF tls_reachable.start tls_step.backend]) simp_all
  have 1: "tls_step ex_tls_env ex_tls0 ex_tls1"
    unfolding ex_tls1_def by (rule tls_step.register [OF _ prod.collapse [symmetric]]) (simp add: ex_info_def)
  have 2: "tls_step ex_tls_env ex_tls1 ex_tls2"
    unfolding ex_tls2_def by (rule tls_step.register [OF _ prod.collapse [symmetric]]) (simp add: ex_info_def)
  from 0 1 2 show ?thesis by (blast intro: tls_reachable.step)
qed

lemma place_module_Ok:
  assumes "checked_next_power_of_two (max (ti_align info) 1) = Some align"
    and "checked_add (ta_used area) (ti_memsz info) = Some u1" "align_up u1 align = Some used"
    and "used \<le> STATIC_TLS_ARENA_SIZE" "te_add_static_tls env info (- used) = Ok i"
    and "ti_filesz info \<le> ti_memsz info"
  shows "\<exists>mem. place_module env info area s = (Ok (i, - used), s\<lparr>ts_mem := mem,
    ts_area := Some (area\<lparr>ta_used := used, ta_max_align := max (ta_max_align area) align\<rparr>),
    ts_modules := ts_modules s @ [\<lparr>tm_info = info, tm_offset = - used\<rparr>]\<rparr>)"
proof -
  obtain mem where "init_static_tls_module (ta_tp area) \<lparr>tm_info = info, tm_offset = - used\<rparr> s =
      (Ok (), s\<lparr>ts_mem := mem\<rparr>)"
    using assms(6) by (auto simp: init_static_tls_module_def Let_def not_less)
  moreover have "\<not> used > STATIC_TLS_ARENA_SIZE" using assms(4) by simp
  ultimately show ?thesis
    using assms(1-3,5) by (auto simp: place_module_def or_unsupported_def tls_seq_def Let_def)
qed

lemma ex_tls1_state:
  "\<exists>mem. ex_tls1 = ex_tls0\<lparr>ts_mem := mem, ts_allocs := 1,
     ts_area := Some \<lparr>ta_tp = 0x7100000, ta_used = 16, ta_max_align = 8\<rparr>,
     ts_modules := [\<lparr>tm_info = ex_info 4 10 8, tm_offset = - 16\<rparr>]\<rparr>"
proof -
  have "layout_ok (STATIC_TLS_ARENA_SIZE + STATIC_TLS_TCB_SIZE) 4096" by code_simp
  then obtain mem where area: "static_area ex_tls_env ex_tls0 = (Ok \<lparr>ta_tp = 0x7100000, ta_used = 0, ta_max_align = 1\<rparr>,
      ex_tls0\<lparr>ts_mem := mem, ts_allocs := 1, ts_area := Some \<lparr>ta_tp = 0x7100000, ta_used = 0, ta_max_align = 1\<rparr>\<rparr>)"
    by (auto simp: static_area_def ensure_static_tls_area_def ex_tls0_def register_backend_def tls_seq_def
        or_unsupported_def alloc_zeroed_def init_tcb_def install_thread_pointer_def ex_tls_env_def ex_backend_def
        STATIC_TLS_ARENA_SIZE_def)
  have facts: "checked_next_power_of_two (max (ti_align (ex_info 4 10 8)) 1) = Some 8"
    "checked_add 0 (ti_memsz (ex_info 4 10 8)) = Some 10" "align_up 10 8 = Some 16" "16 \<le> STATIC_TLS_ARENA_SIZE"
    by code_simp+
  have ok: "te_add_static_tls ex_tls_env (ex_info 4 10 8) (- 16) = Ok 1"
    "ti_filesz (ex_info 4 10 8) \<le> ti_memsz (ex_info 4 10 8)"
    by (simp_all add: ex_tls_env_def ex_info_def)
  from place_module_Ok [of "ex_info 4 10 8" 8 "\<lparr>ta_tp = 0x7100000, ta_used = 0, ta_max_align = 1\<rparr>" 10 16 ex_tls_env 1
      "ex_tls0\<lparr>ts_mem := mem, ts_allocs := 1, ts_area := Some \<lparr>ta_tp = 0x7100000, ta_used = 0, ta_max_align = 1\<rparr>\<rparr>"]
    facts ok
  obtain mem' where "place_module ex_tls_env (ex_info 4 10 8) \<lparr>ta_tp = 0x7100000, ta_used = 0, ta_max_align = 1\<rparr>
      (ex_tls0\<lparr>ts_mem := mem, ts_allocs := 1, ts_area := Some \<lparr>ta_tp = 0x7100000, ta_used = 0, ta_max_align = 1\<rparr>\<rparr>) =
    (Ok (1, - 16), ex_tls0\<lparr>ts_mem := mem', ts_allocs := 1,
      ts_area := Some \<lparr>ta_tp = 0x7100000, ta_used = 16, ta_max_align = 8\<rparr>,
      ts_modules := [\<lparr>tm_info = ex_info 4 10 8, tm_offset = - 16\<rparr>]\<rparr>)"
    by (auto simp: ex_tls0_def register_backend_def)
  then show ?thesis unfolding ex_tls1_def register_static_module_def tls_seq_def area by auto
qed

lemma ex_tls2_state:
  "\<exists>mem. ex_tls2 = ex_tls0\<lparr>ts_mem := mem, ts_allocs := 1,
     ts_area := Some \<lparr>ta_tp = 0x7100000, ta_used = 128, ta_max_align = 64\<rparr>,
     ts_modules := [\<lparr>tm_info = ex_info 4 10 8, tm_offset = - 16\<rparr>, \<lparr>tm_info = ex_info 0 100 64, tm_offset = - 128\<rparr>]\<rparr>"
proof -
  obtain mem where s: "ex_tls1 = ex_tls0\<lparr>ts_mem := mem, ts_allocs := 1,
     ts_area := Some \<lparr>ta_tp = 0x7100000, ta_used = 16, ta_max_align = 8\<rparr>,
     ts_modules := [\<lparr>tm_info = ex_info 4 10 8, tm_offset = - 16\<rparr>]\<rparr>" using ex_tls1_state by blast
  have facts: "checked_next_power_of_two (max (ti_align (ex_info 0 100 64)) 1) = Some 64"
    "checked_add 16 (ti_memsz (ex_info 0 100 64)) = Some 116" "align_up 116 64 = Some 128"
    "128 \<le> STATIC_TLS_ARENA_SIZE"
    by code_simp+
  have ok: "te_add_static_tls ex_tls_env (ex_info 0 100 64) (- 128) = Ok 1"
    "ti_filesz (ex_info 0 100 64) \<le> ti_memsz (ex_info 0 100 64)"
    by (simp_all add: ex_tls_env_def ex_info_def)
  from place_module_Ok [of "ex_info 0 100 64" 64 "\<lparr>ta_tp = 0x7100000, ta_used = 16, ta_max_align = 8\<rparr>" 116 128
      ex_tls_env 1 ex_tls1] facts ok
  obtain mem' where "place_module ex_tls_env (ex_info 0 100 64) \<lparr>ta_tp = 0x7100000, ta_used = 16, ta_max_align = 8\<rparr>
      ex_tls1 = (Ok (1, - 128), ex_tls0\<lparr>ts_mem := mem', ts_allocs := 1,
      ts_area := Some \<lparr>ta_tp = 0x7100000, ta_used = 128, ta_max_align = 64\<rparr>,
      ts_modules := [\<lparr>tm_info = ex_info 4 10 8, tm_offset = - 16\<rparr>, \<lparr>tm_info = ex_info 0 100 64, tm_offset = - 128\<rparr>]\<rparr>)"
    by (auto simp: s ex_tls0_def register_backend_def)
  moreover have "static_area ex_tls_env ex_tls1 = (Ok \<lparr>ta_tp = 0x7100000, ta_used = 16, ta_max_align = 8\<rparr>, ex_tls1)"
    by (simp add: s static_area_def)
  ultimately show ?thesis unfolding ex_tls2_def register_static_module_def tls_seq_def by auto
qed

lemma ex_allocate:
  "\<exists>s1. allocate_storage ex_tls_env ex_tls2 = (Ok (Some 0x8000080), s1) \<and>
     ts_backend s1 = Some ex_backend \<and> ts_modules s1 = ts_modules ex_tls2"
proof -
  obtain mem where s: "ex_tls2 = ex_tls0\<lparr>ts_mem := mem, ts_allocs := 1,
     ts_area := Some \<lparr>ta_tp = 0x7100000, ta_used = 128, ta_max_align = 64\<rparr>,
     ts_modules := [\<lparr>tm_info = ex_info 4 10 8, tm_offset = - 16\<rparr>, \<lparr>tm_info = ex_info 0 100 64, tm_offset = - 128\<rparr>]\<rparr>"
    using ex_tls2_state by blast
  have "checked_next_power_of_two (max (max 64 (be_tcb_align ex_backend)) 8) = Some 64" "align_up 128 64 = Some 128"
    "checked_add 128 (be_tcb_size ex_backend) = Some 0x980" "layout_ok (max 0x980 1) 64" by code_simp+
  then show ?thesis
    by (auto simp: s allocate_storage_def static_used_info_def ex_tls0_def register_backend_def tls_seq_def
        alloc_zeroed_def ex_tls_env_def Let_def)
qed

section \<open>Properties\<close>



text \<open>
  C36. A thread that gets its TLS block (allocated here or passed in) finds there, for every
  static module, the initialisation image followed by zeros.
\<close>

theorem tls_allocate_images:
  assumes "tls_reachable env s" "tls_allocate env storage s = (Ok tp, s')" "tp \<noteq> 0"
    and "m \<in> set (ts_modules s)"
  shows "has_image (ts_mem s') tp m"
proof -
  obtain st s1 where s1: "tls_init st s1 = (Ok tp, s')" "ts_modules s1 = ts_modules s"
  proof (cases "storage = 0")
    case True
    with assms(2,3) obtain v s1 where v: "allocate_storage env s = (Ok v, s1)"
      "(case v of None \<Rightarrow> (\<lambda>s. (Ok 0, s)) | Some st \<Rightarrow> tls_init st) s1 = (Ok tp, s')"
      by (auto simp: tls_allocate_def tls_seq_Ok)
    with assms(3) allocate_storage_frame [OF v(1)] that show thesis
      by (cases v) (auto simp: same_layout_def)
  qed (use assms(2) that in \<open>auto simp: tls_allocate_def\<close>)
  obtain r2 s2 where s2: "init_tcb st s1 = (r2, s2)" by fastforce
  with s1(1) assms(3) have r2: "is_Ok r2" and st: "st \<noteq> 0"
    by (auto simp: tls_init_def split: if_splits res.splits)
  then obtain u where "r2 = Ok u" by (cases r2) auto
  with s1(1) s2 st have "tls_seq (init_modules st (ts_modules s2)) (\<lambda>_ s. (Ok st, s)) s2 = (Ok tp, s')"
    by (simp add: tls_init_def)
  then have run: "init_modules st (ts_modules s2) s2 = (Ok (), s')" and "st = tp"
    by (auto simp: tls_seq_Ok)
  moreover have ms: "ts_modules s2 = ts_modules s"
    using layout_frames(1) [OF s2] s1(2) by (simp add: same_layout_def)
  moreover from tls_reachable_inv [OF assms(1)] assms(4) obtain area where "ts_area s = Some area"
    by (cases "ts_area s") (auto simp: tls_inv_def)
  with tls_reachable_inv [OF assms(1)] have "stacked (ts_modules s)"
    "\<forall>m \<in> set (ts_modules s). block_ok (unat (ta_used area)) (ta_max_align area) m"
    by (simp_all add: tls_inv_def)
  ultimately show ?thesis using init_modules_images [OF run] assms(4) by auto
qed

theorem tls_allocate_images_witness:
  "\<exists>tp s'. tls_allocate ex_tls_env 0 ex_tls2 = (Ok tp, s') \<and> has_image (ts_mem s') tp (ts_modules ex_tls2 ! 0)"
proof -
  obtain mem where s: "ex_tls2 = ex_tls0\<lparr>ts_mem := mem, ts_allocs := 1,
     ts_area := Some \<lparr>ta_tp = 0x7100000, ta_used = 128, ta_max_align = 64\<rparr>,
     ts_modules := [\<lparr>tm_info = ex_info 4 10 8, tm_offset = - 16\<rparr>, \<lparr>tm_info = ex_info 0 100 64, tm_offset = - 128\<rparr>]\<rparr>"
    using ex_tls2_state by blast
  from ex_allocate obtain s1 where alloc: "allocate_storage ex_tls_env ex_tls2 = (Ok (Some 0x8000080), s1)"
    "ts_backend s1 = Some ex_backend" "ts_modules s1 = ts_modules ex_tls2" by blast
  obtain r s' where run: "init_modules 0x8000080 (ts_modules s1) s1 = (r, s')" by fastforce
  have "stacked (ts_modules s1)" "\<forall>m \<in> set (ts_modules s1). block_ok 128 64 m"
    using tls_reachable_inv [OF ex_tls_reachable] by (simp_all add: alloc(3) s tls_inv_def)
  from init_modules_images [OF run this] have "r = Ok ()" by blast
  with run alloc have "tls_allocate ex_tls_env 0 ex_tls2 = (Ok 0x8000080, s')"
    by (simp add: tls_allocate_def tls_seq_def tls_init_def init_tcb_def ex_backend_def)
  moreover have "ts_modules ex_tls2 ! 0 \<in> set (ts_modules ex_tls2)" by (simp add: s)
  ultimately show ?thesis using tls_allocate_images [OF ex_tls_reachable] by fastforce
qed

text \<open>
  The block a new thread gets holds the static TLS of every module: each address of a
  module's block lies inside the allocation, below the thread pointer, and the block starts at
  an address that is a multiple of the alignment the module asked for, up to the size of a
  page, which is all the allocator of the replacement dynamic linker (\<open>RtldAllocator\<close>, fresh
  pages from \<open>mmap\<close>) provides.
\<close>

theorem allocate_storage_fits:
  assumes "tls_reachable env s" "allocate_storage env s = (Ok (Some tp), s')" "m \<in> set (ts_modules s)"
    and aligned: "\<And>n sz k. k < 64 \<Longrightarrow> 2 ^ min k 12 dvd unat (te_alloc env n sz (2 ^ k))"
  shows "\<exists>a. last (ts_allocations s') = a \<and> al_tp a = tp \<and>
    (\<forall>x \<in> block_addrs tp m. x - al_base a < al_size a) \<and>
    (\<exists>k < 64. min (ti_align (tm_info m)) 4096 \<le> 2 ^ k \<and> 2 ^ k dvd unat (tp + tm_offset m))"
proof -
  from tls_reachable_inv [OF assms(1)] assms(3) obtain area where area: "ts_area s = Some area"
    "block_ok (unat (ta_used area)) (ta_max_align area) m"
    by (cases "ts_area s") (auto simp: tls_inv_def)
  from assms(2) area(1) obtain b :: tls_backend and align sz total_size base where
    b: "checked_next_power_of_two (max (max (ta_max_align area) (be_tcb_align b)) 8) = Some align"
      "align_up (ta_used area) align = Some sz" "checked_add sz (be_tcb_size b) = Some total_size"
    and base: "base = te_alloc env (ts_allocs s) (max total_size 1) align" "tp = base + sz"
    and last: "last (ts_allocations s') = \<lparr>al_tp = tp, al_base = base, al_size = max total_size 1, al_align = align\<rparr>"
    by (auto simp: allocate_storage_def static_used_info_def tls_seq_Ok alloc_zeroed_def Let_def
        split: option.splits if_splits)
  from next_power_of_two [OF b(1)] obtain k where k: "k < 64" "align = 2 ^ k" "ta_max_align area \<le> 2 ^ k" by auto
  note up = align_up_Some [OF b(2) [unfolded k(2)] k(1)] and tot = checked_add_unat [OF b(3)]
  from area(2) obtain j where ok: "block_len m \<le> depth m" "depth m \<le> unat (ta_used area)"
    and j: "j < 64" "ti_align (tm_info m) \<le> 2 ^ j" "(2 ^ j :: usize) \<le> ta_max_align area" "2 ^ j dvd depth m"
    by (auto simp: block_ok_def)
  have "x - base < max total_size 1" if "x \<in> block_addrs tp m" for x
    using block_inside [OF that [unfolded base(2)] ok(1)] ok(2) up(2) tot
    by (simp add: word_less_nat_alt word_le_nat_alt max_def)
  moreover have "2 ^ min j 12 dvd unat (tp + tm_offset m)"
  proof -
    from j(3) k have "(2 ^ j :: usize) \<le> 2 ^ k" by simp
    then have "(2 :: nat) ^ j \<le> 2 ^ k" using unat_power [OF j(1)] unat_power [OF k(1)] by (simp add: word_le_nat_alt)
    then have dvd: "(2 :: nat) ^ min j 12 dvd 2 ^ min k 12" "(2 :: nat) ^ min j 12 dvd 2 ^ k"
      "(2 :: nat) ^ min j 12 dvd 2 ^ j"
      by (simp_all add: le_imp_power_dvd)
    have "2 ^ min j 12 dvd unat base" "2 ^ min j 12 dvd unat sz" "2 ^ min j 12 dvd unat (tm_offset m)"
      using dvd_trans [OF dvd(1) aligned [OF k(1)]] dvd_trans [OF dvd(2) up(1)]
        dvd_trans [OF dvd(3) dvd_unat_uminus [OF j(1), of "- tm_offset m"]] j(4)
      by (simp_all add: base(1) k(2) depth_def)
    moreover have "min j 12 < 64" by simp
    ultimately show ?thesis by (simp add: base(2) dvd_unat_add)
  qed
  moreover have "min (ti_align (tm_info m)) 4096 \<le> 2 ^ min j 12"
    using j(2) by (auto simp: min_def)
  ultimately show ?thesis using last by (auto intro!: exI [of _ "min j 12"])
qed

theorem allocate_storage_fits_witness:
  "\<exists>tp s'. allocate_storage ex_tls_env ex_tls2 = (Ok (Some tp), s') \<and>
     (\<forall>x \<in> block_addrs tp (ts_modules ex_tls2 ! 1). x - al_base (last (ts_allocations s')) <
        al_size (last (ts_allocations s')))"
proof -
  obtain mem where s: "ex_tls2 = ex_tls0\<lparr>ts_mem := mem, ts_allocs := 1,
     ts_area := Some \<lparr>ta_tp = 0x7100000, ta_used = 128, ta_max_align = 64\<rparr>,
     ts_modules := [\<lparr>tm_info = ex_info 4 10 8, tm_offset = - 16\<rparr>, \<lparr>tm_info = ex_info 0 100 64, tm_offset = - 128\<rparr>]\<rparr>"
    using ex_tls2_state by blast
  from ex_allocate obtain s1 where run: "allocate_storage ex_tls_env ex_tls2 = (Ok (Some 0x8000080), s1)" by blast
  have m: "ts_modules ex_tls2 ! 1 \<in> set (ts_modules ex_tls2)" by (simp add: s)
  have "(2 :: nat) ^ min k 12 dvd 4096" for k using le_imp_power_dvd [of "min k 12" 12 "2 :: nat"] by simp
  from dvd_trans [OF this] have "(2 :: nat) ^ min k 12 dvd unat (te_alloc ex_tls_env n sz (2 ^ k))" for n sz k
    by (simp add: ex_tls_env_def)
  from allocate_storage_fits [OF ex_tls_reachable run m this] run show ?thesis by blast
qed

end
