(* ===== verification/Mem_Functions.thy ===== *)
theory Mem_Functions
  imports Memory
begin

text \<open>
  \<open>rtld/impl/src/memory.rs\<close>: the C memory functions the replacement dynamic linker brings along,
  each a loop over single bytes. A loop variable that counts up to \<open>len\<close> is a natural number
  with the number of iterations left.
\<close>

section \<open>The functions\<close>

fun copy_up :: "usize \<Rightarrow> usize \<Rightarrow> nat \<Rightarrow> nat \<Rightarrow> memory \<Rightarrow> memory" where
  "copy_up dst src i 0 mem = mem"
| "copy_up dst src i (Suc n) mem = copy_up dst src (Suc i) n (mem(dst + of_nat i := mem (src + of_nat i)))"

fun copy_down :: "usize \<Rightarrow> usize \<Rightarrow> nat \<Rightarrow> memory \<Rightarrow> memory" where
  "copy_down dst src 0 mem = mem"
| "copy_down dst src (Suc i) mem = copy_down dst src i (mem(dst + of_nat i := mem (src + of_nat i)))"

definition memcpy :: "usize \<Rightarrow> usize \<Rightarrow> usize \<Rightarrow> memory \<Rightarrow> usize \<times> memory" where
  "memcpy dst src len mem = (dst, copy_up dst src 0 (unat len) mem)"

definition memmove :: "usize \<Rightarrow> usize \<Rightarrow> usize \<Rightarrow> memory \<Rightarrow> usize \<times> memory" where
  "memmove dst src len mem =
     (if dst \<le> src then memcpy dst src len mem else (dst, copy_down dst src (unat len) mem))"

fun set_up :: "usize \<Rightarrow> u8 \<Rightarrow> nat \<Rightarrow> nat \<Rightarrow> memory \<Rightarrow> memory" where
  "set_up dst v i 0 mem = mem"
| "set_up dst v i (Suc n) mem = set_up dst v (Suc i) n (mem(dst + of_nat i := v))"

definition memset :: "usize \<Rightarrow> 32 word \<Rightarrow> usize \<Rightarrow> memory \<Rightarrow> usize \<times> memory" where
  "memset dst v len mem = (dst, set_up dst (ucast v) 0 (unat len) mem)"

fun compare_up :: "memory \<Rightarrow> usize \<Rightarrow> usize \<Rightarrow> nat \<Rightarrow> nat \<Rightarrow> int" where
  "compare_up mem left right i 0 = 0"
| "compare_up mem left right i (Suc n) =
     (let lhs = mem (left + of_nat i); rhs = mem (right + of_nat i) in
      if lhs \<noteq> rhs then uint lhs - uint rhs else compare_up mem left right (Suc i) n)"

definition memcmp :: "memory \<Rightarrow> usize \<Rightarrow> usize \<Rightarrow> usize \<Rightarrow> int" where
  "memcmp mem left right len = compare_up mem left right 0 (unat len)"

definition bcmp :: "memory \<Rightarrow> usize \<Rightarrow> usize \<Rightarrow> usize \<Rightarrow> int" where
  "bcmp mem left right len = memcmp mem left right len"

partial_function (option) find_nul :: "memory \<Rightarrow> usize \<Rightarrow> usize option" where
  "find_nul mem p = (if mem p = 0 then Some p else find_nul mem (p + 1))"

definition strlen :: "memory \<Rightarrow> usize \<Rightarrow> usize option" where
  "strlen mem start = map_option (\<lambda>p. p - start) (find_nul mem start)"

section \<open>Byte arrays\<close>

definition bytes_at :: "memory \<Rightarrow> usize \<Rightarrow> nat \<Rightarrow> u8 list" where
  "bytes_at mem p n = map (\<lambda>i. mem (p + of_nat i)) [0..<n]"

text \<open>\<open>CStr::from_ptr\<close> looks for the terminating NUL.\<close>

definition cstr_bytes :: "memory \<Rightarrow> usize \<Rightarrow> u8 list option" where
  "cstr_bytes mem p = map_option (\<lambda>n. bytes_at mem p (unat n)) (strlen mem p)"

text \<open>What a copy has to do: every byte of the destination is the old byte of the source.\<close>

definition copied :: "usize \<Rightarrow> usize \<Rightarrow> nat \<Rightarrow> memory \<Rightarrow> memory" where
  "copied dst src n mem = (\<lambda>x. if inside x dst n then mem (src + (x - dst)) else mem x)"

lemma unat_offset: "unat p + i < 2 ^ 64 \<Longrightarrow> unat (p + of_nat i) = unat p + i" for p :: usize
  by (simp add: unat_word_ariths unat_of_nat)

text \<open>Upwards, the byte read in step \<open>i\<close> must not have been written in an earlier step.\<close>

lemma copy_up_general:
  assumes "\<And>a b. i \<le> a \<Longrightarrow> a < b \<Longrightarrow> b < i + n \<Longrightarrow> src + of_nat b \<noteq> dst + of_nat a"
    and "\<And>k. k < n \<Longrightarrow> mem (src + of_nat (i + k)) = mem0 (src + of_nat (i + k))"
    and "\<And>x. x \<notin> (\<lambda>k. dst + of_nat k) ` {i..<i + n} \<Longrightarrow> mem x = goal x"
    and "\<And>k. k \<in> {i..<i + n} \<Longrightarrow> goal (dst + of_nat k) = mem0 (src + of_nat k)"
  shows "copy_up dst src i n mem = goal"
  using assms
proof (induction n arbitrary: i mem)
  case 0
  then show ?case by (auto simp: fun_eq_iff)
next
  case (Suc n)
  let ?mem = "mem(dst + of_nat i := mem (src + of_nat i))"
  have "copy_up dst src (Suc i) n ?mem = goal"
  proof (rule Suc.IH)
    show "src + of_nat b \<noteq> dst + of_nat a" if "Suc i \<le> a" "a < b" "b < Suc i + n" for a b
      by (rule Suc.prems(1)) (use that in simp_all)
    show "?mem (src + of_nat (Suc i + k)) = mem0 (src + of_nat (Suc i + k))" if "k < n" for k
      using Suc.prems(1) [of i "Suc i + k"] Suc.prems(2) [of "Suc k"] that by simp
    show "?mem x = goal x" if "x \<notin> (\<lambda>k. dst + of_nat k) ` {Suc i..<Suc i + n}" for x
    proof (cases "x = dst + of_nat i")
      case True
      then show ?thesis using Suc.prems(2) [of 0] Suc.prems(4) [of i] by simp
    next
      case False
      then have "x \<notin> (\<lambda>k. dst + of_nat k) ` {i..<i + Suc n}"
        using that by (auto simp: image_iff) (metis Suc_leI atLeastLessThan_iff le_neq_implies_less)
      with False Suc.prems(3) show ?thesis by simp
    qed
  qed (use Suc.prems in auto)
  then show ?case by simp
qed

lemma copy_up_spec:
  assumes "dst \<le> src" "unat src + n \<le> 2 ^ 64"
    and "\<And>x. x \<notin> (\<lambda>k. dst + of_nat k) ` {0..<n} \<Longrightarrow> mem x = goal x"
    and "\<And>k. k < n \<Longrightarrow> goal (dst + of_nat k) = mem (src + of_nat k)"
  shows "copy_up dst src 0 n mem = goal"
proof (rule copy_up_general [where mem0 = mem])
  fix a b :: nat assume ab: "a < b" "b < 0 + n"
  have un: "unat (src + of_nat b) = unat src + b" "unat (dst + of_nat a) = unat dst + a"
    using assms(1,2) ab by (intro unat_offset; simp add: word_le_nat_alt)+
  have "unat (dst + of_nat a) < unat (src + of_nat b)"
    using assms(1) ab(1) unfolding un by (simp add: word_le_nat_alt)
  then show "src + of_nat b \<noteq> dst + of_nat a" by (metis less_irrefl)
qed (use assms(3,4) in auto)

lemma copy_down_spec:
  assumes "src < dst" "unat dst + n \<le> 2 ^ 64"
    and "\<And>k. k < n \<Longrightarrow> mem (src + of_nat k) = mem0 (src + of_nat k)"
    and "\<And>x. x \<notin> (\<lambda>k. dst + of_nat k) ` {0..<n} \<Longrightarrow> mem x = goal x"
    and "\<And>k. k < n \<Longrightarrow> goal (dst + of_nat k) = mem0 (src + of_nat k)"
  shows "copy_down dst src n mem = goal"
  using assms
proof (induction n arbitrary: mem)
  case 0
  then show ?case by (auto simp: fun_eq_iff)
next
  case (Suc n)
  let ?mem = "mem(dst + of_nat n := mem (src + of_nat n))"
  have "copy_down dst src n ?mem = goal"
  proof (rule Suc.IH)
    show "?mem (src + of_nat k) = mem0 (src + of_nat k)" if "k < n" for k
    proof -
      have un: "unat (src + of_nat k) = unat src + k" "unat (dst + of_nat n) = unat dst + n"
        using Suc.prems(1,2) that by (intro unat_offset; simp add: word_less_nat_alt)+
      have "unat (src + of_nat k) < unat (dst + of_nat n)"
        using Suc.prems(1) that unfolding un by (simp add: word_less_nat_alt)
      then have "src + of_nat k \<noteq> dst + of_nat n" by (metis less_irrefl)
      with Suc.prems(3) that show ?thesis by simp
    qed
    show "?mem x = goal x" if "x \<notin> (\<lambda>k. dst + of_nat k) ` {0..<n}" for x
      using that Suc.prems(3,5) [of n] Suc.prems(4) [of x] by (cases "x = dst + of_nat n") (auto simp: atLeast0_lessThan_Suc)
  qed (use Suc.prems in auto)
  then show ?case by simp
qed

lemma copied_offset: "k < n \<Longrightarrow> n \<le> 2 ^ 64 \<Longrightarrow> copied dst src n mem (dst + of_nat k) = mem (src + of_nat k)"
  using inside_offset [of k n dst] by (simp add: copied_def)

lemma copied_outside: "n \<le> 2 ^ 64 \<Longrightarrow> x \<notin> (\<lambda>k. dst + of_nat k) ` {0..<n} \<Longrightarrow> mem x = copied dst src n mem x"
  by (auto simp: copied_def inside_iff image_iff)

lemma copy_up_disjoint:
  assumes "n \<le> 2 ^ 64" "\<And>k. k < n \<Longrightarrow> \<not> inside (src + of_nat k) dst n"
  shows "copy_up dst src 0 n mem = copied dst src n mem"
proof (rule copy_up_general [where mem0 = mem])
  fix a b :: nat assume "a < b" "b < 0 + n"
  then show "src + of_nat b \<noteq> dst + of_nat a"
    using assms(2) [of b] inside_offset [of a n dst] by auto
qed (use copied_offset copied_outside assms(1) in auto)

section \<open>Properties\<close>

text \<open>
  \<open>memmove\<close> copies correctly for every overlap of source and destination: each byte of the
  destination is the byte the source had before, and no other byte changes.
\<close>

theorem memmove_copies:
  assumes "unat src + unat len \<le> 2 ^ 64" "unat dst + unat len \<le> 2 ^ 64"
  shows "memmove dst src len mem = (dst, \<lambda>x. if inside x dst (unat len) then mem (src + (x - dst)) else mem x)"
proof -
  have len: "unat len \<le> 2 ^ 64" using assms by simp
  have "(if dst \<le> src then copy_up dst src 0 (unat len) mem else copy_down dst src (unat len) mem) =
      copied dst src (unat len) mem"
    using copy_up_spec [of dst src "unat len" mem "copied dst src (unat len) mem"]
      copy_down_spec [of src dst "unat len" mem mem "copied dst src (unat len) mem"] assms
      copied_offset [OF _ len] copied_outside [OF len] by (simp add: not_le)
  then show ?thesis by (simp add: memmove_def memcpy_def copied_def split: if_splits)
qed

theorem memmove_copies_witness:
  "\<forall>mem. snd (memmove 0x1002 0x1000 4 mem) 0x1004 = mem 0x1002 \<and>
     snd (memmove 0x0ffe 0x1000 4 mem) 0x1001 = mem 0x1003"
  using memmove_copies [of "0x1000" 4 "0x1002"] memmove_copies [of "0x1000" 4 "0x0ffe"]
  by (simp add: inside_def)

text \<open>Comparing: zero exactly for equal blocks, otherwise the difference of the first bytes that differ.\<close>

lemma compare_up_cases:
  "compare_up mem left right i n =
     (case List.find (\<lambda>k. mem (left + of_nat k) \<noteq> mem (right + of_nat k)) [i..<i + n] of
        None \<Rightarrow> 0
      | Some k \<Rightarrow> uint (mem (left + of_nat k)) - uint (mem (right + of_nat k)))"
proof (induction n arbitrary: i)
  case (Suc n)
  have "[i..<i + Suc n] = i # [Suc i..<Suc i + n]" by (simp add: upt_conv_Cons)
  with Suc show ?case by (simp add: Let_def)
qed simp

lemma memcmp_eq_0:
  "memcmp mem left right len = 0 \<longleftrightarrow> bytes_at mem left (unat len) = bytes_at mem right (unat len)"
proof (cases "List.find (\<lambda>k. mem (left + of_nat k) \<noteq> mem (right + of_nat k)) [0..<unat len]")
  case (Some k)
  then have "k < unat len" "mem (left + of_nat k) \<noteq> mem (right + of_nat k)"
    by (auto simp: find_Some_iff)
  then show ?thesis using Some
    by (auto simp: memcmp_def compare_up_cases bytes_at_def simp flip: word_uint_eq_iff)
next
  case None
  then have "\<forall>k < unat len. mem (left + of_nat k) = mem (right + of_nat k)" by (auto simp: find_None_iff)
  with None show ?thesis by (simp add: memcmp_def compare_up_cases bytes_at_def)
qed

lemma strlen_found:
  assumes "mem (p + of_nat n) = 0" "\<And>k. k < n \<Longrightarrow> mem (p + of_nat k) \<noteq> 0" "n < 2 ^ 64"
  shows "strlen mem p = Some (of_nat n)"
proof -
  have "find_nul mem (p + of_nat k) = Some (p + of_nat n)" if "k \<le> n" for k
    using that
  proof (induction rule: inc_induct)
    case base
    then show ?case using assms(1) by (simp add: find_nul.simps)
  next
    case (step k)
    then show ?case using assms(2) [of k] by (subst find_nul.simps) (simp add: algebra_simps)
  qed
  from this [of 0] show ?thesis by (simp add: strlen_def)
qed

end
