(* ===== verification/Rtld_Runtime.thy ===== *)
theory Rtld_Runtime
  imports Static_Tls Mem_Functions
begin

text \<open>
  \<open>rtld/impl/src/runtime.rs\<close> and \<open>glibc/v2_39/tls.rs\<close>: the allocator of the replacement dynamic
  linker, which gets whole pages from the kernel, and the thread control block with its dynamic
  thread vector (DTV).

  The kernel is a parameter: \<open>mmap\<close> is given the number of calls so far, the mapped addresses
  and a size and returns an address or fails; what an anonymous mapping promises is
  \<open>mmap_ok\<close>. A failed allocation of the DTV ends the process (\<open>Panic\<close>).
\<close>

section \<open>The allocator\<close>

record heap =
  hp_mem :: memory
  hp_mapped :: "usize \<Rightarrow> bool"
  hp_calls :: nat

type_synonym mmap = "nat \<Rightarrow> (usize \<Rightarrow> bool) \<Rightarrow> usize \<Rightarrow> usize option"

definition page_rounded_size :: "usize \<Rightarrow> usize \<Rightarrow> usize" where
  "page_rounded_size sz align = (max sz align + 0xfff) AND NOT 0xfff"

text \<open>An anonymous private mapping is filled with zeros.\<close>

definition rtld_alloc :: "mmap \<Rightarrow> usize \<Rightarrow> usize \<Rightarrow> heap \<Rightarrow> usize \<times> heap" where
  "rtld_alloc mmap sz align h =
     (let n = page_rounded_size sz align;
          h' = h\<lparr>hp_calls := Suc (hp_calls h)\<rparr>
      in case mmap (hp_calls h) (hp_mapped h) n of
           None \<Rightarrow> (0, h')
         | Some p \<Rightarrow> (p, h'\<lparr>hp_mem := clear_block p n (hp_mem h),
                          hp_mapped := (\<lambda>x. hp_mapped h x \<or> x - p < n)\<rparr>))"

text \<open>\<open>munmap\<close> refuses an address that is not the start of a page, and an empty range.\<close>

definition munmap :: "usize \<Rightarrow> usize \<Rightarrow> heap \<Rightarrow> heap" where
  "munmap p n h =
     (if p AND 0xfff \<noteq> 0 \<or> n = 0 then h
      else h\<lparr>hp_mapped := (\<lambda>x. hp_mapped h x \<and> \<not> x - p < n)\<rparr>)"

definition rtld_dealloc :: "usize \<Rightarrow> usize \<Rightarrow> usize \<Rightarrow> heap \<Rightarrow> heap" where
  "rtld_dealloc p sz align h = munmap p (page_rounded_size sz align) h"

definition rtld_realloc :: "mmap \<Rightarrow> usize \<Rightarrow> usize \<Rightarrow> usize \<Rightarrow> usize \<Rightarrow> heap \<Rightarrow> usize \<times> heap" where
  "rtld_realloc mmap p sz align new_size h =
     (if \<not> layout_ok (max new_size 1) align then (0, h)
      else
        (case rtld_alloc mmap (max new_size 1) align h of (new_ptr, h) \<Rightarrow>
           if new_ptr = 0 then (0, h)
           else
             (let copy_len = min sz new_size;
                  h = h\<lparr>hp_mem := copy_up new_ptr p 0 (unat copy_len) (hp_mem h)\<rparr>
              in (new_ptr, rtld_dealloc p sz align h))))"

text \<open>\<open>GlobalAlloc::alloc_zeroed\<close>, which the allocator does not override.\<close>

definition rtld_alloc_zeroed :: "mmap \<Rightarrow> usize \<Rightarrow> usize \<Rightarrow> heap \<Rightarrow> usize \<times> heap" where
  "rtld_alloc_zeroed mmap sz align h =
     (case rtld_alloc mmap sz align h of (p, h) \<Rightarrow>
        (p, if p = 0 then h else h\<lparr>hp_mem := clear_block p sz (hp_mem h)\<rparr>))"

section \<open>Thread control block\<close>

definition TCB_SELF_OFFSET :: usize where "TCB_SELF_OFFSET = 0x00"
definition TCB_DTV_OFFSET :: usize where "TCB_DTV_OFFSET = 0x08"
definition TCB_THREAD_SELF_OFFSET :: usize where "TCB_THREAD_SELF_OFFSET = 0x10"
definition TCB_STACK_GUARD_OFFSET :: usize where "TCB_STACK_GUARD_OFFSET = 0x28"
definition TCB_POINTER_GUARD_OFFSET :: usize where "TCB_POINTER_GUARD_OFFSET = 0x30"
definition DTV_SLOT_COUNT :: usize where "DTV_SLOT_COUNT = 64"
definition BOOTSTRAP_STACK_GUARD :: usize where "BOOTSTRAP_STACK_GUARD = 0x2f6a5d1b3c4e8790"
definition BOOTSTRAP_POINTER_GUARD :: usize where "BOOTSTRAP_POINTER_GUARD = 0x6b431d2984a07c5e"

lemmas tcb_consts = TCB_SELF_OFFSET_def TCB_DTV_OFFSET_def TCB_THREAD_SELF_OFFSET_def
  TCB_STACK_GUARD_OFFSET_def TCB_POINTER_GUARD_OFFSET_def DTV_SLOT_COUNT_def

text \<open>
  \<open>Layout::array::<DtvEntry>(n)\<close>: entries of 16 bytes with alignment 8, refused when the size
  overflows \<open>isize\<close>.
\<close>

definition dtv_layout :: "usize \<Rightarrow> usize option" where
  "dtv_layout n = (if unat n * 16 \<le> 2 ^ 63 - 8 then Some (n * 16) else None)"

definition saturating_add :: "usize \<Rightarrow> usize \<Rightarrow> usize" where
  "saturating_add a b = (case checked_add a b of Some c \<Rightarrow> c | None \<Rightarrow> - 1)"

definition hp_write :: "usize \<Rightarrow> usize \<Rightarrow> heap \<Rightarrow> heap" where
  "hp_write a v h = h\<lparr>hp_mem := write_usize a v (hp_mem h)\<rparr>"

definition allocate_dtv :: "mmap \<Rightarrow> heap \<Rightarrow> (unit, usize) res \<times> heap" where
  "allocate_dtv mmap h =
     (case dtv_layout (DTV_SLOT_COUNT + 2) of
        None \<Rightarrow> (Panic ''minimal DTV layout should be valid'', h)
      | Some sz \<Rightarrow>
          (case rtld_alloc_zeroed mmap sz 8 h of (base, h) \<Rightarrow>
             if base = 0 then (Panic ''memory allocation failed'', h)
             else (Ok (base + 16), hp_write base DTV_SLOT_COUNT h)))"

definition deallocate_tcb :: "usize \<Rightarrow> heap \<Rightarrow> heap" where
  "deallocate_tcb tp h =
     (if tp = 0 then h
      else
        (let dtv = read_usize (hp_mem h) (tp + TCB_DTV_OFFSET) in
         if dtv = 0 then h
         else
           (let base = dtv - 16;
                slots = saturating_add (read_usize (hp_mem h) base) 2;
                h = (case dtv_layout slots of Some sz \<Rightarrow> rtld_dealloc base sz 8 h | None \<Rightarrow> h)
            in hp_write (tp + TCB_DTV_OFFSET) 0 h)))"

definition glibc_init_tcb :: "mmap \<Rightarrow> usize \<Rightarrow> heap \<Rightarrow> (unit, unit) res \<times> heap" where
  "glibc_init_tcb mmap tp h =
     (case allocate_dtv mmap (deallocate_tcb tp h) of
        (Ok dtv, h) \<Rightarrow>
          (Ok (), hp_write (tp + TCB_POINTER_GUARD_OFFSET) BOOTSTRAP_POINTER_GUARD
             (hp_write (tp + TCB_STACK_GUARD_OFFSET) BOOTSTRAP_STACK_GUARD
             (hp_write (tp + TCB_THREAD_SELF_OFFSET) tp
             (hp_write (tp + TCB_DTV_OFFSET) dtv
             (hp_write (tp + TCB_SELF_OFFSET) tp h)))))
      | (Err e, h) \<Rightarrow> (Err e, h)
      | (Panic m, h) \<Rightarrow> (Panic m, h))"

text \<open>The backend functions of \<open>rtld/impl/src/tls.rs\<close>; \<open>arch_prctl\<close> is a parameter.\<close>

definition backend_init_tcb :: "mmap \<Rightarrow> usize \<Rightarrow> heap \<Rightarrow> (unit, bool) res \<times> heap" where
  "backend_init_tcb mmap tp h =
     (if tp = 0 then (Ok False, h)
      else (case glibc_init_tcb mmap tp h of
              (Ok _, h) \<Rightarrow> (Ok True, h) | (Err e, h) \<Rightarrow> (Err e, h) | (Panic m, h) \<Rightarrow> (Panic m, h)))"

definition arch_install_thread_pointer :: "(usize \<Rightarrow> usize) \<Rightarrow> usize \<Rightarrow> bool" where
  "arch_install_thread_pointer arch_prctl tp \<longleftrightarrow> arch_prctl tp \<le> - 4096"

definition backend_install_thread_pointer :: "(usize \<Rightarrow> usize) \<Rightarrow> usize \<Rightarrow> bool" where
  "backend_install_thread_pointer arch_prctl tp \<longleftrightarrow>
     (if tp = 0 then False else arch_install_thread_pointer arch_prctl tp)"

text \<open>What the kernel promises about a new mapping.\<close>

definition mmap_ok :: "mmap \<Rightarrow> bool" where
  "mmap_ok mmap \<longleftrightarrow> (\<forall>i mapped n p. mmap i mapped n = Some p \<longrightarrow>
     p \<noteq> 0 \<and> p AND 0xfff = 0 \<and> unat p + unat n \<le> 2 ^ 64 \<and> (\<forall>x. x - p < n \<longrightarrow> \<not> mapped x))"

section \<open>Sizes\<close>

lemma bit63_iff: "bit (w :: usize) 63 \<longleftrightarrow> 2 ^ 63 \<le> unat w"
proof -
  have "bit w 63 \<longleftrightarrow> bit (unat w) 63" by (simp add: bit_unsigned_iff)
  then have "bit w 63 \<longleftrightarrow> odd (unat w div 2 ^ 63)" by (simp only: bit_iff_odd)
  moreover have "unat w div 2 ^ 63 = (if 2 ^ 63 \<le> unat w then 1 else 0)"
    using usize_bound [of w] by (auto simp: div_nat_eqI)
  ultimately show ?thesis by simp
qed

lemma layout_ok_bound:
  assumes "layout_ok sz align"
  shows "0 < unat align" "unat sz + unat align \<le> 2 ^ 63"
proof -
  from assms have nz: "align \<noteq> 0" and pw: "align AND (align - 1) = 0" and le: "sz \<le> push_bit 63 1 - align"
    by (auto simp: layout_ok_def)
  from nz show pos: "0 < unat align" by (simp add: unat_gt_0)
  have "\<not> 2 ^ 63 < unat align"
  proof
    assume big: "2 ^ 63 < unat align"
    moreover from pos have "unat (align - 1) = unat align - 1" by (intro unat_minus_one) (use nz in simp)
    ultimately have "bit align 63" "bit (align - 1) 63" unfolding bit63_iff by linarith+
    then have "bit (align AND (align - 1)) 63" by (simp only: bit_and_iff simp_thms)
    with pw show False by simp
  qed
  then have al: "unat align \<le> 2 ^ 63" by simp
  have p: "(push_bit 63 1 :: usize) = 2 ^ 63" by (simp add: push_bit_eq_mult)
  have "unat (push_bit 63 1 - align :: usize) = 2 ^ 63 - unat align"
    using al unfolding p by (subst unat_sub) (simp_all add: word_le_nat_alt unat_power)
  with le al show "unat sz + unat align \<le> 2 ^ 63" by (simp add: word_le_nat_alt)
qed

lemma page_rounded_unat:
  assumes "layout_ok sz align"
  shows "unat (page_rounded_size sz align) = (max (unat sz) (unat align) + 4095) div 4096 * 4096"
proof -
  let ?m = "max sz align"
  have um: "unat ?m = max (unat sz) (unat align)" by (simp add: max_def word_le_nat_alt)
  with layout_ok_bound [OF assms] have "unat ?m \<le> 2 ^ 63" by simp
  then have add: "unat (?m + 0xfff) = unat ?m + 4095" by (simp add: unat_word_ariths)
  have "(0xfff :: usize) = mask 12" by (simp add: mask_eq_exp_minus_1)
  then have "page_rounded_size sz align = (?m + 0xfff) AND NOT (mask 12)" by (simp add: page_rounded_size_def)
  then show ?thesis by (simp only: and_not_mask_unat add um) simp
qed

text \<open>The least number of whole pages that holds the block, never none.\<close>

lemma page_rounded_bounds:
  assumes "layout_ok sz align"
  shows "unat sz \<le> unat (page_rounded_size sz align)" "0 < unat (page_rounded_size sz align)"
    "unat (page_rounded_size sz align) < max (unat sz) (unat align) + 4096"
proof -
  note un = page_rounded_unat [OF assms] and b = layout_ok_bound(1) [OF assms]
  let ?m = "max (unat sz) (unat align)"
  have m: "0 < ?m" "unat sz \<le> ?m" using b by simp_all
  have "?m \<le> (?m + 4095) div 4096 * 4096" "(?m + 4095) div 4096 * 4096 < ?m + 4096" by linarith+
  with m show "unat sz \<le> unat (page_rounded_size sz align)" "0 < unat (page_rounded_size sz align)"
    "unat (page_rounded_size sz align) < ?m + 4096" unfolding un by linarith+
qed

section \<open>Blocks\<close>

lemma mmap_okD:
  assumes "mmap_ok mmap" "mmap i mapped n = Some p"
  shows "p \<noteq> 0" "p AND 0xfff = 0" "unat p + unat n \<le> 2 ^ 64" "x - p < n \<Longrightarrow> \<not> mapped x"
  using assms unfolding mmap_ok_def by blast+

lemma inside_word: "inside x p (unat n) \<longleftrightarrow> x - p < n"
  by (simp add: inside_def word_less_nat_alt)

lemma rtld_alloc_cases:
  assumes "mmap_ok mmap" "rtld_alloc mmap sz align h = (p, h')"
  obtains (fail) "p = 0" "hp_mem h' = hp_mem h" "hp_mapped h' = hp_mapped h"
    | (block) "p \<noteq> 0" "p AND 0xfff = 0" "unat p + unat (page_rounded_size sz align) \<le> 2 ^ 64"
      "\<And>x. x - p < page_rounded_size sz align \<Longrightarrow> \<not> hp_mapped h x"
      "hp_mapped h' = (\<lambda>x. hp_mapped h x \<or> x - p < page_rounded_size sz align)"
      "hp_mem h' = clear_block p (page_rounded_size sz align) (hp_mem h)"
proof (cases "mmap (hp_calls h) (hp_mapped h) (page_rounded_size sz align)")
  case None
  with assms(2) show ?thesis by (intro fail) (auto simp: rtld_alloc_def Let_def)
next
  case (Some q)
  with assms(2) have "p = q" by (auto simp: rtld_alloc_def Let_def)
  with mmap_okD [OF assms(1) Some] Some assms(2) show ?thesis
    by (intro block) (auto simp: rtld_alloc_def Let_def)
qed

text \<open>A block of the allocator: whole mapped pages.\<close>

definition is_block :: "heap \<Rightarrow> usize \<Rightarrow> usize \<Rightarrow> usize \<Rightarrow> bool" where
  "is_block h p sz align \<longleftrightarrow> layout_ok sz align \<and> p AND 0xfff = 0 \<and>
     (\<forall>x. x - p < page_rounded_size sz align \<longrightarrow> hp_mapped h x)"

lemma rtld_dealloc_block:
  assumes "layout_ok sz align" "p AND 0xfff = 0"
  shows "rtld_dealloc p sz align h = h\<lparr>hp_mapped := (\<lambda>x. hp_mapped h x \<and> \<not> x - p < page_rounded_size sz align)\<rparr>"
  using assms page_rounded_bounds(2) [OF assms(1)] by (auto simp: rtld_dealloc_def munmap_def)

section \<open>The thread control block\<close>

lemma tcb_frame:
  assumes "\<not> inside x tp 56"
  shows "write_usize (tp + 0x30) a (write_usize (tp + 0x28) b (write_usize (tp + 0x10) c
    (write_usize (tp + 8) d (write_usize tp e mem)))) x = mem x"
proof -
  have out: "\<not> inside x (tp + of_nat k) 8" if "k \<le> 48" for k :: nat
    using inside_mono [of x tp k 8 56] assms that by auto
  from out [of 48] out [of 40] out [of 16] out [of 8] out [of 0] show ?thesis
    by (simp add: write_frame)
qed

lemma tcb_reads:
  fixes tp a b c d e mem
  defines "m \<equiv> write_usize (tp + 0x30) a (write_usize (tp + 0x28) b (write_usize (tp + 0x10) c
    (write_usize (tp + 8) d (write_usize tp e mem))))"
  shows "read_usize m tp = e" "read_usize m (tp + 8) = d" "read_usize m (tp + 0x10) = c"
    "read_usize m (tp + 0x28) = b" "read_usize m (tp + 0x30) = a"
  unfolding m_def by (simp_all add: read_write_other apart_def)

text \<open>A new DTV: 64 slots, all of them zero, in a fresh page.\<close>

definition fresh_dtv :: "heap \<Rightarrow> usize \<Rightarrow> heap \<Rightarrow> bool" where
  "fresh_dtv h base h' \<longleftrightarrow> base \<noteq> 0 \<and> base AND 0xfff = 0 \<and>
     (\<forall>x. inside x base 4096 \<longrightarrow> \<not> hp_mapped h x) \<and>
     hp_mapped h' = (\<lambda>x. hp_mapped h x \<or> inside x base 4096) \<and>
     hp_mem h' = write_usize base 64 (\<lambda>x. if inside x base 4096 then 0 else hp_mem h x)"

lemma dtv_size: "dtv_layout 66 = Some 1056" "page_rounded_size 1056 8 = 4096" "layout_ok 1056 8"
  "saturating_add 64 2 = 66"
  by (simp add: dtv_layout_def) code_simp+

lemma allocate_dtv_fresh:
  assumes "mmap_ok mmap" "allocate_dtv mmap h = (Ok dtv, h')"
  shows "fresh_dtv h (dtv - 16) h'"
proof -
  obtain p h1 where al: "rtld_alloc mmap 1056 8 h = (p, h1)" by fastforce
  with assms(2) have nz: "p \<noteq> 0" and dtv: "dtv = p + 16"
    and h': "h' = hp_write p 64 (h1\<lparr>hp_mem := clear_block p 1056 (hp_mem h1)\<rparr>)"
    by (auto simp: allocate_dtv_def dtv_size rtld_alloc_zeroed_def DTV_SLOT_COUNT_def split: if_splits)
  have big: "x - p < 1056 \<Longrightarrow> x - p < 4096" for x by (erule order.strict_trans2) simp
  from assms(1) al show ?thesis
  proof (cases rule: rtld_alloc_cases)
    case block
    note block = block [unfolded dtv_size(2)]
    have ins: "inside x p 4096 \<longleftrightarrow> x - p < 4096" for x using inside_word [of x p 4096] by simp
    have "clear_block p 1056 (clear_block p 4096 (hp_mem h)) = clear_block p 4096 (hp_mem h)"
      using big by (auto simp: clear_block_def fun_eq_iff)
    with block show ?thesis
      by (auto simp: fresh_dtv_def dtv h' hp_write_def ins clear_block_def)
  qed (use nz in simp)
qed

lemma glibc_init_tcb_Ok:
  assumes "mmap_ok mmap" "glibc_init_tcb mmap tp h = (Ok (), h')"
  obtains base h1 where "fresh_dtv (deallocate_tcb tp h) base h1" "hp_mapped h' = hp_mapped h1"
    "hp_mem h' = write_usize (tp + 0x30) BOOTSTRAP_POINTER_GUARD (write_usize (tp + 0x28) BOOTSTRAP_STACK_GUARD
       (write_usize (tp + 0x10) tp (write_usize (tp + 8) (base + 16) (write_usize tp tp (hp_mem h1)))))"
proof -
  from assms(2) obtain dtv h1 where d: "allocate_dtv mmap (deallocate_tcb tp h) = (Ok dtv, h1)"
    and h': "h' = hp_write (tp + TCB_POINTER_GUARD_OFFSET) BOOTSTRAP_POINTER_GUARD
             (hp_write (tp + TCB_STACK_GUARD_OFFSET) BOOTSTRAP_STACK_GUARD
             (hp_write (tp + TCB_THREAD_SELF_OFFSET) tp
             (hp_write (tp + TCB_DTV_OFFSET) dtv
             (hp_write (tp + TCB_SELF_OFFSET) tp h1))))"
    by (auto simp: glibc_init_tcb_def split: prod.splits res.splits)
  from allocate_dtv_fresh [OF assms(1) d] show ?thesis
    by (rule that) (simp_all add: h' hp_write_def tcb_consts)
qed

lemma deallocate_fresh:
  assumes "fresh_dtv h base h1" "tp \<noteq> 0" "base + 16 \<noteq> 0"
    and "hp_mapped h' = hp_mapped h1" "read_usize (hp_mem h') (tp + 8) = base + 16" "read_usize (hp_mem h') base = 64"
  shows "hp_mapped (deallocate_tcb tp h') = hp_mapped h" "read_usize (hp_mem (deallocate_tcb tp h')) (tp + 8) = 0"
proof -
  from assms(2,3,5,6) have d: "deallocate_tcb tp h' = hp_write (tp + 8) 0 (rtld_dealloc base 1056 8 h')"
    by (simp add: deallocate_tcb_def tcb_consts Let_def dtv_size)
  have ins: "inside x base 4096 \<longleftrightarrow> x - base < 4096" for x using inside_word [of x base 4096] by simp
  from assms(1) have "base AND 0xfff = 0" by (simp add: fresh_dtv_def)
  note de = rtld_dealloc_block [OF dtv_size(3) this, unfolded dtv_size(2)]
  show "read_usize (hp_mem (deallocate_tcb tp h')) (tp + 8) = 0" by (simp add: d hp_write_def)
  show "hp_mapped (deallocate_tcb tp h') = hp_mapped h"
    using assms(1,4) by (auto simp: d hp_write_def de fresh_dtv_def ins fun_eq_iff)
qed

section \<open>An example kernel\<close>

text \<open>It has sixteen pages to give, at one place.\<close>

definition ex_mmap :: mmap where
  "ex_mmap i mapped n =
     (if n \<le> 0x10000 \<and> list_all (\<lambda>k. \<not> mapped (0x700000 + of_nat k)) [0..<unat n] then Some 0x700000 else None)"

definition ex_heap :: heap where
  "ex_heap = \<lparr>hp_mem = (\<lambda>x. 0), hp_mapped = (\<lambda>x. x - 0x5000 < 4096), hp_calls = 0\<rparr>"

lemma ex_mmap_ok: "mmap_ok ex_mmap"
proof -
  have "\<not> mapped x" if "list_all (\<lambda>k. \<not> mapped (0x700000 + of_nat k)) [0..<unat n]" "x - 0x700000 < n"
    for mapped :: "usize \<Rightarrow> bool" and x n :: usize
  proof -
    have "unat (x - 0x700000) < unat n" using that(2) by (simp add: word_less_nat_alt)
    with that(1) have "\<not> mapped (0x700000 + of_nat (unat (x - 0x700000)))"
      unfolding list_all_iff by (metis atLeastLessThan_iff atLeastLessThan_upt le0)
    then show ?thesis by simp
  qed
  moreover have "unat (0x700000 :: usize) + unat n \<le> 2 ^ 64" if "n \<le> (0x10000 :: usize)" for n
    using that by (simp add: word_le_nat_alt)
  ultimately show ?thesis by (auto simp: mmap_ok_def ex_mmap_def split: if_splits)
qed

lemma ex_mmap_free: "n \<le> 0x10000 \<Longrightarrow> ex_mmap i (hp_mapped ex_heap) n = Some 0x700000"
proof -
  assume n: "n \<le> 0x10000"
  have "\<not> hp_mapped ex_heap (0x700000 + of_nat k)" if "k < unat n" for k
  proof -
    have k: "k < 0x10001" using that n by (simp add: word_le_nat_alt)
    have "0x700000 + of_nat k - 0x5000 = (of_nat (0x6fb000 + k) :: usize)" by simp
    moreover have "unat (of_nat (0x6fb000 + k) :: usize) = 0x6fb000 + k"
      using k by (simp add: unat_of_nat del: of_nat_add)
    ultimately show ?thesis by (simp add: ex_heap_def word_less_nat_alt del: of_nat_add)
  qed
  with n show ?thesis by (simp add: ex_mmap_def list_all_iff)
qed

lemma ex_tcb_start:
  "read_usize (hp_mem ex_heap) (0x5000 + 8) = 0" "inside x 0x5000 56 \<Longrightarrow> hp_mapped ex_heap x"
  by code_simp (simp add: inside_def ex_heap_def word_less_nat_alt)

lemma ex_tcb: "\<exists>h'. glibc_init_tcb ex_mmap 0x5000 ex_heap = (Ok (), h')"
proof -
  have "deallocate_tcb 0x5000 ex_heap = ex_heap" using ex_tcb_start(1) by (simp add: deallocate_tcb_def tcb_consts)
  then show ?thesis
    using ex_mmap_free [of 4096]
    by (auto simp: glibc_init_tcb_def allocate_dtv_def dtv_size DTV_SLOT_COUNT_def rtld_alloc_zeroed_def rtld_alloc_def Let_def)
qed

section \<open>Properties\<close>

text \<open>
  C19. Growing or shrinking a block with the allocator keeps its contents: the new block starts
  with the bytes of the old one, the pages of the old block are given back, every other mapped
  byte stays as it was, and when the kernel has no memory the old block is still there.
\<close>

theorem realloc_keeps_contents:
  assumes "mmap_ok mmap" "is_block h p sz align" "rtld_realloc mmap p sz align new_size h = (q, h')"
  shows "(if q = 0 then hp_mem h' = hp_mem h \<and> hp_mapped h' = hp_mapped h
    else (\<forall>k < min (unat sz) (unat new_size). hp_mem h' (q + of_nat k) = hp_mem h (p + of_nat k)) \<and>
      (\<forall>x. hp_mapped h x \<and> \<not> x - p < page_rounded_size sz align \<longrightarrow> hp_mapped h' x \<and> hp_mem h' x = hp_mem h x) \<and>
      (\<forall>x. x - p < page_rounded_size sz align \<longrightarrow> \<not> hp_mapped h' x) \<and>
      (\<forall>k < unat (max new_size 1). hp_mapped h' (q + of_nat k)))"
proof (cases "layout_ok (max new_size 1) align")
  case new: True
  obtain r h1 where al: "rtld_alloc mmap (max new_size 1) align h = (r, h1)" by fastforce
  from assms(2) have blk: "layout_ok sz align" "p AND 0xfff = 0" "\<And>x. x - p < page_rounded_size sz align \<Longrightarrow> hp_mapped h x"
    by (auto simp: is_block_def)
  let ?n = "page_rounded_size (max new_size 1) align" and ?c = "min (unat sz) (unat new_size)"
  from assms(1) al show ?thesis
  proof (cases rule: rtld_alloc_cases)
    case fail
    with new al assms(3) show ?thesis by (simp add: rtld_realloc_def)
  next
    case block
    have uc: "unat (min sz new_size) = ?c" by (simp add: min_def word_le_nat_alt)
    have nb: "unat (max new_size 1) \<le> unat ?n" "unat new_size \<le> unat (max new_size 1)" "unat ?n < 2 ^ 64"
      using page_rounded_bounds(1) [OF new] usize_bound [of ?n] by (simp_all add: max_def word_le_nat_alt)
    have src: "p + of_nat k - p < page_rounded_size sz align" if "k < ?c" for k
      using page_rounded_bounds(1) [OF blk(1)] inside_offset [of k "unat (page_rounded_size sz align)" p] that
      by (simp only: inside_word [symmetric])
    have dst: "inside (r + of_nat k) r (unat ?n)" if "k < unat (max new_size 1)" for k
      by (rule inside_offset) (use that nb(1) in linarith)
    have fresh: "\<not> inside x r (unat ?n)" if "hp_mapped h x" for x
      using block(4) that by (auto simp: inside_word)
    have sub: "inside x r (unat ?n)" if "inside x r ?c" for x
      using inside_mono [of x r 0 ?c "unat ?n"] that nb by simp
    have "?c \<le> 2 ^ 64" using nb by linarith
    then have copy: "copy_up r p 0 ?c (hp_mem h1) = copied r p ?c (hp_mem h1)"
      by (rule copy_up_disjoint) (use sub fresh blk(3) src in blast)
    have h': "q = r" "hp_mem h' = copied r p ?c (hp_mem h1)"
      "hp_mapped h' = (\<lambda>x. hp_mapped h1 x \<and> \<not> x - p < page_rounded_size sz align)"
      using assms(3) new al block(1) by (auto simp: rtld_realloc_def Let_def uc copy rtld_dealloc_block [OF blk(1,2)])
    have mem: "hp_mem h1 x = hp_mem h x" if "hp_mapped h x" for x
      using block(4) [of x] that by (auto simp: block(6) clear_block_def)
    have "hp_mem h' (q + of_nat k) = hp_mem h (p + of_nat k)" if "k < ?c" for k
      using copied_offset [OF that \<open>?c \<le> 2 ^ 64\<close>] mem [OF blk(3) [OF src [OF that]]] by (simp add: h')
    moreover have "hp_mapped h' x \<and> hp_mem h' x = hp_mem h x"
      if "hp_mapped h x" "\<not> x - p < page_rounded_size sz align" for x
      using that fresh [of x] sub [of x] mem [of x] by (auto simp: h' copied_def block(5))
    moreover have "hp_mapped h' (q + of_nat k)" if "k < unat (max new_size 1)" for k
      using dst [OF that] block(4) [of "r + of_nat k"] blk(3) [of "r + of_nat k"]
      by (auto simp: h' block(5) inside_word)
    ultimately show ?thesis using block(1) by (auto simp: h')
  qed
qed (use assms(3) in \<open>simp add: rtld_realloc_def\<close>)

theorem realloc_keeps_contents_witness:
  "\<exists>q h'. rtld_realloc ex_mmap 0x5000 10 1 5000 ex_heap = (q, h') \<and> q \<noteq> 0 \<and> hp_mem h' (q + 3) = hp_mem ex_heap 0x5003 \<and>
     \<not> hp_mapped h' 0x5000"
proof -
  have sz: "page_rounded_size 10 1 = 4096" "page_rounded_size 5000 1 = 8192" "layout_ok 10 1" "layout_ok 5000 1"
    by code_simp+
  obtain q h' where run: "rtld_realloc ex_mmap 0x5000 10 1 5000 ex_heap = (q, h')" by fastforce
  then have q: "q = 0x700000" using ex_mmap_free [of 8192]
    by (auto simp: rtld_realloc_def sz rtld_alloc_def Let_def)
  have "is_block ex_heap 0x5000 10 1" by (simp add: is_block_def sz ex_heap_def)
  from realloc_keeps_contents [OF ex_mmap_ok this run] q
  have "\<forall>k < 10. hp_mem h' (q + of_nat k) = hp_mem ex_heap (0x5000 + of_nat k)" "\<not> hp_mapped h' 0x5000"
    by (auto simp: sz)
  from this(1) [rule_format, of 3] this(2) run q show ?thesis by auto
qed

lemma tcb_roundtrip:
  assumes "mmap_ok mmap" "glibc_init_tcb mmap tp h = (Ok (), h')" "tp \<noteq> 0"
    and "read_usize (hp_mem h) (tp + 8) = 0" "\<And>x. inside x tp 56 \<Longrightarrow> hp_mapped h x"
  shows "words_at (hp_mem h') tp [tp, read_usize (hp_mem h') (tp + 8), tp] \<and>
    read_usize (hp_mem h') (tp + 0x28) = BOOTSTRAP_STACK_GUARD \<and>
    read_usize (hp_mem h') (tp + 0x30) = BOOTSTRAP_POINTER_GUARD \<and>
    (let dtv = read_usize (hp_mem h') (tp + 8) in dtv \<noteq> 0 \<and> read_usize (hp_mem h') (dtv - 16) = DTV_SLOT_COUNT \<and>
       (\<forall>k < 65 * 16. hp_mem h' (dtv + of_nat k) = 0 \<and> hp_mapped h' (dtv + of_nat k))) \<and>
    hp_mapped (deallocate_tcb tp h') = hp_mapped h \<and>
    read_usize (hp_mem (deallocate_tcb tp h')) (tp + 8) = 0"
proof -
  have "deallocate_tcb tp h = h" using assms(4) by (simp add: deallocate_tcb_def tcb_consts)
  with glibc_init_tcb_Ok [OF assms(1,2)] obtain base h1 where f: "fresh_dtv h base h1" "hp_mapped h' = hp_mapped h1"
    and mem: "hp_mem h' = write_usize (tp + 0x30) BOOTSTRAP_POINTER_GUARD (write_usize (tp + 0x28) BOOTSTRAP_STACK_GUARD
       (write_usize (tp + 0x10) tp (write_usize (tp + 8) (base + 16) (write_usize tp tp (hp_mem h1)))))"
    by metis
  note reads = tcb_reads [of tp BOOTSTRAP_POINTER_GUARD BOOTSTRAP_STACK_GUARD tp "base + 16" tp "hp_mem h1", folded mem]
  have out: "hp_mem h' x = hp_mem h1 x" if "inside x base 4096" for x
    unfolding mem by (rule tcb_frame) (use assms(5) f(1) that in \<open>auto simp: fresh_dtv_def\<close>)
  have "read_usize (hp_mem h') base = read_usize (hp_mem h1) base"
    by (rule read_frame) (use out inside_mono [of _ base 0 8 4096] in auto)
  also have "\<dots> = 64" using f(1) by (simp add: fresh_dtv_def)
  finally have slots: "read_usize (hp_mem h') base = 64" .
  have zero: "hp_mem h' (base + 16 + of_nat k) = 0 \<and> hp_mapped h' (base + 16 + of_nat k)" if "k < 65 * 16" for k
  proof -
    have i: "inside (base + of_nat (16 + k)) base 4096" by (rule inside_offset) (use that in simp)
    moreover have "\<not> inside (base + of_nat (16 + k)) base 8"
      using that by (simp add: inside_def unat_of_nat del: of_nat_add)
    ultimately show ?thesis using out [OF i] f by (auto simp: fresh_dtv_def write_frame add.assoc)
  qed
  have nz: "base + 16 \<noteq> 0"
  proof
    assume "base + 16 = 0"
    then have "base = - 16" by (simp add: eq_neg_iff_add_eq_0)
    with f(1) show False by (simp add: fresh_dtv_def)
  qed
  from deallocate_fresh [OF f(1) assms(3) nz f(2) reads(2) slots] reads slots zero nz show ?thesis
    by (simp add: Let_def DTV_SLOT_COUNT_def add.commute [of 16 tp])
qed

text \<open>
  Initialising a thread control block that has no DTV yet sets its self pointers and guards
  and gives it a DTV of 64 cleared slots; deallocating it afterwards returns exactly the
  memory taken for the DTV and forgets the DTV.
\<close>

theorem tcb_dtv_roundtrip:
  assumes "mmap_ok mmap" "glibc_init_tcb mmap tp h = (Ok (), h')" "tp \<noteq> 0"
    and "read_usize (hp_mem h) (tp + 8) = 0" "\<And>x. inside x tp 56 \<Longrightarrow> hp_mapped h x"
  shows "words_at (hp_mem h') tp [tp, read_usize (hp_mem h') (tp + 8), tp] \<and>
    read_usize (hp_mem h') (tp + 0x28) = BOOTSTRAP_STACK_GUARD \<and>
    read_usize (hp_mem h') (tp + 0x30) = BOOTSTRAP_POINTER_GUARD \<and>
    (let dtv = read_usize (hp_mem h') (tp + 8) in dtv \<noteq> 0 \<and> read_usize (hp_mem h') (dtv - 16) = DTV_SLOT_COUNT \<and>
       (\<forall>k < 65 * 16. hp_mem h' (dtv + of_nat k) = 0 \<and> hp_mapped h' (dtv + of_nat k))) \<and>
    hp_mapped (deallocate_tcb tp h') = hp_mapped h \<and>
    read_usize (hp_mem (deallocate_tcb tp h')) (tp + 8) = 0"
  using assms by (rule tcb_roundtrip)

theorem tcb_dtv_roundtrip_witness:
  "\<exists>h'. glibc_init_tcb ex_mmap 0x5000 ex_heap = (Ok (), h') \<and> read_usize (hp_mem h') 0x5010 = 0x5000 \<and>
     hp_mapped (deallocate_tcb 0x5000 h') = hp_mapped ex_heap"
proof -
  from ex_tcb obtain h' where run: "glibc_init_tcb ex_mmap 0x5000 ex_heap = (Ok (), h')" by blast
  from tcb_dtv_roundtrip [OF ex_mmap_ok run _ ex_tcb_start] run show ?thesis by auto
qed

end
