(* ===== verification/Startup_Stack.thy ===== *)
theory Startup_Stack
  imports Memory
begin

text \<open>
  The initial stack of a process as the replacement dynamic linker reads and rewrites it
  (\<open>rtld/impl/src/bootstrap.rs\<close>, and \<open>patch_exec_auxv\<close> of \<open>src/rtld.rs\<close>): the number of
  arguments, the arguments, the environment, both ended by a null word, and the auxiliary
  vector, pairs of a kind and a value ended by \<open>AT_NULL\<close>.

  The loops that look for a terminator do not end when memory holds none; they are partial
  functions, and \<open>None\<close> is a loop that never ends.
\<close>

section \<open>Constants\<close>

definition AT_NULL :: usize where "AT_NULL = 0"
definition AT_PHDR :: usize where "AT_PHDR = 3"
definition AT_PHENT :: usize where "AT_PHENT = 4"
definition AT_PHNUM :: usize where "AT_PHNUM = 5"
definition AT_PAGESZ :: usize where "AT_PAGESZ = 6"
definition AT_BASE :: usize where "AT_BASE = 7"
definition AT_ENTRY :: usize where "AT_ENTRY = 9"
definition AT_PLATFORM :: usize where "AT_PLATFORM = 15"
definition AT_HWCAP :: usize where "AT_HWCAP = 16"
definition AT_CLKTCK :: usize where "AT_CLKTCK = 17"
definition AT_FPUCW :: usize where "AT_FPUCW = 18"
definition AT_SECURE :: usize where "AT_SECURE = 23"
definition AT_HWCAP2 :: usize where "AT_HWCAP2 = 26"
definition AT_HWCAP3 :: usize where "AT_HWCAP3 = 29"
definition AT_HWCAP4 :: usize where "AT_HWCAP4 = 30"
definition AT_EXECFN :: usize where "AT_EXECFN = 31"
definition AT_SYSINFO_EHDR :: usize where "AT_SYSINFO_EHDR = 33"
definition AT_MINSIGSTKSZ :: usize where "AT_MINSIGSTKSZ = 51"

lemmas at_defs = AT_NULL_def AT_PHDR_def AT_PHENT_def AT_PHNUM_def AT_PAGESZ_def AT_BASE_def AT_ENTRY_def
  AT_PLATFORM_def AT_HWCAP_def AT_CLKTCK_def AT_FPUCW_def AT_SECURE_def AT_HWCAP2_def AT_HWCAP3_def
  AT_HWCAP4_def AT_EXECFN_def AT_SYSINFO_EHDR_def AT_MINSIGSTKSZ_def

section \<open>The auxiliary vector\<close>

record aux_state =
  ax_phdr :: usize
  ax_phent :: usize
  ax_phnum :: usize
  ax_base :: usize
  ax_entry :: usize
  ax_secure :: usize
  ax_pagesize :: usize
  ax_platform :: usize
  ax_hwcap :: usize
  ax_hwcap2 :: usize
  ax_hwcap3 :: usize
  ax_hwcap4 :: usize
  ax_clktck :: usize
  ax_fpucw :: usize
  ax_minsigstacksize :: usize
  ax_sysinfo_ehdr :: usize

definition aux_empty :: aux_state where
  "aux_empty = \<lparr>ax_phdr = 0, ax_phent = 0, ax_phnum = 0, ax_base = 0, ax_entry = 0, ax_secure = 0,
     ax_pagesize = 0, ax_platform = 0, ax_hwcap = 0, ax_hwcap2 = 0, ax_hwcap3 = 0, ax_hwcap4 = 0,
     ax_clktck = 0, ax_fpucw = 0, ax_minsigstacksize = 0, ax_sysinfo_ehdr = 0\<rparr>"

definition set_aux :: "usize \<Rightarrow> usize \<Rightarrow> aux_state \<Rightarrow> aux_state" where
  "set_aux kind v aux =
     (if kind = AT_PHDR then aux\<lparr>ax_phdr := v\<rparr>
      else if kind = AT_PHENT then aux\<lparr>ax_phent := v\<rparr>
      else if kind = AT_PHNUM then aux\<lparr>ax_phnum := v\<rparr>
      else if kind = AT_BASE then aux\<lparr>ax_base := v\<rparr>
      else if kind = AT_ENTRY then aux\<lparr>ax_entry := v\<rparr>
      else if kind = AT_SECURE then aux\<lparr>ax_secure := v\<rparr>
      else if kind = AT_PAGESZ then aux\<lparr>ax_pagesize := v\<rparr>
      else if kind = AT_PLATFORM then aux\<lparr>ax_platform := v\<rparr>
      else if kind = AT_HWCAP then aux\<lparr>ax_hwcap := v\<rparr>
      else if kind = AT_HWCAP2 then aux\<lparr>ax_hwcap2 := v\<rparr>
      else if kind = AT_HWCAP3 then aux\<lparr>ax_hwcap3 := v\<rparr>
      else if kind = AT_HWCAP4 then aux\<lparr>ax_hwcap4 := v\<rparr>
      else if kind = AT_CLKTCK then aux\<lparr>ax_clktck := v\<rparr>
      else if kind = AT_FPUCW then aux\<lparr>ax_fpucw := v\<rparr>
      else if kind = AT_MINSIGSTKSZ then aux\<lparr>ax_minsigstacksize := v\<rparr>
      else if kind = AT_SYSINFO_EHDR then aux\<lparr>ax_sysinfo_ehdr := v\<rparr>
      else aux)"

partial_function (option) parse_auxv_from :: "memory \<Rightarrow> usize \<Rightarrow> aux_state \<Rightarrow> aux_state option" where
  "parse_auxv_from mem auxp aux =
     (let kind = read_usize mem auxp;
          v = read_usize mem (auxp + 8)
      in if kind = AT_NULL then Some aux else parse_auxv_from mem (auxp + 16) (set_aux kind v aux))"

definition parse_auxv :: "memory \<Rightarrow> usize \<Rightarrow> aux_state option" where
  "parse_auxv mem auxp = parse_auxv_from mem auxp aux_empty"

text \<open>\<open>patch_exec_auxv\<close> writes the values of the loaded program over those of the kernel.\<close>

record exec_values =
  ev_phdr :: usize
  ev_phent :: usize
  ev_phnum :: usize
  ev_base :: usize
  ev_entry :: usize
  ev_exec_path :: usize

definition patch_value :: "exec_values \<Rightarrow> usize \<Rightarrow> usize option" where
  "patch_value ev kind =
     (if kind = AT_PHDR then Some (ev_phdr ev)
      else if kind = AT_PHENT then Some (ev_phent ev)
      else if kind = AT_PHNUM then Some (ev_phnum ev)
      else if kind = AT_BASE then Some (ev_base ev)
      else if kind = AT_ENTRY then Some (ev_entry ev)
      else if kind = AT_EXECFN then Some (ev_exec_path ev)
      else None)"

partial_function (option) patch_auxv_loop :: "exec_values \<Rightarrow> usize \<Rightarrow> memory \<Rightarrow> memory option" where
  "patch_auxv_loop ev auxv mem =
     (let kind = read_usize mem auxv in
      if kind = AT_NULL then Some mem
      else
        (let mem' = (case patch_value ev kind of
                       Some v \<Rightarrow> write_usize (auxv + 8) v mem
                     | None \<Rightarrow> mem)
         in patch_auxv_loop ev (auxv + 16) mem'))"

definition patch_exec_auxv :: "exec_values \<Rightarrow> usize \<Rightarrow> memory \<Rightarrow> memory option" where
  "patch_exec_auxv ev auxv mem = (if auxv = 0 then Some mem else patch_auxv_loop ev auxv mem)"

section \<open>Rewriting the stack for a program given on the command line\<close>

record direct_program =
  dp_argv_index :: usize
  dp_argv0 :: usize

record rewritten_stack =
  rs_argc :: usize
  rs_argv :: usize
  rs_envp :: usize
  rs_auxv :: usize
  rs_exec_path :: usize

partial_function (option) skip_words :: "memory \<Rightarrow> usize \<Rightarrow> usize option" where
  "skip_words mem p = (if read_usize mem p = 0 then Some p else skip_words mem (p + 8))"

partial_function (option) skip_auxv :: "memory \<Rightarrow> usize \<Rightarrow> usize option" where
  "skip_auxv mem p = (if read_usize mem p = AT_NULL then Some p else skip_auxv mem (p + 16))"

fun copy_words :: "nat \<Rightarrow> usize \<Rightarrow> usize \<Rightarrow> memory \<Rightarrow> memory" where
  "copy_words 0 src dst mem = mem"
| "copy_words (Suc n) src dst mem =
     copy_words n (src + 8) (dst + 8) (write_usize dst (read_usize mem src) mem)"

text \<open>
  The length that is moved is a subtraction of two addresses; when it overflows the process
  panics, which ends it (\<open>Inl\<close>).
\<close>

definition rewrite_initial_stack_for_program ::
  "usize \<Rightarrow> usize \<Rightarrow> direct_program \<Rightarrow> memory \<Rightarrow> (unit + rewritten_stack \<times> memory) option" where
  "rewrite_initial_stack_for_program stack argc direct mem =
     (let new_argc = argc - dp_argv_index direct;
          src = stack + 8 * (1 + dp_argv_index direct);
          dst = stack + 8;
          old_envp = stack + 8 * (argc + 2)
      in case skip_words mem old_envp of
           None \<Rightarrow> None
         | Some p \<Rightarrow>
             (case skip_auxv mem (p + 8) of
                None \<Rightarrow> None
              | Some q \<Rightarrow>
                  (let old_end = q + 16 in
                   if old_end < src then Some (Inl ())
                   else
                     (let count = (old_end - src) div 8;
                          mem1 = copy_words (unat count) src dst mem;
                          mem2 = write_usize stack new_argc mem1;
                          exec_path = read_usize mem2 dst;
                          mem3 = (if dp_argv0 direct \<noteq> 0 then write_usize dst (dp_argv0 direct) mem2 else mem2);
                          envp = stack + 8 * (new_argc + 2)
                      in case skip_words mem3 envp of
                           None \<Rightarrow> None
                         | Some r \<Rightarrow>
                             Some (Inr (\<lparr>rs_argc = new_argc, rs_argv = stack + 8, rs_envp = envp,
                                         rs_auxv = r + 8, rs_exec_path = exec_path\<rparr>, mem3))))))"

section \<open>What lies on the stack\<close>

definition auxv_words :: "(usize \<times> usize) list \<Rightarrow> usize list" where
  "auxv_words es = concat (map (\<lambda>(kind, v). [kind, v]) es)"

definition aux_kinds_ok :: "(usize \<times> usize) list \<Rightarrow> bool" where
  "aux_kinds_ok es \<longleftrightarrow> (\<forall>(kind, v) \<in> set es. kind \<noteq> AT_NULL)"

text \<open>The auxiliary vector with entries \<open>es\<close>; \<open>w\<close> is the value of the final entry.\<close>

definition auxv_at :: "memory \<Rightarrow> usize \<Rightarrow> (usize \<times> usize) list \<Rightarrow> usize \<Rightarrow> bool" where
  "auxv_at mem p es w \<longleftrightarrow> words_at mem p (auxv_words es @ [AT_NULL, w]) \<and> aux_kinds_ok es"

definition stack_words :: "usize list \<Rightarrow> usize list \<Rightarrow> (usize \<times> usize) list \<Rightarrow> usize \<Rightarrow> usize list" where
  "stack_words argv envs es w =
     of_nat (length argv) # argv @ [0] @ envs @ [0] @ auxv_words es @ [AT_NULL, w]"

text \<open>The last entry of a kind counts; a kind without an entry reads as zero.\<close>

definition aux_value :: "usize \<Rightarrow> (usize \<times> usize) list \<Rightarrow> usize" where
  "aux_value kind es = (case map_of (rev es) kind of Some v \<Rightarrow> v | None \<Rightarrow> 0)"

lemma auxv_words_simps [simp]:
  "auxv_words [] = []" "auxv_words ((kind, v) # es) = kind # v # auxv_words es"
  by (simp_all add: auxv_words_def)

lemma length_auxv_words [simp]: "length (auxv_words es) = 2 * length es"
  by (induction es) auto

lemma auxv_at_Nil: "auxv_at mem p [] w \<longleftrightarrow> read_usize mem p = AT_NULL \<and> read_usize mem (p + 8) = w"
  by (simp add: auxv_at_def aux_kinds_ok_def)

lemma auxv_at_Cons:
  "auxv_at mem p ((kind, v) # es) w \<longleftrightarrow>
     kind \<noteq> AT_NULL \<and> read_usize mem p = kind \<and> read_usize mem (p + 8) = v \<and> auxv_at mem (p + 16) es w"
  by (auto simp: auxv_at_def aux_kinds_ok_def algebra_simps)

section \<open>The loops\<close>

lemma skip_words_found:
  "words_at mem p (xs @ [0]) \<Longrightarrow> 0 \<notin> set xs \<Longrightarrow> skip_words mem p = Some (p + 8 * of_nat (length xs))"
proof (induction xs arbitrary: p)
  case Nil
  then show ?case by (simp add: skip_words.simps)
next
  case (Cons x xs)
  then show ?case by (subst skip_words.simps) (simp add: algebra_simps)
qed

lemma skip_auxv_found:
  "auxv_at mem p es w \<Longrightarrow> skip_auxv mem p = Some (p + 16 * of_nat (length es))"
proof (induction es arbitrary: p)
  case Nil
  then show ?case by (simp add: skip_auxv.simps auxv_at_Nil)
next
  case (Cons e es)
  then show ?case by (cases e) (subst skip_auxv.simps, simp add: auxv_at_Cons algebra_simps)
qed

lemma parse_auxv_from_fold:
  "auxv_at mem p es w \<Longrightarrow> parse_auxv_from mem p aux = Some (fold (\<lambda>(kind, v). set_aux kind v) es aux)"
proof (induction es arbitrary: p aux)
  case Nil
  then show ?case by (simp add: parse_auxv_from.simps auxv_at_Nil)
next
  case (Cons e es)
  then show ?case by (cases e) (subst parse_auxv_from.simps, simp add: auxv_at_Cons)
qed

text \<open>One lemma for all sixteen fields: a field that \<open>set_aux\<close> sets for exactly one kind.\<close>

lemma aux_field:
  assumes "\<And>kind v aux. f (set_aux kind v aux) = (if kind = k then v else f aux)" "f aux_empty = 0"
  shows "f (fold (\<lambda>(kind, v). set_aux kind v) es aux_empty) = aux_value k es"
proof (induction es rule: rev_induct)
  case (snoc e es)
  then show ?case by (cases e) (simp add: assms(1) aux_value_def)
qed (simp add: assms(2) aux_value_def)

lemmas aux_fields = aux_field [where f = ax_phdr] aux_field [where f = ax_phent] aux_field [where f = ax_phnum]
  aux_field [where f = ax_base] aux_field [where f = ax_entry] aux_field [where f = ax_secure]
  aux_field [where f = ax_pagesize] aux_field [where f = ax_platform] aux_field [where f = ax_hwcap]
  aux_field [where f = ax_hwcap2] aux_field [where f = ax_hwcap3] aux_field [where f = ax_hwcap4]
  aux_field [where f = ax_clktck] aux_field [where f = ax_fpucw] aux_field [where f = ax_minsigstacksize]
  aux_field [where f = ax_sysinfo_ehdr]

lemma copy_words_moves:
  assumes "words_at mem src xs" "src = dst + of_nat (8 * k)" "8 * (k + length xs) \<le> 2 ^ 64"
  shows "words_at (copy_words (length xs) src dst mem) dst xs \<and>
    (\<forall>x. \<not> inside x dst (8 * length xs) \<longrightarrow> copy_words (length xs) src dst mem x = mem x)"
  using assms
proof (induction xs arbitrary: src dst mem)
  case (Cons y ys)
  let ?mem = "write_usize dst y mem"
  let ?mem' = "copy_words (length ys) (src + 8) (dst + 8) ?mem"
  have room: "8 * k + 8 + 8 * length ys \<le> 2 ^ 64" using Cons.prems(3) by simp
  have "?mem x = mem x" if "inside x (src + 8) (8 * length ys)" for x
  proof (rule write_frame)
    have src: "src + 8 = dst + of_nat (8 + 8 * k)" using Cons.prems(2) by (simp add: algebra_simps)
    show "\<not> inside x dst 8"
    proof
      assume "inside x dst 8"
      then have "inside x dst (8 + 8 * k)" using inside_mono [of x dst 0 8] by simp
      from before_disjoint [OF this, of "8 * length ys"] room that show False unfolding src by simp
    qed
  qed
  then have "words_at ?mem (src + 8) ys"
    using Cons.prems(1) words_frame [of "src + 8" ys ?mem mem] by simp
  from Cons.IH [OF this, of "dst + 8"] Cons.prems(2,3)
  have IH: "words_at ?mem' (dst + 8) ys"
    "\<forall>x. \<not> inside x (dst + 8) (8 * length ys) \<longrightarrow> ?mem' x = ?mem x" by (simp_all add: algebra_simps)
  have "read_usize ?mem' dst = read_usize ?mem dst"
    using before_disjoint [of _ dst 8 "8 * length ys"] room IH(2) by (intro read_frame) simp
  moreover have "?mem' x = mem x" if "\<not> inside x dst (8 * length (y # ys))" for x
  proof -
    have "\<not> inside x (dst + 8) (8 * length ys)" "\<not> inside x dst 8"
      using that inside_mono [of x dst 8 "8 * length ys" "8 * length (y # ys)"]
        inside_mono [of x dst 0 8 "8 * length (y # ys)"] by auto
    then show ?thesis using IH(2) write_frame [of x dst y mem] by simp
  qed
  ultimately show ?case using IH(1) Cons.prems(1) by simp
qed simp

text \<open>Overwriting the values of the program.\<close>

definition patch_entry :: "exec_values \<Rightarrow> usize \<times> usize \<Rightarrow> usize \<times> usize" where
  "patch_entry ev = (\<lambda>(kind, v). (kind, case patch_value ev kind of Some v' \<Rightarrow> v' | None \<Rightarrow> v))"

lemma patch_loop:
  assumes "auxv_at mem p es w" "16 * Suc (length es) \<le> 2 ^ 64"
  shows "\<exists>mem'. patch_auxv_loop ev p mem = Some mem' \<and> auxv_at mem' p (map (patch_entry ev) es) w \<and>
    (\<forall>x. \<not> inside x p (16 * length es) \<longrightarrow> mem' x = mem x)"
  using assms
proof (induction es arbitrary: p mem)
  case Nil
  then show ?case by (simp add: patch_auxv_loop.simps auxv_at_Nil)
next
  case (Cons e es)
  obtain kind v where e: "e = (kind, v)" by (cases e)
  let ?mem = "case patch_value ev kind of Some v' \<Rightarrow> write_usize (p + 8) v' mem | None \<Rightarrow> mem"
  have room: "16 + 16 * length (es @ [(AT_NULL, w)]) \<le> 2 ^ 64" using Cons.prems(2) by simp
  have frame1: "?mem x = mem x" if "\<not> inside x (p + 8) 8" for x
    using write_frame [OF that] by (simp split: option.splits)
  have "?mem x = mem x" if "inside x (p + 16) (8 * length (auxv_words es @ [AT_NULL, w]))" for x
  proof (rule frame1)
    have "inside x (p + 8) 8 \<Longrightarrow> inside x p 16" using inside_mono [of x p 8 8 16] by simp
    with that before_disjoint [of x p 16 "16 * length (es @ [(AT_NULL, w)])"] room
    show "\<not> inside x (p + 8) 8" by auto
  qed
  then have "auxv_at ?mem (p + 16) es w"
    using Cons.prems(1) words_frame [of "p + 16" "auxv_words es @ [AT_NULL, w]" ?mem mem]
    unfolding e auxv_at_Cons by (simp add: auxv_at_def)
  from Cons.IH [OF this] room obtain mem' where mem': "patch_auxv_loop ev (p + 16) ?mem = Some mem'"
    "auxv_at mem' (p + 16) (map (patch_entry ev) es) w"
    "\<forall>x. \<not> inside x (p + 16) (16 * length es) \<longrightarrow> mem' x = ?mem x" by auto
  have below: "mem' x = ?mem x" if "inside x p 16" for x
    using mem'(3) before_disjoint [OF that, of "16 * length es"] room by simp
  have "read_usize mem' p = read_usize ?mem p" "read_usize mem' (p + 8) = read_usize ?mem (p + 8)"
    using inside_mono [of _ p 0 8 16] inside_mono [of _ p 8 8 16] by (auto intro!: read_frame below)
  moreover have "read_usize ?mem p = read_usize mem p"
    using before_disjoint [of _ p 8 8] by (intro read_frame frame1) simp
  ultimately have "auxv_at mem' p (map (patch_entry ev) (e # es)) w"
    using mem'(2) Cons.prems(1) by (auto simp: e auxv_at_Cons patch_entry_def split: option.splits)
  moreover have "mem' x = mem x" if "\<not> inside x p (16 * length (e # es))" for x
  proof -
    have "\<not> inside x (p + 16) (16 * length es)" "\<not> inside x (p + 8) 8"
      using that inside_mono [of x p 16 "16 * length es" "16 * length (e # es)"]
        inside_mono [of x p 8 8 "16 * length (e # es)"] by auto
    then show ?thesis using mem'(3) frame1 by metis
  qed
  moreover have "patch_auxv_loop ev p mem = Some mem'"
    using mem'(1) Cons.prems(1) by (subst patch_auxv_loop.simps) (simp add: e auxv_at_Cons Let_def)
  ultimately show ?case by blast
qed

text \<open>The parts of a stack, and where the loop over the environment stops.\<close>

lemma stack_parts:
  assumes "words_at mem stack (stack_words argv envs es w)" "0 \<notin> set envs" "aux_kinds_ok es"
  defines "envp \<equiv> stack + 8 * (of_nat (length argv) + 2)"
  shows "words_at mem (stack + 8) (argv @ [0])" "words_at mem envp (envs @ [0])"
    "skip_words mem envp = Some (envp + 8 * of_nat (length envs))"
    "auxv_at mem (envp + 8 * of_nat (length envs) + 8) es w"
proof -
  show argv: "words_at mem (stack + 8) (argv @ [0])"
    using assms(1) by (simp add: stack_words_def words_at_append)
  have "envp = stack + 8 + 8 * of_nat (length (argv @ [0]))" by (simp add: envp_def algebra_simps)
  then show envs: "words_at mem envp (envs @ [0])"
    using assms(1) words_at_append [of mem "stack + 8" "argv @ [0]"] by (simp add: stack_words_def words_at_append)
  from skip_words_found [OF this assms(2)] show "skip_words mem envp = Some (envp + 8 * of_nat (length envs))" .
  have "envp + 8 * of_nat (length envs) + 8 = stack + 8 + 8 * of_nat (length (argv @ [0] @ envs @ [0]))"
    by (simp add: envp_def algebra_simps)
  then show "auxv_at mem (envp + 8 * of_nat (length envs) + 8) es w"
    using assms(1,3) words_at_append [of mem "stack + 8" "argv @ [0] @ envs @ [0]" "auxv_words es @ [AT_NULL, w]"]
    by (simp add: stack_words_def auxv_at_def)
qed

lemma write_head:
  assumes "words_at mem (p + 8) xs" "8 * (1 + length xs) \<le> 2 ^ 64"
  shows "words_at (write_usize p v mem) p (v # xs)"
proof -
  have "write_usize p v mem z = mem z" if "inside z (p + 8) (8 * length xs)" for z
    using before_disjoint [of z p 8 "8 * length xs"] that assms(2) by (intro write_frame) auto
  from words_frame [OF this] assms(1) show ?thesis by simp
qed

lemma rewrite_run:
  assumes "skip_words mem (stack + 8 * (argc + 2)) = Some p" "skip_auxv mem (p + 8) = Some q"
    and "\<not> q + 16 < stack + 8 * (1 + dp_argv_index direct)"
    and "unat ((q + 16 - (stack + 8 * (1 + dp_argv_index direct))) div 8) = count"
    and "read_usize mem2 (stack + 8) = exec_path"
    and "new_argc = argc - dp_argv_index direct"
    and "mem1 = copy_words count (stack + 8 * (1 + dp_argv_index direct)) (stack + 8) mem"
    and "mem2 = write_usize stack new_argc mem1"
    and "mem3 = (if dp_argv0 direct \<noteq> 0 then write_usize (stack + 8) (dp_argv0 direct) mem2 else mem2)"
    and "skip_words mem3 (stack + 8 * (new_argc + 2)) = Some r"
  shows "rewrite_initial_stack_for_program stack argc direct mem =
    Some (Inr (\<lparr>rs_argc = new_argc, rs_argv = stack + 8, rs_envp = stack + 8 * (new_argc + 2),
      rs_auxv = r + 8, rs_exec_path = exec_path\<rparr>, mem3))"
  using assms by (simp only: rewrite_initial_stack_for_program_def Let_def option.case if_False)

text \<open>The length that is moved, from the program's first argument to the end of the vector.\<close>

lemma moved_length:
  fixes stack :: usize
  assumes "unat stack + 8 * (Suc i + n) < 2 ^ 64"
    and src: "src = stack + of_nat (8 * Suc i)" and fin: "fin = stack + of_nat (8 * (Suc i + n))"
  shows "\<not> fin < src" "unat ((fin - src) div 8) = n"
proof -
  have un: "unat (stack + of_nat m) = unat stack + m" if "m \<le> 8 * (Suc i + n)" for m
    using that assms(1) by (simp add: unat_word_ariths unat_of_nat)
  have fin': "unat fin = unat stack + 8 * (Suc i + n)" and src': "unat src = unat stack + 8 * Suc i"
    unfolding fin src by (rule un; simp)+
  then show le: "\<not> fin < src" by (simp add: word_less_nat_alt)
  have "unat (fin - src) = 8 * n" using unat_sub [of src fin] le fin' src' by (simp add: not_less)
  then show "unat ((fin - src) div 8) = n" by (simp add: unat_div)
qed

text \<open>The number of arguments and the first argument are written over the moved words.\<close>

lemma write_program:
  assumes "words_at mem (stack + 8) (x # rest)" "8 * (1 + length (x # rest)) \<le> 2 ^ 64"
    and "mem2 = write_usize stack argc mem"
    and "mem3 = (if a0 \<noteq> 0 then write_usize (stack + 8) a0 mem2 else mem2)"
  shows "words_at mem2 stack (argc # x # rest)" "words_at mem3 stack (argc # (if a0 \<noteq> 0 then a0 else x) # rest)"
    "\<not> inside y stack (8 * (2 + length rest)) \<Longrightarrow> mem3 y = mem y"
proof -
  show mem2: "words_at mem2 stack (argc # x # rest)"
    using write_head [OF assms(1,2)] unfolding assms(3) .
  then show "words_at mem3 stack (argc # (if a0 \<noteq> 0 then a0 else x) # rest)"
    using words_at_update [OF mem2, of 1 a0] assms(2) by (simp add: assms(4))
  assume "\<not> inside y stack (8 * (2 + length rest))"
  then have "\<not> inside y stack 8" "\<not> inside y (stack + 8) 8"
    using inside_mono [of y stack 0 8 "8 * (2 + length rest)"] inside_mono [of y stack 8 8 "8 * (2 + length rest)"] by auto
  then show "mem3 y = mem y" by (simp add: assms(3,4) write_frame)
qed

section \<open>Properties\<close>

text \<open>
  Reading the auxiliary vector the kernel passes ends and yields, for each of the sixteen
  kinds the dynamic linker knows, the value of the last entry of that kind, or zero.
\<close>

theorem parse_auxv_values:
  assumes "auxv_at mem p es w"
  shows "\<exists>aux. parse_auxv mem p = Some aux \<and>
    ax_phdr aux = aux_value AT_PHDR es \<and> ax_phent aux = aux_value AT_PHENT es \<and>
    ax_phnum aux = aux_value AT_PHNUM es \<and> ax_base aux = aux_value AT_BASE es \<and>
    ax_entry aux = aux_value AT_ENTRY es \<and> ax_secure aux = aux_value AT_SECURE es \<and>
    ax_pagesize aux = aux_value AT_PAGESZ es \<and> ax_platform aux = aux_value AT_PLATFORM es \<and>
    ax_hwcap aux = aux_value AT_HWCAP es \<and> ax_hwcap2 aux = aux_value AT_HWCAP2 es \<and>
    ax_hwcap3 aux = aux_value AT_HWCAP3 es \<and> ax_hwcap4 aux = aux_value AT_HWCAP4 es \<and>
    ax_clktck aux = aux_value AT_CLKTCK es \<and> ax_fpucw aux = aux_value AT_FPUCW es \<and>
    ax_minsigstacksize aux = aux_value AT_MINSIGSTKSZ es \<and>
    ax_sysinfo_ehdr aux = aux_value AT_SYSINFO_EHDR es"
proof -
  let ?aux = "fold (\<lambda>(kind, v). set_aux kind v) es aux_empty"
  have "parse_auxv mem p = Some ?aux" by (simp add: parse_auxv_def parse_auxv_from_fold [OF assms])
  then show ?thesis
    by (intro exI [of _ ?aux] conjI) (assumption | rule aux_fields; simp add: set_aux_def at_defs aux_empty_def)+
qed

definition ex_auxv :: "(usize \<times> usize) list" where
  "ex_auxv = [(AT_PHDR, 0x400040), (AT_PHNUM, 11), (AT_EXECFN, 0x7fff00), (AT_PHNUM, 13)]"

definition ex_stack :: memory where
  "ex_stack = store_words 0x7ff000 (stack_words [0x100, 0x200, 0x300] [0x400] ex_auxv 0) (\<lambda>a. 0)"

lemma ex_stack_words: "words_at ex_stack 0x7ff000 (stack_words [0x100, 0x200, 0x300] [0x400] ex_auxv 0)"
  unfolding ex_stack_def by (rule store_words_at) (simp add: stack_words_def ex_auxv_def)

lemma ex_auxv_at: "auxv_at ex_stack 0x7ff038 ex_auxv 0"
  using ex_stack_words by (simp add: stack_words_def auxv_at_def aux_kinds_ok_def ex_auxv_def at_defs)

theorem parse_auxv_values_witness:
  "\<exists>aux. parse_auxv ex_stack 0x7ff038 = Some aux \<and> ax_phdr aux = 0x400040 \<and> ax_phnum aux = 13 \<and> ax_base aux = 0"
proof -
  have "aux_value AT_PHDR ex_auxv = 0x400040" "aux_value AT_PHNUM ex_auxv = 13" "aux_value AT_BASE ex_auxv = 0"
    by (simp_all add: aux_value_def ex_auxv_def at_defs)
  with parse_auxv_values [OF ex_auxv_at] show ?thesis by (simp only: simp_thms) metis
qed

text \<open>
  Patching the auxiliary vector for a program loaded by the dynamic linker itself
  replaces the values of the six kinds that describe the program, keeps every other entry and
  the order of the entries, and changes no byte outside the vector.
\<close>

theorem patch_exec_auxv_patches:
  assumes "auxv_at mem p es w" "p \<noteq> 0" "16 * Suc (length es) \<le> 2 ^ 64"
  shows "\<exists>mem'. patch_exec_auxv ev p mem = Some mem' \<and>
    auxv_at mem' p (map (\<lambda>(kind, v). (kind, case patch_value ev kind of Some v' \<Rightarrow> v' | None \<Rightarrow> v)) es) w \<and>
    (\<forall>x. \<not> inside x p (16 * length es) \<longrightarrow> mem' x = mem x)"
  using patch_loop [OF assms(1,3), of ev] assms(2) by (simp add: patch_exec_auxv_def patch_entry_def)

theorem patch_exec_auxv_patches_witness:
  "\<exists>mem'. patch_exec_auxv \<lparr>ev_phdr = 1, ev_phent = 56, ev_phnum = 9, ev_base = 2, ev_entry = 3, ev_exec_path = 4\<rparr>
     0x7ff038 ex_stack = Some mem' \<and>
   auxv_at mem' 0x7ff038 [(AT_PHDR, 1), (AT_PHNUM, 9), (AT_EXECFN, 4), (AT_PHNUM, 9)] 0"
  using patch_exec_auxv_patches [OF ex_auxv_at, of "\<lparr>ev_phdr = 1, ev_phent = 56, ev_phnum = 9, ev_base = 2,
      ev_entry = 3, ev_exec_path = 4\<rparr>"]
  by (fastforce simp: ex_auxv_def patch_value_def at_defs)

lemma stack_rewritten:
  assumes words: "words_at mem stack (stack_words argv envs es w)"
    and stack: "0 \<notin> set envs" "aux_kinds_ok es"
      "unat stack + 8 * length (stack_words argv envs es w) < 2 ^ 64"
    and index: "unat (dp_argv_index direct) < length argv"
    and argv': "argv' = (let args = drop (unat (dp_argv_index direct)) argv in
      if dp_argv0 direct = 0 then args else dp_argv0 direct # tl args)"
  shows "\<exists>rs mem'. rewrite_initial_stack_for_program stack (of_nat (length argv)) direct mem = Some (Inr (rs, mem')) \<and>
    words_at mem' stack (stack_words argv' envs es w) \<and>
    (\<forall>x. \<not> inside x stack (8 * length (stack_words argv envs es w)) \<longrightarrow> mem' x = mem x) \<and>
    unat (rs_argc rs) = length argv' \<and> rs_argv rs = stack + 8 \<and> words_at mem' (rs_argv rs) (argv' @ [0]) \<and>
    words_at mem' (rs_envp rs) (envs @ [0]) \<and> auxv_at mem' (rs_auxv rs) es w \<and>
    rs_exec_path rs = argv ! unat (dp_argv_index direct) \<and>
    rs_auxv rs = stack + 8 * (of_nat (length argv') + 2) + 8 * of_nat (length envs) + 8"
proof -
  let ?i = "unat (dp_argv_index direct)" and ?n = "length argv" and ?x = "argv ! unat (dp_argv_index direct)"
  let ?src = "stack + 8 * (1 + dp_argv_index direct)" and ?envp = "stack + 8 * (of_nat ?n + 2)"
  define rest where "rest = drop (Suc ?i) argv @ [0] @ envs @ [0] @ auxv_words es @ [AT_NULL, w]"
  have "argv @ [0] @ envs @ [0] @ auxv_words es @ [AT_NULL, w] = take ?i argv @ ?x # rest"
    unfolding rest_def using id_take_nth_drop [OF index] by (metis append_Cons append_assoc)
  then have sw: "stack_words argv envs es w = of_nat ?n # take ?i argv @ ?x # rest"
    unfolding stack_words_def by simp
  have len: "length (stack_words argv envs es w) = Suc ?i + length (?x # rest)" using index by (simp add: sw)
  have dst: "?src = stack + 8 + of_nat (8 * ?i)" and src: "?src = stack + of_nat (8 * Suc ?i)"
    by (simp_all add: algebra_simps)
  note old = stack_parts [OF words stack(1,2)]
  have fin: "?envp + 8 * of_nat (length envs) + 8 + 16 * of_nat (length es) + 16 =
      stack + of_nat (8 * (Suc ?i + length (?x # rest)))"
    unfolding len [symmetric] by (simp add: stack_words_def algebra_simps)
  note moved = moved_length [OF stack(3) [unfolded len] src fin]
  define mem1 where "mem1 = copy_words (length (?x # rest)) ?src (stack + 8) mem"
  define argc where "argc = of_nat ?n - dp_argv_index direct"
  define mem2 where "mem2 = write_usize stack argc mem1"
  define mem3 where "mem3 = (if dp_argv0 direct \<noteq> 0 then write_usize (stack + 8) (dp_argv0 direct) mem2 else mem2)"
  have "words_at mem ?src (?x # rest)" using words index unfolding sw dst by (simp add: words_at_append)
  from copy_words_moves [OF this dst] stack(3) len have mem1: "words_at mem1 (stack + 8) (?x # rest)"
    "\<And>x. \<not> inside x (stack + 8) (8 * length (?x # rest)) \<Longrightarrow> mem1 x = mem x"
    unfolding mem1_def by simp_all
  have room: "8 * (1 + length (?x # rest)) \<le> 2 ^ 64" using stack(3) len by simp
  note program = write_program [OF mem1(1) room mem2_def mem3_def]
  have n': "length argv' = ?n - ?i" "length argv' < 2 ^ 64" using index stack(3)
    by (simp_all add: argv' Let_def Suc_diff_Suc stack_words_def)
  then have argc: "argc = of_nat (length argv')" using index by (simp add: argc_def of_nat_diff)
  have argc_len: "unat argc = length argv'" unfolding argc using n'(2) by (simp add: unat_of_nat)
  have "stack_words argv' envs es w = argc # (if dp_argv0 direct \<noteq> 0 then dp_argv0 direct else ?x) # rest"
    using index Cons_nth_drop_Suc [OF index]
    by (cases "dp_argv0 direct = 0") (auto simp: stack_words_def argv' argc rest_def Let_def drop_Suc tl_drop)
  then have mem3: "words_at mem3 stack (stack_words argv' envs es w)" using program(2) by simp
  note new = stack_parts [OF mem3 stack(1,2)]
  have frame: "mem3 x = mem x" if "\<not> inside x stack (8 * length (stack_words argv envs es w))" for x
  proof -
    have "\<not> inside x stack (8 * (2 + length rest))" "\<not> inside x (stack + 8) (8 * length (?x # rest))"
      using that len inside_mono [of x stack 0 "8 * (2 + length rest)" "8 * length (stack_words argv envs es w)"]
        inside_mono [of x stack 8 "8 * length (?x # rest)" "8 * length (stack_words argv envs es w)"] by auto
    then show ?thesis using program(3) mem1(2) by simp
  qed
  have "rewrite_initial_stack_for_program stack (of_nat ?n) direct mem =
    Some (Inr (\<lparr>rs_argc = argc, rs_argv = stack + 8, rs_envp = stack + 8 * (argc + 2),
      rs_auxv = stack + 8 * (argc + 2) + 8 * of_nat (length envs) + 8, rs_exec_path = ?x\<rparr>, mem3))"
    using program(1) new(3) by (intro rewrite_run [OF old(3) skip_auxv_found [OF old(4)] moved _ argc_def
        mem1_def mem2_def mem3_def]) (simp_all add: argc)
  then show ?thesis using mem3 frame argc argc_len new by simp
qed

text \<open>
  C14. When the dynamic linker is run with a program as argument, it moves the program's
  arguments, the environment and the auxiliary vector down over its own arguments: afterwards
  the stack is the one the program would have been started with (with the name given for
  \<open>--argv0\<close> as its first argument, if there is one), the returned pointers point to its
  parts, and nothing outside the old stack area changes.
\<close>

theorem rewrite_initial_stack_moves:
  assumes words: "words_at mem stack (stack_words argv envs es w)"
    and stack: "0 \<notin> set envs" "aux_kinds_ok es"
      "unat stack + 8 * length (stack_words argv envs es w) < 2 ^ 64"
    and index: "unat (dp_argv_index direct) < length argv"
    and argv': "argv' = (let args = drop (unat (dp_argv_index direct)) argv in
      if dp_argv0 direct = 0 then args else dp_argv0 direct # tl args)"
  shows "\<exists>rs mem'. rewrite_initial_stack_for_program stack (of_nat (length argv)) direct mem = Some (Inr (rs, mem')) \<and>
    words_at mem' stack (stack_words argv' envs es w) \<and>
    (\<forall>x. \<not> inside x stack (8 * length (stack_words argv envs es w)) \<longrightarrow> mem' x = mem x) \<and>
    unat (rs_argc rs) = length argv' \<and> rs_argv rs = stack + 8 \<and> words_at mem' (rs_argv rs) (argv' @ [0]) \<and>
    words_at mem' (rs_envp rs) (envs @ [0]) \<and> auxv_at mem' (rs_auxv rs) es w \<and>
    rs_exec_path rs = argv ! unat (dp_argv_index direct)"
  using stack_rewritten [OF assms] by blast

theorem rewrite_initial_stack_moves_witness:
  "\<exists>rs mem'. rewrite_initial_stack_for_program 0x7ff000 3 \<lparr>dp_argv_index = 1, dp_argv0 = 0\<rparr> ex_stack =
     Some (Inr (rs, mem')) \<and> words_at mem' 0x7ff000 (stack_words [0x200, 0x300] [0x400] ex_auxv 0) \<and>
     rs_exec_path rs = 0x200"
  using rewrite_initial_stack_moves [OF ex_stack_words, of "\<lparr>dp_argv_index = 1, dp_argv0 = 0\<rparr>"]
  by (fastforce simp: aux_kinds_ok_def stack_words_def ex_auxv_def at_defs Let_def)

end
