(* ===== verification/Rtld_Relocate.thy ===== *)
theory Rtld_Relocate
  imports Startup_Stack Loader
begin

text \<open>
  \<open>rtld/impl/src/bootstrap.rs\<close>: what the replacement dynamic linker reads of its own ELF
  image, and how it relocates itself before it can use any global data.

  The layout of the ELF structures (\<open>ElfPhdr\<close>, \<open>ElfDyn\<close>, \<open>ElfRelType\<close>, \<open>ElfHeader\<close> of
  \<open>elf_loader\<close>) and the relocation types of the architecture are a parameter, the record
  \<open>elf_view\<close>: each structure is read from memory at an address. What the relocation loop
  relies on is the locale \<open>elf_layout\<close>; the last part gives the layout of the ELF
  specification for x86-64.
\<close>

section \<open>Structures\<close>

record elf_rel =
  r_type :: u32
  r_offset :: usize
  r_addend :: "usize \<Rightarrow> usize"

record elf_header =
  e_phentsize :: usize
  e_phoff :: usize
  e_phnum :: usize
  e_entry :: usize

record elf_view =
  vw_phdr_size :: usize
  vw_phdr :: "memory \<Rightarrow> usize \<Rightarrow> elf_phdr"
  vw_dyn_size :: usize
  vw_dyn :: "memory \<Rightarrow> usize \<Rightarrow> elf_dyn"
  vw_rel_size :: usize
  vw_rel :: "memory \<Rightarrow> usize \<Rightarrow> elf_rel"
  vw_ehdr :: "memory \<Rightarrow> usize \<Rightarrow> elf_header"
  vw_none :: u32
  vw_relative :: u32

definition PT_PHDR :: u32 where "PT_PHDR = 6"

text \<open>\<open>slice::from_raw_parts(phdr, phnum)\<close>.\<close>

definition read_phdrs :: "elf_view \<Rightarrow> memory \<Rightarrow> usize \<Rightarrow> usize \<Rightarrow> elf_phdr list" where
  "read_phdrs view mem phdr phnum =
     map (\<lambda>i. vw_phdr view mem (phdr + of_nat i * vw_phdr_size view)) [0..<unat phnum]"

text \<open>The program headers the kernel reports, \<open>AuxState::phdr_at\<close> and \<open>find_phdr\<close>.\<close>

definition phdr_at :: "elf_view \<Rightarrow> memory \<Rightarrow> aux_state \<Rightarrow> usize \<Rightarrow> elf_phdr option" where
  "phdr_at view mem aux i =
     (if i \<ge> ax_phnum aux \<or> ax_phdr aux = 0 \<or> ax_phent aux < vw_phdr_size view then None
      else Some (vw_phdr view mem (ax_phdr aux + i * ax_phent aux)))"

function find_phdr_from :: "elf_view \<Rightarrow> memory \<Rightarrow> aux_state \<Rightarrow> u32 \<Rightarrow> usize \<Rightarrow> elf_phdr option" where
  "find_phdr_from view mem aux program_type i =
     (case phdr_at view mem aux i of
        None \<Rightarrow> None
      | Some phdr \<Rightarrow>
          if ph_type phdr = program_type then Some phdr
          else find_phdr_from view mem aux program_type (i + 1))"
  by pat_completeness auto
termination
proof (relation "measure (\<lambda>(view, mem, aux, ty, i). unat (ax_phnum aux) - unat i)", simp)
  fix view mem aux ty i phdr
  assume "phdr_at view mem aux i = Some phdr"
  then have lt: "unat i < unat (ax_phnum aux)"
    by (simp add: phdr_at_def not_le word_less_nat_alt split: if_splits)
  then have "unat (i + 1) = Suc (unat i)"
    using usize_bound [of "ax_phnum aux"] by (simp add: unat_word_ariths)
  with lt show "((view, mem, aux, ty, i + 1), (view, mem, aux, ty, i)) \<in>
      measure (\<lambda>(view, mem, aux, ty, i). unat (ax_phnum aux) - unat i)" by simp
qed

definition find_phdr :: "elf_view \<Rightarrow> memory \<Rightarrow> aux_state \<Rightarrow> u32 \<Rightarrow> elf_phdr option" where
  "find_phdr view mem aux program_type = find_phdr_from view mem aux program_type 0"

definition main_load_bias :: "elf_view \<Rightarrow> memory \<Rightarrow> aux_state \<Rightarrow> usize" where
  "main_load_bias view mem aux =
     (case find_phdr view mem aux PT_PHDR of Some phdr \<Rightarrow> ax_phdr aux - ph_vaddr phdr | None \<Rightarrow> 0)"

definition main_dynamic :: "elf_view \<Rightarrow> memory \<Rightarrow> aux_state \<Rightarrow> usize \<Rightarrow> usize" where
  "main_dynamic view mem aux load_bias =
     (case find_phdr view mem aux PT_DYNAMIC of Some phdr \<Rightarrow> load_bias + ph_vaddr phdr | None \<Rightarrow> 0)"

definition rtld_load_bias_from_dynamic :: "elf_view \<Rightarrow> memory \<Rightarrow> aux_state \<Rightarrow> usize \<Rightarrow> usize \<Rightarrow> usize" where
  "rtld_load_bias_from_dynamic view mem aux rtld_dynamic fallback =
     (if rtld_dynamic = 0 then fallback
      else
        (case find_phdr view mem aux PT_DYNAMIC of
           Some phdr \<Rightarrow> rtld_dynamic - ph_vaddr phdr
         | None \<Rightarrow> fallback))"

section \<open>The dynamic section\<close>

definition DT_NULL :: u64 where "DT_NULL = 0"
definition DT_NEEDED :: u64 where "DT_NEEDED = 1"
definition DT_PLTRELSZ :: u64 where "DT_PLTRELSZ = 2"
definition DT_RELA :: u64 where "DT_RELA = 7"
definition DT_RELASZ :: u64 where "DT_RELASZ = 8"
definition DT_RELAENT :: u64 where "DT_RELAENT = 9"
definition DT_JMPREL :: u64 where "DT_JMPREL = 23"
definition DT_RELRSZ :: u64 where "DT_RELRSZ = 35"
definition DT_RELR :: u64 where "DT_RELR = 36"
definition DT_RELRENT :: u64 where "DT_RELRENT = 37"

lemmas dt_defs = DT_NULL_def DT_NEEDED_def DT_PLTRELSZ_def DT_RELA_def DT_RELASZ_def DT_RELAENT_def
  DT_JMPREL_def DT_RELRSZ_def DT_RELR_def DT_RELRENT_def

record relocation_table =
  rt_offset :: usize
  rt_size :: usize
  rt_entry_size :: usize

record dynamic_info =
  di_has_needed :: bool
  di_relocations :: relocation_table
  di_relr :: usize
  di_relrsz :: usize
  di_relrent :: usize
  di_jmprel :: usize
  di_pltrelsz :: usize

definition relocation_table_empty :: "elf_view \<Rightarrow> relocation_table" where
  "relocation_table_empty view = \<lparr>rt_offset = 0, rt_size = 0, rt_entry_size = vw_rel_size view\<rparr>"

definition dynamic_info_empty :: "elf_view \<Rightarrow> dynamic_info" where
  "dynamic_info_empty view = \<lparr>di_has_needed = False, di_relocations = relocation_table_empty view,
     di_relr = 0, di_relrsz = 0, di_relrent = 8, di_jmprel = 0, di_pltrelsz = 0\<rparr>"

definition has_regular_relocations :: "dynamic_info \<Rightarrow> bool" where
  "has_regular_relocations info \<longleftrightarrow> rt_size (di_relocations info) \<noteq> 0"

text \<open>The native relocation tags are those of \<open>RELA\<close>, as on every 64-bit target.\<close>

definition set_dynamic :: "u64 \<Rightarrow> usize \<Rightarrow> dynamic_info \<Rightarrow> dynamic_info" where
  "set_dynamic tag v info =
     (if tag = DT_NEEDED then info\<lparr>di_has_needed := True\<rparr>
      else if tag = DT_RELA then info\<lparr>di_relocations := (di_relocations info)\<lparr>rt_offset := v\<rparr>\<rparr>
      else if tag = DT_RELASZ then info\<lparr>di_relocations := (di_relocations info)\<lparr>rt_size := v\<rparr>\<rparr>
      else if tag = DT_RELAENT \<and> v \<noteq> 0 then info\<lparr>di_relocations := (di_relocations info)\<lparr>rt_entry_size := v\<rparr>\<rparr>
      else if tag = DT_RELR then info\<lparr>di_relr := v\<rparr>
      else if tag = DT_RELRSZ then info\<lparr>di_relrsz := v\<rparr>
      else if tag = DT_RELRENT \<and> v \<noteq> 0 then info\<lparr>di_relrent := v\<rparr>
      else if tag = DT_JMPREL then info\<lparr>di_jmprel := v\<rparr>
      else if tag = DT_PLTRELSZ then info\<lparr>di_pltrelsz := v\<rparr>
      else info)"

fun dynamic_loop :: "elf_view \<Rightarrow> memory \<Rightarrow> nat \<Rightarrow> usize \<Rightarrow> dynamic_info \<Rightarrow> dynamic_info option" where
  "dynamic_loop view mem 0 p info = None"
| "dynamic_loop view mem (Suc n) p info =
     (case vw_dyn view mem p of (tag, v) \<Rightarrow>
        (if tag = DT_NULL then Some info
         else dynamic_loop view mem n (p + vw_dyn_size view) (set_dynamic tag v info)))"

definition dynamic_info_parse :: "elf_view \<Rightarrow> memory \<Rightarrow> usize \<Rightarrow> dynamic_info option" where
  "dynamic_info_parse view mem p =
     (if p = 0 then Some (dynamic_info_empty view)
      else dynamic_loop view mem 4096 p (dynamic_info_empty view))"

definition can_tail_jump_main :: "dynamic_info \<Rightarrow> bool" where
  "can_tail_jump_main info \<longleftrightarrow> \<not> di_has_needed info \<and> \<not> has_regular_relocations info \<and> di_relr info = 0 \<and>
     di_relrsz info = 0 \<and> di_jmprel info = 0 \<and> di_pltrelsz info = 0"

section \<open>Relocation\<close>

definition add_signed :: "usize \<Rightarrow> usize \<Rightarrow> usize" where
  "add_signed base addend = (if 0 <=s addend then base + addend else base - (- addend))"

fun relocation_loop :: "elf_view \<Rightarrow> usize \<Rightarrow> nat \<Rightarrow> usize \<Rightarrow> memory \<Rightarrow> bool \<times> memory" where
  "relocation_loop view bias 0 p mem = (True, mem)"
| "relocation_loop view bias (Suc n) p mem =
     (let rel = vw_rel view mem p in
      if r_type rel = vw_none view then relocation_loop view bias n (p + vw_rel_size view) mem
      else if r_type rel = vw_relative view then
        relocation_loop view bias n (p + vw_rel_size view)
          (write_usize (bias + r_offset rel) (add_signed bias (r_addend rel bias)) mem)
      else (False, mem))"

definition apply_relocations :: "elf_view \<Rightarrow> relocation_table \<Rightarrow> usize \<Rightarrow> memory \<Rightarrow> bool \<times> memory" where
  "apply_relocations view table bias mem =
     (if rt_size table = 0 then (True, mem)
      else if rt_offset table = 0 \<or> rt_entry_size table \<noteq> vw_rel_size view then (False, mem)
      else if rt_size table mod rt_entry_size table \<noteq> 0 then (False, mem)
      else relocation_loop view bias (unat (rt_size table div rt_entry_size table)) (bias + rt_offset table) mem)"

definition relocate_word :: "usize \<Rightarrow> usize \<Rightarrow> memory \<Rightarrow> memory" where
  "relocate_word bias a mem = write_usize a (bias + read_usize mem a) mem"

function relr_bitmap :: "usize \<Rightarrow> usize \<Rightarrow> usize \<Rightarrow> memory \<Rightarrow> memory" where
  "relr_bitmap bias bitmap dst mem =
     (if bitmap = 0 then mem
      else relr_bitmap bias (drop_bit 1 bitmap) (dst + 8)
             (if bitmap AND 1 \<noteq> 0 then relocate_word bias dst mem else mem))"
  by pat_completeness auto
termination
proof (relation "measure (\<lambda>(bias, bitmap, dst, mem). unat bitmap)", simp)
  fix bias bitmap dst :: usize and mem
  assume "bitmap \<noteq> 0"
  then have "unat bitmap div 2 < unat bitmap" by (simp add: unat_gt_0)
  then show "((bias, drop_bit 1 bitmap, dst + 8, if bitmap AND 1 \<noteq> 0 then relocate_word bias dst mem else mem),
      (bias, bitmap, dst, mem)) \<in> measure (\<lambda>(bias, bitmap, dst, mem). unat bitmap)"
    by (simp add: drop_bit_Suc unat_div)
qed

declare relr_bitmap.simps [simp del]
declare find_phdr_from.simps [simp del]

fun relr_loop :: "dynamic_info \<Rightarrow> usize \<Rightarrow> nat \<Rightarrow> usize \<Rightarrow> usize \<Rightarrow> memory \<Rightarrow> bool \<times> memory" where
  "relr_loop info bias 0 i reloc_addr mem = (True, mem)"
| "relr_loop info bias (Suc n) i reloc_addr mem =
     (let v = read_usize mem (bias + di_relr info + i * di_relrent info) in
      if v AND 1 = 0 then
        relr_loop info bias n (i + 1) (bias + v + 8) (relocate_word bias (bias + v) mem)
      else if reloc_addr = 0 then (False, mem)
      else relr_loop info bias n (i + 1) (reloc_addr + 8 * 63) (relr_bitmap bias (drop_bit 1 v) reloc_addr mem))"

definition apply_relr_relocations :: "dynamic_info \<Rightarrow> usize \<Rightarrow> memory \<Rightarrow> bool \<times> memory" where
  "apply_relr_relocations info bias mem =
     (if di_relrsz info = 0 then (True, mem)
      else if di_relr info = 0 \<or> di_relrent info < 8 then (False, mem)
      else if di_relrsz info mod di_relrent info \<noteq> 0 then (False, mem)
      else relr_loop info bias (unat (di_relrsz info div di_relrent info)) 0 0 mem)"

definition relocate_rtld_relative :: "elf_view \<Rightarrow> dynamic_info \<Rightarrow> usize \<Rightarrow> memory \<Rightarrow> bool \<times> memory" where
  "relocate_rtld_relative view info bias mem =
     (if di_has_needed info \<or> di_jmprel info \<noteq> 0 \<or> di_pltrelsz info \<noteq> 0 then (False, mem)
      else
        (case apply_relocations view (di_relocations info) bias mem of
           (True, mem) \<Rightarrow> apply_relr_relocations info bias mem
         | (False, mem) \<Rightarrow> (False, mem)))"

record rtld_elf_info =
  ri_phdr :: usize
  ri_phnum :: usize
  ri_entry :: usize

definition rtld_elf_info_of :: "elf_view \<Rightarrow> memory \<Rightarrow> usize \<Rightarrow> rtld_elf_info" where
  "rtld_elf_info_of view mem load_bias =
     (if load_bias = 0 then \<lparr>ri_phdr = 0, ri_phnum = 0, ri_entry = 0\<rparr>
      else
        (let ehdr = vw_ehdr view mem load_bias in
         if e_phentsize ehdr < vw_phdr_size view then \<lparr>ri_phdr = 0, ri_phnum = 0, ri_entry = 0\<rparr>
         else \<lparr>ri_phdr = load_bias + e_phoff ehdr, ri_phnum = e_phnum ehdr, ri_entry = load_bias + e_entry ehdr\<rparr>))"

section \<open>Reference decoding of RELR\<close>

text \<open>
  The addresses a RELR table stands for: an even entry is an address, an odd entry a bitmap
  over the 63 words that follow the last address. A bitmap without an address is malformed.
\<close>

fun relr_targets :: "usize \<Rightarrow> usize \<Rightarrow> usize list \<Rightarrow> usize list option" where
  "relr_targets bias addr [] = Some []"
| "relr_targets bias addr (v # vs) =
     (if \<not> bit v 0 then map_option (Cons (bias + v)) (relr_targets bias (bias + v + 8) vs)
      else if addr = 0 then None
      else map_option (append (map (\<lambda>i. addr + 8 * of_nat i) (filter (\<lambda>i. bit v (Suc i)) [0..<63])))
             (relr_targets bias (addr + 8 * 63) vs))"

lemma relocate_word_other: "apart a b \<Longrightarrow> read_usize (relocate_word bias a mem) b = read_usize mem b"
  by (simp add: relocate_word_def read_write_other)

lemma fold_relocate_other:
  "\<forall>t \<in> set ts. apart t b \<Longrightarrow> read_usize (fold (relocate_word bias) ts mem) b = read_usize mem b"
  by (induction ts arbitrary: mem) (simp_all add: relocate_word_other)

lemma fold_relocate_frame:
  "\<forall>t \<in> set ts. \<not> inside x t 8 \<Longrightarrow> fold (relocate_word bias) ts mem x = mem x"
  by (induction ts arbitrary: mem) (simp_all add: relocate_word_def write_frame)

lemma fold_relocate_reads:
  "sorted_wrt apart ts \<Longrightarrow> t \<in> set ts \<Longrightarrow>
   read_usize (fold (relocate_word bias) ts mem) t = bias + read_usize mem t"
proof (induction ts arbitrary: mem)
  case (Cons a ts)
  show ?case
  proof (cases "t = a")
    case True
    with Cons.prems have "\<forall>t' \<in> set ts. apart t' a" by (auto intro: apart_sym)
    with True show ?thesis by (simp add: fold_relocate_other) (simp add: relocate_word_def)
  next
    case False
    with Cons.prems have "apart a t" by auto
    with False Cons show ?thesis by (simp add: relocate_word_other)
  qed
qed simp

lemma bits_unfold:
  "map (\<lambda>i. dst + 8 * of_nat i) (filter (bit bm) [0..<64]) =
   (if bit bm 0 then [dst] else []) @
   map (\<lambda>i. dst + 8 + 8 * of_nat i) (filter (bit (drop_bit 1 bm)) [0..<64])" for bm :: usize
proof -
  have top: "[0..<64] = 0 # map Suc [0..<63]" "[0..<64] = [0..<63] @ [63]" by (simp_all add: upt_rec)
  have "\<not> bit (drop_bit 1 bm) 63" using bit_imp_le_length [of bm 64] by (auto simp: bit_drop_bit_eq)
  then have "filter (bit (drop_bit 1 bm)) [0..<64] = filter (\<lambda>i. bit bm (Suc i)) [0..<63]"
    unfolding top(2) by (simp add: bit_drop_bit_eq o_def)
  moreover have "filter (bit bm) (map Suc [0..<63]) = map Suc (filter (\<lambda>i. bit bm (Suc i)) [0..<63])"
    by (simp add: filter_map o_def)
  ultimately show ?thesis by (subst top(1)) (simp add: o_def algebra_simps)
qed

lemma relr_bitmap_fold:
  "relr_bitmap bias bm dst mem =
   fold (relocate_word bias) (map (\<lambda>i. dst + 8 * of_nat i) (filter (bit bm) [0..<64])) mem"
proof (induction bias bm dst mem rule: relr_bitmap.induct)
  case (1 bias bm dst mem)
  show ?case
  proof (cases "bm = 0")
    case False
    then show ?thesis using 1
      by (subst relr_bitmap.simps, subst bits_unfold) (simp add: and_one_eq bit_0 odd_iff_mod_2_eq_one)
  qed (simp add: relr_bitmap.simps)
qed

lemma relr_bitmap_targets:
  "relr_bitmap bias (drop_bit 1 v) dst mem =
   fold (relocate_word bias) (map (\<lambda>i. dst + 8 * of_nat i) (filter (\<lambda>i. bit v (Suc i)) [0..<63])) mem"
proof -
  have top: "[0..<64] = [0..<63] @ [63]" by (simp add: upt_rec)
  have "\<not> bit (drop_bit 1 v) 63" using bit_imp_le_length [of v 64] by (auto simp: bit_drop_bit_eq)
  then have "filter (bit (drop_bit 1 v)) [0..<64] = filter (\<lambda>i. bit v (Suc i)) [0..<63]"
    unfolding top by (simp add: bit_drop_bit_eq o_def)
  then show ?thesis by (simp only: relr_bitmap_fold)
qed

text \<open>The loop relocates the decoded addresses, in order, as long as none of them lies in the table.\<close>

lemma relr_loop_fold:
  defines "entry info bias i \<equiv> bias + di_relr info + of_nat i * di_relrent info"
  assumes "\<forall>j < length vs. read_usize mem (entry info bias (i + j)) = vs ! j"
    and "relr_targets bias addr vs = Some ts"
    and "\<forall>t \<in> set ts. \<forall>j < length vs. apart t (entry info bias (i + j))"
  shows "relr_loop info bias (length vs) (of_nat i) addr mem = (True, fold (relocate_word bias) ts mem)"
  using assms(2-)
proof (induction vs arbitrary: i addr mem ts)
  case (Cons v vs)
  have v: "read_usize mem (bias + di_relr info + of_nat i * di_relrent info) = v"
    using Cons.prems(1) by (auto simp: entry_def)
  have rest: "\<forall>t \<in> set xs. \<forall>j < length vs. apart t (entry info bias (Suc i + j))" if "set xs \<subseteq> set ts" for xs
    using Cons.prems(3) that by (metis Suc_less_eq add_Suc_shift length_Cons subset_iff)
  have tail: "\<forall>j < length vs. read_usize (fold (relocate_word bias) xs mem) (entry info bias (Suc i + j)) = vs ! j"
    if "set xs \<subseteq> set ts" for xs
  proof (intro allI impI)
    fix j assume "j < length vs"
    with Cons.prems(1) rest [of ts] have "read_usize mem (entry info bias (i + Suc j)) = vs ! j"
      "\<forall>t \<in> set ts. apart t (entry info bias (Suc i + j))" by auto
    with that show "read_usize (fold (relocate_word bias) xs mem) (entry info bias (Suc i + j)) = vs ! j"
      by (simp add: fold_relocate_other subset_iff)
  qed
  show ?case
  proof (cases "bit v 0")
    case False
    with Cons.prems(2) obtain ts' where ts: "ts = (bias + v) # ts'" "relr_targets bias (bias + v + 8) vs = Some ts'"
      by auto
    with Cons.IH [of "relocate_word bias (bias + v) mem" "Suc i" "bias + v + 8" ts'] tail [of "[bias + v]"] rest [of ts']
    have "relr_loop info bias (length vs) (of_nat (Suc i)) (bias + v + 8) (relocate_word bias (bias + v) mem) =
        (True, fold (relocate_word bias) ts mem)" by auto
    moreover have "v AND 1 = 0" using False by (simp add: and_one_eq bit_0 even_iff_mod_2_eq_zero)
    ultimately show ?thesis using v by (simp add: Let_def algebra_simps)
  next
    case True
    let ?xs = "map (\<lambda>i. addr + 8 * of_nat i) (filter (\<lambda>i. bit v (Suc i)) [0..<63])"
    from True Cons.prems(2) obtain ts' where ts: "ts = ?xs @ ts'" "addr \<noteq> 0"
      "relr_targets bias (addr + 8 * 63) vs = Some ts'"
      by (auto split: if_splits)
    with Cons.IH [of "fold (relocate_word bias) ?xs mem" "Suc i" "addr + 8 * 63" ts'] tail [of ?xs] rest [of ts']
    have "relr_loop info bias (length vs) (of_nat (Suc i)) (addr + 8 * 63) (fold (relocate_word bias) ?xs mem) =
        (True, fold (relocate_word bias) ts mem)" by auto
    moreover have "v AND 1 \<noteq> 0" using True by (simp add: and_one_eq bit_0 odd_iff_mod_2_eq_one)
    ultimately show ?thesis using v ts(2) by (simp add: relr_bitmap_targets [unfolded One_nat_def] Let_def algebra_simps)
  qed
qed simp

section \<open>Relocation entries\<close>

definition rel_at :: "elf_view \<Rightarrow> memory \<Rightarrow> usize \<Rightarrow> nat \<Rightarrow> elf_rel" where
  "rel_at view mem p i = vw_rel view mem (p + of_nat i * vw_rel_size view)"

definition rel_writes :: "elf_view \<Rightarrow> usize \<Rightarrow> elf_rel list \<Rightarrow> (usize \<times> usize) list" where
  "rel_writes view bias rels = map (\<lambda>rel. (bias + r_offset rel, bias + r_addend rel bias))
     (filter (\<lambda>rel. r_type rel = vw_relative view) rels)"

text \<open>
  What the loop relies on of the parameter: reading a relocation entry depends on the bytes of
  the entry only.
\<close>

locale elf_layout =
  fixes view :: elf_view
  assumes rel_frame: "(\<And>x. inside x a (unat (vw_rel_size view)) \<Longrightarrow> mem' x = mem x) \<Longrightarrow> vw_rel view mem' a = vw_rel view mem a"
    and none_not_relative: "vw_none view \<noteq> vw_relative view"
begin

lemma rel_at_Suc: "rel_at view mem p (Suc i) = rel_at view mem (p + vw_rel_size view) i"
  by (simp add: rel_at_def algebra_simps)

lemma rels_Suc:
  "map (rel_at view mem p) [0..<Suc n] = vw_rel view mem p # map (rel_at view mem (p + vw_rel_size view)) [0..<n]"
proof -
  have "[0..<Suc n] = 0 # map Suc [0..<n]" by (simp add: map_Suc_upt upt_conv_Cons)
  then show ?thesis by (simp only: list.map map_map o_def rel_at_Suc) (simp add: rel_at_def)
qed

lemma rel_at_write:
  assumes "\<forall>x. inside x a 8 \<longrightarrow> \<not> inside x p (n * unat (vw_rel_size view))" "i < n"
  shows "rel_at view (write_usize a v mem) p i = rel_at view mem p i"
  unfolding rel_at_def
proof (rule rel_frame, rule write_frame)
  fix x assume "inside x (p + of_nat i * vw_rel_size view) (unat (vw_rel_size view))"
  moreover have "i * unat (vw_rel_size view) + unat (vw_rel_size view) \<le> n * unat (vw_rel_size view)"
    using assms(2) by (metis Suc_leI add.commute mult_Suc mult_le_mono1)
  ultimately show "\<not> inside x a 8"
    using assms(1) inside_mono [of x p "i * unat (vw_rel_size view)" "unat (vw_rel_size view)"] by auto
qed

lemma relocation_loop_writes:
  assumes "\<forall>i < n. r_type (rel_at view mem p i) \<in> {vw_none view, vw_relative view}"
    and "\<forall>(a, v) \<in> set (rel_writes view bias (map (rel_at view mem p) [0..<n])). \<forall>x. inside x a 8 \<longrightarrow> \<not> inside x p (n * unat (vw_rel_size view))"
  shows "relocation_loop view bias n p mem =
    (True, fold (\<lambda>(a, v). write_usize a v) (rel_writes view bias (map (rel_at view mem p) [0..<n])) mem)"
  using assms
proof (induction n arbitrary: p mem)
  case (Suc n)
  let ?rel = "vw_rel view mem p" and ?p = "p + vw_rel_size view"
  have mono: "inside x ?p (n * unat (vw_rel_size view)) \<Longrightarrow> inside x p (Suc n * unat (vw_rel_size view))" for x
    using inside_mono [of x p "unat (vw_rel_size view)" "n * unat (vw_rel_size view)"] by simp
  have types: "\<forall>i < n. r_type (rel_at view mem ?p i) \<in> {vw_none view, vw_relative view}"
    using Suc.prems(1) by (auto simp flip: rel_at_Suc)
  have ty: "r_type ?rel \<in> {vw_none view, vw_relative view}"
    using Suc.prems(1) by (force simp: rel_at_def)
  note w = Suc.prems(2) [unfolded rels_Suc]
  have "set (rel_writes view bias (map (rel_at view mem ?p) [0..<n])) \<subseteq> set (rel_writes view bias (?rel # map (rel_at view mem ?p) [0..<n]))"
    by (auto simp: rel_writes_def)
  with w mono have tail: "\<forall>(a, v) \<in> set (rel_writes view bias (map (rel_at view mem ?p) [0..<n])).
      \<forall>x. inside x a 8 \<longrightarrow> \<not> inside x ?p (n * unat (vw_rel_size view))" by blast
  show ?case
  proof (cases "r_type ?rel = vw_relative view")
    case True
    let ?a = "bias + r_offset ?rel" and ?v = "bias + r_addend ?rel bias"
    have far: "\<forall>x. inside x ?a 8 \<longrightarrow> \<not> inside x ?p (n * unat (vw_rel_size view))"
      using w True mono by (auto simp: rel_writes_def)
    have same: "map (rel_at view (write_usize ?a ?v mem) ?p) [0..<n] = map (rel_at view mem ?p) [0..<n]"
      using rel_at_write [OF far] by simp
    have "relocation_loop view bias n ?p (write_usize ?a ?v mem) =
        (True, fold (\<lambda>(a, v). write_usize a v) (rel_writes view bias (map (rel_at view mem ?p) [0..<n])) (write_usize ?a ?v mem))"
      unfolding same [symmetric]
    proof (rule Suc.IH)
      show "\<forall>i < n. r_type (rel_at view (write_usize ?a ?v mem) ?p i) \<in> {vw_none view, vw_relative view}"
        using types rel_at_write [OF far] by simp
    qed (use tail in \<open>simp only: same\<close>)
    with True none_not_relative show ?thesis
      unfolding rels_Suc by (simp add: rel_writes_def Let_def add_signed_def)
  next
    case False
    have "relocation_loop view bias n ?p mem =
        (True, fold (\<lambda>(a, v). write_usize a v) (rel_writes view bias (map (rel_at view mem ?p) [0..<n])) mem)"
      by (rule Suc.IH [OF types tail])
    with False ty show ?thesis unfolding rels_Suc by (auto simp: rel_writes_def Let_def)
  qed
qed (simp add: rel_writes_def)

end

text \<open>The layout of ELF64 and the relocation types of x86-64.\<close>

definition elf64 :: elf_view where
  "elf64 = \<lparr>
     vw_phdr_size = 56,
     vw_phdr = (\<lambda>mem a. \<lparr>ph_type = ucast (load_le 4 mem a), ph_offset = read_usize mem (a + 8),
       ph_vaddr = read_usize mem (a + 16), ph_memsz = read_usize mem (a + 40)\<rparr>),
     vw_dyn_size = 16,
     vw_dyn = (\<lambda>mem a. (read_usize mem a, read_usize mem (a + 8))),
     vw_rel_size = 24,
     vw_rel = (\<lambda>mem a. \<lparr>r_type = ucast (read_usize mem (a + 8)), r_offset = read_usize mem a,
       r_addend = (\<lambda>base. read_usize mem (a + 16))\<rparr>),
     vw_ehdr = (\<lambda>mem a. \<lparr>e_phentsize = load_le 2 mem (a + 54), e_phoff = read_usize mem (a + 32),
       e_phnum = load_le 2 mem (a + 56), e_entry = read_usize mem (a + 24)\<rparr>),
     vw_none = 0, vw_relative = 8\<rparr>"

interpretation e64: elf_layout elf64
proof
  fix a and mem' mem :: memory
  assume same: "\<And>x. inside x a (unat (vw_rel_size elf64)) \<Longrightarrow> mem' x = mem x"
  have "read_usize mem' (a + of_nat k) = read_usize mem (a + of_nat k)" if "k + 8 \<le> 24" for k
    using inside_mono [of _ a k 8 24] that by (intro read_frame same) (simp add: elf64_def)
  from this [of 0] this [of 8] this [of 16] show "vw_rel elf64 mem' a = vw_rel elf64 mem a"
    by (simp add: elf64_def)
qed (simp add: elf64_def)

lemma fold_write_other:
  "\<forall>(a, v) \<in> set ws. apart a b \<Longrightarrow> read_usize (fold (\<lambda>(a, v). write_usize a v) ws mem) b = read_usize mem b"
  by (induction ws arbitrary: mem) (auto simp: read_write_other)

lemma fold_write_reads:
  "sorted_wrt (\<lambda>(a, v) (b, w). apart a b) ws \<Longrightarrow> (a, v) \<in> set ws \<Longrightarrow>
   read_usize (fold (\<lambda>(a, v). write_usize a v) ws mem) a = v"
proof (induction ws arbitrary: mem)
  case (Cons w ws)
  show ?case
  proof (cases "(a, v) = w")
    case True
    with Cons.prems(1) have "\<forall>(b, v) \<in> set ws. apart b a" by (auto intro: apart_sym)
    with True show ?thesis by (auto simp: fold_write_other)
  qed (use Cons in auto)
qed simp

lemma fold_write_frame:
  "\<forall>(a, v) \<in> set ws. \<not> inside x a 8 \<Longrightarrow> fold (\<lambda>(a, v). write_usize a v) ws mem x = mem x"
  by (induction ws arbitrary: mem) (auto simp: write_frame)

section \<open>Properties\<close>

text \<open>
  C16. Applying the packed relative relocations of the dynamic linker adds the load bias to
  exactly the words the RELR table stands for, each once, and to nothing else, as long as these
  words neither overlap each other nor the table.
\<close>

theorem apply_relr_relocates:
  assumes table: "di_relr info \<noteq> 0" "8 \<le> di_relrent info" "di_relrsz info mod di_relrent info = 0"
      "unat (di_relrsz info div di_relrent info) = length vs"
    and entries: "\<forall>i < length vs. read_usize mem (bias + di_relr info + of_nat i * di_relrent info) = vs ! i"
    and targets: "relr_targets bias 0 vs = Some ts" "sorted_wrt apart ts"
      "\<forall>t \<in> set ts. \<forall>i < length vs. apart t (bias + di_relr info + of_nat i * di_relrent info)"
  shows "\<exists>mem'. apply_relr_relocations info bias mem = (True, mem') \<and>
    (\<forall>t \<in> set ts. read_usize mem' t = bias + read_usize mem t) \<and>
    (\<forall>x. (\<forall>t \<in> set ts. \<not> inside x t 8) \<longrightarrow> mem' x = mem x)"
proof (cases "di_relrsz info = 0")
  case True
  with table(4) targets(1) show ?thesis by (simp add: apply_relr_relocations_def)
next
  case False
  have "relr_loop info bias (length vs) 0 0 mem = (True, fold (relocate_word bias) ts mem)"
    using relr_loop_fold [of vs mem bias info 0 0 ts] entries targets(1,3) by simp
  with False table have "apply_relr_relocations info bias mem = (True, fold (relocate_word bias) ts mem)"
    by (simp add: apply_relr_relocations_def not_less)
  with targets(2) show ?thesis by (auto simp: fold_relocate_reads fold_relocate_frame)
qed

definition ex_relr_info :: dynamic_info where
  "ex_relr_info = (dynamic_info_empty elf64)\<lparr>di_relr := 0x100, di_relrsz := 16\<rparr>"

definition ex_relr_mem :: memory where
  "ex_relr_mem = store_words 0x10100 [0x200, 7] (\<lambda>a. 0)"

theorem apply_relr_relocates_witness:
  "\<exists>mem'. apply_relr_relocations ex_relr_info 0x10000 ex_relr_mem = (True, mem') \<and>
     (\<forall>t \<in> {0x10200, 0x10208, 0x10210}. read_usize mem' t = 0x10000 + read_usize ex_relr_mem t)"
proof -
  have info: "di_relr ex_relr_info = 0x100" "di_relrent ex_relr_info = 8" "di_relrsz ex_relr_info = 16"
    by (simp_all add: ex_relr_info_def dynamic_info_empty_def)
  have "words_at ex_relr_mem 0x10100 [0x200, 7]" unfolding ex_relr_mem_def by (rule store_words_at) simp
  then have "\<forall>i < length [0x200, 7]. read_usize ex_relr_mem (0x10000 + di_relr ex_relr_info + of_nat i * di_relrent ex_relr_info) =
      [0x200, 7] ! i"
    by (simp add: info All_less_Suc2)
  moreover have "relr_targets 0x10000 0 [0x200, 7] = Some [0x10200, 0x10208, 0x10210]" by code_simp
  moreover have "sorted_wrt apart [0x10200, 0x10208, 0x10210]" by (simp add: apart_def)
  moreover have "\<forall>t \<in> set [0x10200, 0x10208, 0x10210]. \<forall>i < length [0x200 :: usize, 7].
      apart t (0x10000 + di_relr ex_relr_info + of_nat i * di_relrent ex_relr_info)"
    by (simp add: apart_def info All_less_Suc2)
  ultimately show ?thesis
    using apply_relr_relocates [of ex_relr_info "[0x200, 7]" ex_relr_mem "0x10000" "[0x10200, 0x10208, 0x10210]"]
    by (simp add: info) blast
qed

text \<open>
  Applying the ordinary relocations of the dynamic linker succeeds when they are all
  relative (or empty): every target holds the load bias plus the addend of its entry, and
  nothing else changes, as long as the targets neither overlap each other nor the table.
\<close>

theorem apply_relocations_relative:
  assumes "elf_layout view"
    and table: "rt_offset table \<noteq> 0" "rt_entry_size table = vw_rel_size view" "rt_size table mod rt_entry_size table = 0"
    and rels: "rels = map (\<lambda>i. vw_rel view mem (bias + rt_offset table + of_nat i * vw_rel_size view))
      [0..<unat (rt_size table div rt_entry_size table)]"
    and types: "\<forall>rel \<in> set rels. r_type rel \<in> {vw_none view, vw_relative view}"
    and targets: "ts = map (\<lambda>rel. (bias + r_offset rel, bias + r_addend rel bias)) (filter (\<lambda>rel. r_type rel = vw_relative view) rels)"
      "sorted_wrt (\<lambda>(a, v) (b, w). apart a b) ts"
      "\<forall>(a, v) \<in> set ts. \<forall>x. inside x a 8 \<longrightarrow>
         \<not> inside x (bias + rt_offset table) (unat (rt_size table div rt_entry_size table) * unat (vw_rel_size view))"
  shows "\<exists>mem'. apply_relocations view table bias mem = (True, mem') \<and>
    (\<forall>(a, v) \<in> set ts. read_usize mem' a = v) \<and>
    (\<forall>x. (\<forall>(a, v) \<in> set ts. \<not> inside x a 8) \<longrightarrow> mem' x = mem x)"
proof (cases "rt_size table = 0")
  case True
  with rels targets(1) show ?thesis by (simp add: apply_relocations_def)
next
  case False
  let ?n = "unat (rt_size table div rt_entry_size table)" and ?p = "bias + rt_offset table"
  have ts: "rel_writes view bias (map (rel_at view mem ?p) [0..<?n]) = ts"
    by (simp add: targets(1) rels rel_writes_def rel_at_def [abs_def])
  have "relocation_loop view bias ?n ?p mem = (True, fold (\<lambda>(a, v). write_usize a v) ts mem)"
    using elf_layout.relocation_loop_writes [OF assms(1), of ?n mem ?p bias] types targets(3)
    by (simp add: ts rels rel_at_def)
  with False table have "apply_relocations view table bias mem = (True, fold (\<lambda>(a, v). write_usize a v) ts mem)"
    by (simp add: apply_relocations_def)
  with targets(2) show ?thesis by (auto simp: fold_write_reads fold_write_frame)
qed

definition ex_rela_mem :: memory where
  "ex_rela_mem = store_words 0x10100 [0x300, 8, 0x20] (\<lambda>a. 0)"

theorem apply_relocations_relative_witness:
  "\<exists>mem'. apply_relocations elf64 \<lparr>rt_offset = 0x100, rt_size = 24, rt_entry_size = 24\<rparr> 0x10000 ex_rela_mem = (True, mem') \<and>
     read_usize mem' 0x10300 = 0x10020"
proof -
  have "words_at ex_rela_mem 0x10100 [0x300, 8, 0x20]" unfolding ex_rela_mem_def by (rule store_words_at) simp
  then have rel: "vw_rel elf64 ex_rela_mem 0x10100 = \<lparr>r_type = 8, r_offset = 0x300, r_addend = (\<lambda>base. 0x20)\<rparr>"
    by (simp add: elf64_def)
  have size: "vw_rel_size elf64 = 24" "vw_relative elf64 = 8" "vw_none elf64 = 0" by (simp_all add: elf64_def)
  have "\<not> inside x 0x10100 24" if "inside x 0x10300 8" for x
    using that inside_mono [of x "0x10100" 0 24 512] before_disjoint [of x "0x10100" 512 8] by auto
  then show ?thesis
    using apply_relocations_relative [OF e64.elf_layout_axioms, where
        table = "\<lparr>rt_offset = 0x100, rt_size = 24, rt_entry_size = 24\<rparr>" and bias = "0x10000" and mem = ex_rela_mem,
        OF _ _ _ refl _ refl]
    by (simp add: size rel) blast
qed

text \<open>
  Reading a dynamic section ends after at most 4096 entries: it yields the facts of the
  entries up to the terminator, in order, and refuses a section without a terminator among
  them.
\<close>

theorem dynamic_info_parse_bounded:
  "dynamic_info_parse view mem p =
     (if p = 0 then Some (dynamic_info_empty view)
      else
        (let entries = map (\<lambda>i. vw_dyn view mem (p + of_nat i * vw_dyn_size view)) [0..<4096] in
         if DT_NULL \<in> fst ` set entries
         then Some (fold (\<lambda>(tag, v). set_dynamic tag v) (takeWhile (\<lambda>(tag, v). tag \<noteq> DT_NULL) entries)
                      (dynamic_info_empty view))
         else None))"
proof -
  have "dynamic_loop view mem n p info =
    (let entries = map (\<lambda>i. vw_dyn view mem (p + of_nat i * vw_dyn_size view)) [0..<n] in
     if DT_NULL \<in> fst ` set entries
     then Some (fold (\<lambda>(tag, v). set_dynamic tag v) (takeWhile (\<lambda>(tag, v). tag \<noteq> DT_NULL) entries) info)
     else None)" for n info
  proof (induction n arbitrary: p info)
    case (Suc n)
    have upt: "[0..<Suc n] = 0 # map Suc [0..<n]" by (simp add: map_Suc_upt upt_conv_Cons)
    have shift: "map (\<lambda>i. vw_dyn view mem (p + of_nat i * vw_dyn_size view)) [0..<Suc n] =
        vw_dyn view mem p # map (\<lambda>i. vw_dyn view mem (p + vw_dyn_size view + of_nat i * vw_dyn_size view)) [0..<n]"
      unfolding upt by (simp add: algebra_simps o_def)
    show ?case
      unfolding shift using Suc by (cases "vw_dyn view mem p") (auto simp: Let_def)
  qed simp
  then show ?thesis by (simp only: dynamic_info_parse_def)
qed

end
