(* ===== verification/Stage1.thy ===== *)
theory Stage1
  imports Dlopen_Spec Static_Tls Startup_Stack Rtld_Relocate Mem_Functions
begin

text \<open>
  \<open>src/rtld.rs\<close>, \<open>stage1\<close>: the replacement dynamic linker registers itself, loads the program
  (mapped by the kernel, or named on the command line), opens it as the root of a link, copies
  the thread-local storage images again and runs the two hooks of the C library.

  Parameters (record \<open>stage1_env\<close>): mapping files and reading mapped images is done by
  \<open>elf_loader\<close> (\<open>se_load_mapped\<close>, \<open>se_load_exec\<close>), whose calls back into the crate change the
  list of the debugger; what linking the dependencies does to that list and to the static TLS
  area is \<open>se_linked\<close>; symbols of a library are found by \<open>se_symbol\<close>; \<open>se_call\<close> is the effect
  of a function of the C library on memory. The memory is the one of the TLS state. \<open>None\<close> is
  a run that does not end or needs more fuel.
\<close>

section \<open>State\<close>

datatype bootstrap_mode = KernelMappedMain | DirectExec

record bootstrap_object =
  bo_load_bias :: usize
  bo_dynamic :: usize
  bo_phdr :: usize
  bo_phnum :: usize
  bo_entry :: usize

definition bootstrap_object_zero :: bootstrap_object where
  "bootstrap_object_zero = \<lparr>bo_load_bias = 0, bo_dynamic = 0, bo_phdr = 0, bo_phnum = 0, bo_entry = 0\<rparr>"

record bootstrap_state =
  bt_argc :: usize
  bt_argv :: usize
  bt_envp :: usize
  bt_auxv :: usize
  bt_mode :: bootstrap_mode
  bt_exec_path :: usize
  bt_main :: bootstrap_object
  bt_rtld :: bootstrap_object

definition bootstrap_state_zero :: bootstrap_state where
  "bootstrap_state_zero = \<lparr>bt_argc = 0, bt_argv = 0, bt_envp = 0, bt_auxv = 0, bt_mode = KernelMappedMain,
     bt_exec_path = 0, bt_main = bootstrap_object_zero, bt_rtld = bootstrap_object_zero\<rparr>"

text \<open>A loaded program: its program headers (address and number) and, unless static, its image.\<close>

record raw_exec =
  rx_dynamic :: "raw_dylib option"
  rx_phdrs :: "(usize \<times> usize) option"
  rx_entry :: usize

record 'c stage1_state =
  s1_argc :: usize
  s1_argv :: usize
  s1_envp :: usize
  s1_manager :: "'c manager"
  s1_debug :: custom_debug
  s1_tls :: tls_state
  s1_hooks :: "(usize \<times> usize option) list"

record ('c, 'i, 'l) stage1_env =
  se_world :: "('c, 'i) world"
  se_linker :: "('c, 'i, 'l) linker"
  se_view :: elf_view
  se_load_mapped :: "string \<Rightarrow> usize \<Rightarrow> elf_phdr list \<Rightarrow> usize \<Rightarrow> custom_debug \<Rightarrow> (elf_error, raw_dylib) res \<times> custom_debug"
  se_load_exec :: "string \<Rightarrow> custom_debug \<Rightarrow> (elf_error, raw_exec) res \<times> custom_debug"
  se_core :: "raw_dylib \<Rightarrow> dylib"
  se_linked :: "raw_dylib \<Rightarrow> custom_debug \<times> tls_state \<Rightarrow> custom_debug \<times> tls_state"
  se_refcount :: "'c manager \<Rightarrow> dylib list \<Rightarrow> dylib \<Rightarrow> nat"
  se_symbol :: "dylib \<Rightarrow> string \<Rightarrow> usize option"
  se_call :: "usize \<Rightarrow> usize option \<Rightarrow> memory \<Rightarrow> memory"

type_synonym ('c, 'a) stage1_action = "'c stage1_state \<Rightarrow> ((error, 'a) res \<times> 'c stage1_state) option"

definition s1_seq :: "('c, 'a) stage1_action \<Rightarrow> ('a \<Rightarrow> ('c, 'b) stage1_action) \<Rightarrow> ('c, 'b) stage1_action" where
  "s1_seq p f s =
     (case p s of
        None \<Rightarrow> None
      | Some (Ok a, s') \<Rightarrow> f a s'
      | Some (Err e, s') \<Rightarrow> Some (Err e, s')
      | Some (Panic m, s') \<Rightarrow> Some (Panic m, s'))"

definition s1_mem :: "'c stage1_state \<Rightarrow> memory" where
  "s1_mem s = ts_mem (s1_tls s)"

definition set_s1_mem :: "memory \<Rightarrow> 'c stage1_state \<Rightarrow> 'c stage1_state" where
  "set_s1_mem mem s = s\<lparr>s1_tls := (s1_tls s)\<lparr>ts_mem := mem\<rparr>\<rparr>"

definition RTLD_NAME :: string where "RTLD_NAME = ''ld-linux-x86-64.so.2''"

section \<open>Steps\<close>

text \<open>The conversion of an error of the loader.\<close>

definition loader_result :: "(elf_error, 'a) res \<times> custom_debug \<Rightarrow> ('c, 'a) stage1_action" where
  "loader_result rd s =
     Some (case fst rd of Ok a \<Rightarrow> Ok a | Err e \<Rightarrow> Err (LoaderError e) | Panic p \<Rightarrow> Panic p, s\<lparr>s1_debug := snd rd\<rparr>)"

definition load_borrowed ::
  "('c, 'i, 'l) stage1_env \<Rightarrow> string \<Rightarrow> bootstrap_object \<Rightarrow> ('c, raw_dylib) stage1_action" where
  "load_borrowed env name obj s =
     (if bo_phdr obj = 0 \<or> bo_phnum obj = 0
      then Some (Err (find_lib_error ''bootstrap object is missing program headers''), s)
      else
        (let phdrs = read_phdrs (se_view env) (s1_mem s) (bo_phdr obj) (bo_phnum obj)
         in loader_result (se_load_mapped env name (bo_load_bias obj) phdrs (bo_entry obj) (s1_debug s)) s))"

definition s1_register_loaded :: "('c, 'i, 'l) stage1_env \<Rightarrow> dylib \<Rightarrow> open_flags \<Rightarrow> ('c, unit) stage1_action" where
  "s1_register_loaded env lib flags s =
     Some (case register_loaded (w_ops (se_world env)) lib flags (s1_manager s) of
             Ok m \<Rightarrow> (Ok (), s\<lparr>s1_manager := m\<rparr>)
           | Err e \<Rightarrow> (Err e, s)
           | Panic p \<Rightarrow> (Panic p, s))"

definition register_rtld :: "('c, 'i, 'l) stage1_env \<Rightarrow> bootstrap_state \<Rightarrow> ('c, unit) stage1_action" where
  "register_rtld env state =
     s1_seq (load_borrowed env RTLD_NAME (bt_rtld state)) (\<lambda>rtld.
     s1_register_loaded env (se_core env rtld) (RTLD_GLOBAL OR RTLD_NODELETE))"

definition set_args :: "bootstrap_state \<Rightarrow> 'c stage1_state \<Rightarrow> 'c stage1_state" where
  "set_args state s = s\<lparr>s1_argc := bt_argc state, s1_argv := bt_argv state, s1_envp := bt_envp state\<rparr>"

definition s1_refresh_static_tls :: "('c, unit) stage1_action" where
  "s1_refresh_static_tls s =
     (case refresh_static_tls (s1_tls s) of
        (Panic p, t) \<Rightarrow> Some (Panic p, s\<lparr>s1_tls := t\<rparr>)
      | (_, t) \<Rightarrow> Some (Ok (), s\<lparr>s1_tls := t\<rparr>))"

definition find_loaded_symbol :: "('c, 'i, 'l) stage1_env \<Rightarrow> string \<Rightarrow> 'c manager \<Rightarrow> usize option" where
  "find_loaded_symbol env name m =
     (case List.find (\<lambda>lib. se_symbol env lib name \<noteq> None) (all_values (w_ops (se_world env)) m) of
        None \<Rightarrow> None
      | Some lib \<Rightarrow> se_symbol env lib name)"

definition call_hook :: "('c, 'i, 'l) stage1_env \<Rightarrow> string \<Rightarrow> usize option \<Rightarrow> 'c stage1_state \<Rightarrow> 'c stage1_state" where
  "call_hook env name arg s =
     (case find_loaded_symbol env name (s1_manager s) of
        None \<Rightarrow> s
      | Some f \<Rightarrow> set_s1_mem (se_call env f arg (s1_mem s)) (s\<lparr>s1_hooks := s1_hooks s @ [(f, arg)]\<rparr>))"

definition call_libc_early_init :: "('c, 'i, 'l) stage1_env \<Rightarrow> 'c stage1_state \<Rightarrow> 'c stage1_state" where
  "call_libc_early_init env = call_hook env ''__libc_early_init'' (Some 1)"

definition call_libc_ctype_init :: "('c, 'i, 'l) stage1_env \<Rightarrow> 'c stage1_state \<Rightarrow> 'c stage1_state" where
  "call_libc_ctype_init env = call_hook env ''__ctype_init'' None"

definition run_glibc_startup_hooks :: "('c, 'i, 'l) stage1_env \<Rightarrow> ('c, unit) stage1_action" where
  "run_glibc_startup_hooks env s = Some (Ok (), call_libc_ctype_init env (call_libc_early_init env s))"

text \<open>\<open>drop(handle)\<close>: the finalisers of removed libraries are those of \<open>Drop for ElfLibrary\<close>.\<close>

definition drop_handle :: "('c, 'i, 'l) stage1_env \<Rightarrow> elf_library \<Rightarrow> ('c, unit) stage1_action" where
  "drop_handle env h s =
     Some (case drop_elf_library (w_ops (se_world env)) (se_refcount env) h (s1_manager s) of
             Ok (m, removed) \<Rightarrow> (Ok (), s\<lparr>s1_manager := m\<rparr>)
           | Err e \<Rightarrow> (Err e, s)
           | Panic p \<Rightarrow> (Panic p, s))"

definition s1_open_root ::
  "nat \<Rightarrow> nat \<Rightarrow> nat \<Rightarrow> ('c, 'i, 'l) stage1_env \<Rightarrow> string \<Rightarrow> raw_dylib \<Rightarrow> ('c, elf_library) stage1_action" where
  "s1_open_root k n t env root_request raw s =
     map_option (\<lambda>(r, s').
         (let (dbg, tls) = se_linked env raw (s1_debug s, s1_tls s)
          in (r, s\<lparr>s1_manager := os_manager s', s1_debug := dbg, s1_tls := tls\<rparr>)))
       (dlopen_mapped_root k n (se_world env) (se_linker env) t root_request (rw_name raw)
         (RTLD_GLOBAL OR RTLD_NOW OR RTLD_NODELETE) (s1_manager s))"

definition start_root ::
  "nat \<Rightarrow> nat \<Rightarrow> nat \<Rightarrow> ('c, 'i, 'l) stage1_env \<Rightarrow> string \<Rightarrow> raw_dylib \<Rightarrow> usize \<Rightarrow> ('c, usize) stage1_action" where
  "start_root k n t env root_request raw entry =
     s1_seq (s1_open_root k n t env root_request raw) (\<lambda>handle.
     s1_seq s1_refresh_static_tls (\<lambda>_.
     s1_seq (run_glibc_startup_hooks env) (\<lambda>_.
     s1_seq (drop_handle env handle) (\<lambda>_ s.
       Some (Ok entry, s)))))"

definition root_request_of :: "memory \<Rightarrow> usize \<Rightarrow> string option" where
  "root_request_of mem exec_path =
     (if exec_path = 0 then Some []
      else map_option (\<lambda>bytes. case from_utf8 bytes of Some s \<Rightarrow> s | None \<Rightarrow> []) (cstr_bytes mem exec_path))"

definition prepare_kernel_mapped_main ::
  "nat \<Rightarrow> nat \<Rightarrow> nat \<Rightarrow> ('c, 'i, 'l) stage1_env \<Rightarrow> bootstrap_state \<Rightarrow> ('c, usize) stage1_action" where
  "prepare_kernel_mapped_main k n t env state s =
     s1_seq (register_rtld env state) (\<lambda>_.
     s1_seq (load_borrowed env [] (bt_main state)) (\<lambda>main s.
       case root_request_of (s1_mem s) (bt_exec_path state) of
         None \<Rightarrow> None
       | Some root_request \<Rightarrow> start_root k n t env root_request main (rw_entry main) s)) (set_args state s)"

definition s1_patch_auxv :: "('c, 'i, 'l) stage1_env \<Rightarrow> bootstrap_state \<Rightarrow> raw_exec \<Rightarrow> ('c, unit) stage1_action" where
  "s1_patch_auxv env state exec s =
     (let (phdr, phnum) = (case rx_phdrs exec of Some p \<Rightarrow> p | None \<Rightarrow> (0, 0));
          ev = \<lparr>ev_phdr = phdr, ev_phent = vw_phdr_size (se_view env), ev_phnum = phnum,
                ev_base = bo_load_bias (bt_rtld state), ev_entry = rx_entry exec, ev_exec_path = bt_exec_path state\<rparr>
      in map_option (\<lambda>mem. (Ok (), set_s1_mem mem s)) (patch_exec_auxv ev (bt_auxv state) (s1_mem s)))"

definition prepare_direct_exec ::
  "nat \<Rightarrow> nat \<Rightarrow> nat \<Rightarrow> ('c, 'i, 'l) stage1_env \<Rightarrow> bootstrap_state \<Rightarrow> ('c, usize) stage1_action" where
  "prepare_direct_exec k n t env state s =
     (let s = set_args state s in
      case cstr_bytes (s1_mem s) (bt_exec_path state) of
        None \<Rightarrow> None
      | Some bytes \<Rightarrow>
          (case from_utf8 bytes of
             None \<Rightarrow> Some (Err (find_lib_error ''direct exec path is not utf-8''), s)
           | Some exec_path \<Rightarrow>
               s1_seq (register_rtld env state) (\<lambda>_.
               s1_seq (\<lambda>s. loader_result (se_load_exec env exec_path (s1_debug s)) s) (\<lambda>exec.
               s1_seq (s1_patch_auxv env state exec) (\<lambda>_.
                 case rx_dynamic exec of
                   Some dynamic \<Rightarrow> start_root k n t env exec_path dynamic (rx_entry exec)
                 | None \<Rightarrow> (\<lambda>s. Some (Ok (rx_entry exec), s))))) s))"

definition stage1 ::
  "nat \<Rightarrow> nat \<Rightarrow> nat \<Rightarrow> ('c, 'i, 'l) stage1_env \<Rightarrow> bootstrap_state \<Rightarrow> ('c, usize) stage1_action" where
  "stage1 k n t env state =
     (if bt_mode state = DirectExec then prepare_direct_exec k n t env state
      else prepare_kernel_mapped_main k n t env state)"

section \<open>The registry during start-up\<close>

lemma s1_seq_cases:
  assumes "s1_seq p f s = Some (r, s')"
  obtains (step) a s1 where "p s = Some (Ok a, s1)" "f a s1 = Some (r, s')"
    | (stop) r1 where "p s = Some (r1, s')" "\<not> is_Ok r1" "\<not> is_Ok r"
  using assms by (auto simp: s1_seq_def split: option.splits res.splits)

text \<open>A property of the registry that an action keeps, however it ends.\<close>

definition maintains :: "('c manager \<Rightarrow> bool) \<Rightarrow> ('c, 'a) stage1_action \<Rightarrow> bool" where
  "maintains P p \<longleftrightarrow> (\<forall>s r s'. P (s1_manager s) \<longrightarrow> p s = Some (r, s') \<longrightarrow> P (s1_manager s'))"

lemma maintainsD: "maintains P p \<Longrightarrow> p s = Some (r, s') \<Longrightarrow> P (s1_manager s) \<Longrightarrow> P (s1_manager s')"
  by (simp add: maintains_def)

lemma maintains_seq:
  assumes "maintains P p" "\<And>a. maintains P (f a)"
  shows "maintains P (s1_seq p f)"
  unfolding maintains_def
proof (intro allI impI)
  fix s r s' assume s: "P (s1_manager s)" and "s1_seq p f s = Some (r, s')"
  from this(2) show "P (s1_manager s')"
  proof (cases rule: s1_seq_cases)
    case (step a s1)
    from maintainsD [OF assms(1) step(1) s] maintainsD [OF assms(2) step(2)] show ?thesis by blast
  qed (use maintainsD [OF assms(1) _ s] in blast)
qed

lemma maintains_ret: "maintains P (\<lambda>s. Some (r, s))"
  by (simp add: maintains_def)

lemma quiet_steps:
  "maintains P (load_borrowed env name obj)"
  "maintains P s1_refresh_static_tls"
  "maintains P (run_glibc_startup_hooks env)"
  "maintains P (s1_patch_auxv env state exec)"
  "maintains P (\<lambda>s. loader_result (f s) s)"
  by (auto simp: maintains_def load_borrowed_def loader_result_def s1_refresh_static_tls_def run_glibc_startup_hooks_def
      call_libc_early_init_def call_libc_ctype_init_def call_hook_def set_s1_mem_def s1_patch_auxv_def Let_def
      split: res.splits prod.splits option.splits if_splits)

locale startup =
  fixes env :: "('c, 'i, 'l) stage1_env" and ok :: "'c \<Rightarrow> bool" and planned :: "'l \<Rightarrow> bool"
  assumes ctx: "link_context (w_ops (se_world env)) ok"
    and others: "fair_others (w_ops (se_world env)) ok (w_others (se_world env))"
    and files: "env_ok (w_env (se_world env))"
    and linker: "linker_ok (w_ops (se_world env)) ok planned (se_linker env)" "linker_roots (w_ops (se_world env)) (se_linker env)"
begin

abbreviation sound :: "'c manager \<Rightarrow> bool" where
  "sound \<equiv> manager_inv (w_ops (se_world env)) ok"

lemma open_root_sound: "maintains sound (s1_open_root k n t env request raw)"
  unfolding maintains_def
proof (intro allI impI)
  fix s r s' assume s: "sound (s1_manager s)" and open_root: "s1_open_root k n t env request raw s = Some (r, s')"
  have call: "linking_call (se_world env) ok (holds (w_ops (se_world env)) ok) (se_linker env) planned"
    using link_context.holds_registry [OF ctx others] files linker(1)
    by (intro linking_call.intro dlopen_call.intro dlopen_call_axioms.intro linking_call_axioms.intro)
  obtain dbg tls where eff: "se_linked env raw (s1_debug s, s1_tls s) = (dbg, tls)" by fastforce
  from open_root eff obtain s1 where run: "dlopen_mapped_root k n (se_world env) (se_linker env) t request (rw_name raw)
      (RTLD_GLOBAL OR RTLD_NOW OR RTLD_NODELETE) (s1_manager s) = Some (r, s1)"
    and s': "s1_manager s' = os_manager s1"
    by (auto simp: s1_open_root_def)
  have "holds (w_ops (se_world env)) ok [] (s1_manager s)" using s by (simp add: holds_def)
  moreover have "holds (w_ops (se_world env)) ok [] m \<Longrightarrow> sound m" for m by (simp add: holds_def)
  ultimately show "sound (s1_manager s')"
    using linking_call.mapped_outcome [OF call _ run] linker(2)
    by (cases r) (auto simp: s' linking_call.settled_def [OF call])
qed

lemma drop_sound: "maintains sound (drop_handle env h)"
  by (auto simp: maintains_def drop_handle_def split: res.splits prod.splits dest: link_context.inv_drop [OF ctx])

lemma start_root_sound: "maintains sound (start_root k n t env request raw entry)"
  unfolding start_root_def
  by (intro maintains_seq open_root_sound quiet_steps drop_sound maintains_ret)

text \<open>The dynamic linker is the first entry of the registry.\<close>

lemma register_rtld_sound:
  assumes "s1_manager s = manager_new (w_ops (se_world env))" "register_rtld env state s = Some (r, s')"
  shows "sound (s1_manager s')"
proof -
  let ?P = "\<lambda>m. m = manager_new (w_ops (se_world env))"
  have new: "sound (manager_new (w_ops (se_world env)))" by (rule link_context.inv_new [OF ctx])
  from assms(2) show ?thesis unfolding register_rtld_def
  proof (cases rule: s1_seq_cases)
    case (step rtld s1)
    have m: "s1_manager s1 = manager_new (w_ops (se_world env))"
      using maintainsD [OF quiet_steps(1) step(1), of ?P] assms(1) by simp
    have "\<not> registered (w_ops (se_world env)) (manager_new (w_ops (se_world env))) (dylib_shortname (se_core env rtld))"
      by (simp add: registered_def manager_new_def link_context.view_new [OF ctx] im_get_def)
    moreover have "is_global (RTLD_GLOBAL OR RTLD_NODELETE)" by code_simp
    ultimately obtain m' where "register_loaded (w_ops (se_world env)) (se_core env rtld) (RTLD_GLOBAL OR RTLD_NODELETE)
        (manager_new (w_ops (se_world env))) = Ok m'" "sound m'"
      using link_context.inv_register_loaded [OF ctx new] by blast
    with step(2) m show ?thesis by (auto simp: s1_register_loaded_def)
  next
    case (stop r1)
    with maintainsD [OF quiet_steps(1) stop(1), of ?P] assms(1) new show ?thesis by simp
  qed
qed

lemma stage1_sound:
  assumes "s1_manager s = manager_new (w_ops (se_world env))" "stage1 k n t env state s = Some (r, s')"
  shows "sound (s1_manager s')"
proof -
  have start: "s1_manager (set_args state s) = manager_new (w_ops (se_world env))"
    using assms(1) by (simp add: set_args_def)
  have seq: "sound (s1_manager s')" if "s1_seq (register_rtld env state) f (set_args state s) = Some (r, s')"
    "\<And>a. maintains sound (f a)" for f :: "unit \<Rightarrow> ('c, usize) stage1_action"
    using that(1)
  proof (cases rule: s1_seq_cases)
    case (step a s1)
    with register_rtld_sound [OF start step(1)] maintainsD [OF that(2) step(2)] show ?thesis by blast
  qed (rule register_rtld_sound [OF start])
  have "maintains sound (\<lambda>s. case root_request_of (s1_mem s) p of None \<Rightarrow> None
      | Some request \<Rightarrow> start_root k n t env request main entry s)" for p main entry
    using start_root_sound by (auto simp: maintains_def split: option.splits)
  then have kernel: "sound (s1_manager s')" if "prepare_kernel_mapped_main k n t env state s = Some (r, s')"
    using that unfolding prepare_kernel_mapped_main_def by (elim seq) (intro maintains_seq quiet_steps)
  have direct: "sound (s1_manager s')" if run: "prepare_direct_exec k n t env state s = Some (r, s')"
  proof (cases "\<exists>bytes path. cstr_bytes (s1_mem (set_args state s)) (bt_exec_path state) = Some bytes \<and> from_utf8 bytes = Some path")
    case True
    then obtain bytes path where p: "cstr_bytes (s1_mem (set_args state s)) (bt_exec_path state) = Some bytes" "from_utf8 bytes = Some path"
      by blast
    have last: "maintains sound (case rx_dynamic exec of Some dynamic \<Rightarrow> start_root k n t env path dynamic (rx_entry exec)
        | None \<Rightarrow> (\<lambda>s. Some (Ok (rx_entry exec), s)))" for exec
      using start_root_sound maintains_ret by (auto split: option.splits)
    show ?thesis using run p unfolding prepare_direct_exec_def Let_def
      by (simp, elim seq) (intro maintains_seq quiet_steps last)
  next
    case False
    with run have "s' = set_args state s" by (auto simp: prepare_direct_exec_def Let_def split: option.splits)
    then show ?thesis using start link_context.inv_new [OF ctx] by simp
  qed
  from assms(2) kernel direct show ?thesis by (auto simp: stage1_def split: if_splits)
qed

end

section \<open>A concrete start\<close>

definition ex_auxv_kinds :: "(usize \<times> usize) list" where
  "ex_auxv_kinds = [(AT_PHDR, 1), (AT_ENTRY, 2), (AT_PAGESZ, 4096)]"

text \<open>A stack with an auxiliary vector at \<open>0x1000\<close> and the path \<open>/x\<close> at \<open>0x2000\<close>.\<close>

definition ex_s1_mem :: memory where
  "ex_s1_mem = store_words 0x1000 (auxv_words ex_auxv_kinds @ [AT_NULL, 0])
     (\<lambda>a. if a = 0x2000 then 0x2f else if a = 0x2001 then 0x78 else 0)"

definition ex_rtld_core :: dylib where
  "ex_rtld_core = \<lparr>dl_name = RTLD_NAME, dl_base = 0x7f0000, dl_mapped_len = 0x1000, dl_user_data = extra_data_default,
     dl_phdrs = None, dl_tls_mod_id = None\<rparr>"

definition ex_exec :: raw_exec where
  "ex_exec = \<lparr>rx_dynamic = None, rx_phdrs = Some (0x400040, 9), rx_entry = 0x401000\<rparr>"

definition ex_s1_env :: "(list_ctx, string, nat) stage1_env" where
  "ex_s1_env = \<lparr>se_world = ex_world, se_linker = ex_linker None, se_view = elf64,
     se_load_mapped = (\<lambda>name base phdrs entry dbg. (Ok \<lparr>rw_name = name, rw_base = base, rw_phdrs = phdrs, rw_entry = entry,
        rw_needed_libs = [], rw_user_data = extra_data_default\<rparr>, dbg)),
     se_load_exec = (\<lambda>path dbg. (Ok ex_exec, dbg)),
     se_core = (\<lambda>raw. ex_rtld_core), se_linked = (\<lambda>raw s. s), se_refcount = (\<lambda>m removed lib. 0),
     se_symbol = (\<lambda>lib name. None), se_call = (\<lambda>f arg mem. mem)\<rparr>"

definition ex_boot :: bootstrap_state where
  "ex_boot = bootstrap_state_zero\<lparr>bt_mode := DirectExec, bt_auxv := 0x1000, bt_exec_path := 0x2000,
     bt_rtld := \<lparr>bo_load_bias = 0x7f0000, bo_dynamic = 0, bo_phdr = 0x7f0040, bo_phnum = 1, bo_entry = 0\<rparr>\<rparr>"

definition ex_s1 :: "list_ctx stage1_state" where
  "ex_s1 = \<lparr>s1_argc = 0, s1_argv = 0, s1_envp = 0, s1_manager = manager_new list_ops,
     s1_debug = debug_init 8 4 (\<lambda>_. link_map_zero),
     s1_tls = \<lparr>ts_backend = None, ts_area = None, ts_modules = [], ts_allocations = [], ts_mem = ex_s1_mem,
       ts_allocs = 0, ts_freed = []\<rparr>, s1_hooks = []\<rparr>"

lemma ex_fair: "fair_others list_ops im_wf (\<lambda>t m. m)"
  by (simp add: fair_others_def)

interpretation ex_start: startup ex_s1_env im_wf "\<lambda>l. 2 \<le> l"
  by (rule startup.intro) (simp_all add: ex_s1_env_def ex_world_def list_ctx.link_context_axioms ex_fair ex_env_ok
      ex_linker_ok ex_linker_roots)

lemma ex_s1_auxv: "auxv_at ex_s1_mem 0x1000 ex_auxv_kinds 0"
proof -
  have "words_at ex_s1_mem 0x1000 (auxv_words ex_auxv_kinds @ [AT_NULL, 0])"
    unfolding ex_s1_mem_def by (rule store_words_at) (simp add: auxv_words_def ex_auxv_kinds_def)
  then show ?thesis by (simp add: auxv_at_def aux_kinds_ok_def ex_auxv_kinds_def at_defs)
qed

lemma ex_s1_path: "cstr_bytes ex_s1_mem 0x2000 = Some [0x2f, 0x78]"
proof -
  have "\<not> inside x 0x1000 (8 * length (auxv_words ex_auxv_kinds @ [AT_NULL, 0]))" if "x \<in> {0x2000, 0x2001, 0x2002}" for x
    using that by (auto simp: inside_def auxv_words_def ex_auxv_kinds_def)
  then have m: "ex_s1_mem 0x2000 = 0x2f" "ex_s1_mem 0x2001 = 0x78" "ex_s1_mem 0x2002 = 0"
    by (simp_all add: ex_s1_mem_def store_words_frame)
  have "strlen ex_s1_mem 0x2000 = Some (of_nat 2)"
  proof (rule strlen_found)
    show "ex_s1_mem (0x2000 + of_nat k) \<noteq> 0" if "k < 2" for k
      using that m(1,2) by (cases k) (auto simp: less_Suc_eq)
  qed (simp_all add: m)
  then show ?thesis by (simp add: cstr_bytes_def bytes_at_def m upt_rec)
qed

text \<open>A static program: registered is only the dynamic linker, and only the auxiliary vector changes.\<close>

lemma static_exec_outcome:
  assumes ctx: "link_context (w_ops (se_world env)) ok" "s1_manager s = manager_new (w_ops (se_world env))"
    and mode: "bt_mode state = DirectExec" "cstr_bytes (s1_mem s) (bt_exec_path state) = Some bytes" "from_utf8 bytes = Some path"
    and rtld: "bo_phdr (bt_rtld state) \<noteq> 0" "bo_phnum (bt_rtld state) \<noteq> 0"
      "se_load_mapped env RTLD_NAME (bo_load_bias (bt_rtld state))
         (read_phdrs (se_view env) (s1_mem s) (bo_phdr (bt_rtld state)) (bo_phnum (bt_rtld state)))
         (bo_entry (bt_rtld state)) (s1_debug s) = (Ok raw, dbg)"
    and exec: "se_load_exec env path dbg = (Ok exec, dbg')" "rx_dynamic exec = None" "rx_phdrs exec = Some (phdr, phnum)"
    and auxv: "auxv_at (s1_mem s) (bt_auxv state) es w" "bt_auxv state \<noteq> 0" "16 * Suc (length es) \<le> 2 ^ 64"
  shows "\<exists>s'. stage1 k n t env state s = Some (Ok (rx_entry exec), s') \<and>
    auxv_at (s1_mem s') (bt_auxv state) (map (\<lambda>(kind, v). (kind,
      if kind = AT_PHDR then phdr else if kind = AT_PHENT then vw_phdr_size (se_view env)
      else if kind = AT_PHNUM then phnum else if kind = AT_BASE then bo_load_bias (bt_rtld state)
      else if kind = AT_ENTRY then rx_entry exec else if kind = AT_EXECFN then bt_exec_path state else v)) es) w \<and>
    (\<forall>x. \<not> inside x (bt_auxv state) (16 * length es) \<longrightarrow> s1_mem s' x = s1_mem s x) \<and>
    s1_argc s' = bt_argc state \<and> s1_argv s' = bt_argv state \<and> s1_envp s' = bt_envp state"
proof -
  let ?ops = "w_ops (se_world env)"
  have "\<not> registered ?ops (manager_new ?ops) (dylib_shortname (se_core env raw))"
    by (simp add: registered_def manager_new_def link_context.view_new [OF ctx(1)] im_get_def)
  moreover have "is_global (RTLD_GLOBAL OR RTLD_NODELETE)" by code_simp
  ultimately obtain m where m: "register_loaded ?ops (se_core env raw) (RTLD_GLOBAL OR RTLD_NODELETE) (manager_new ?ops) = Ok m"
    using link_context.inv_register_loaded [OF ctx(1) link_context.inv_new [OF ctx(1)]] by blast
  let ?ev = "\<lparr>ev_phdr = phdr, ev_phent = vw_phdr_size (se_view env), ev_phnum = phnum,
      ev_base = bo_load_bias (bt_rtld state), ev_entry = rx_entry exec, ev_exec_path = bt_exec_path state\<rparr>"
  have patch: "patch_entry ?ev = (\<lambda>(kind, v). (kind,
      if kind = AT_PHDR then phdr else if kind = AT_PHENT then vw_phdr_size (se_view env)
      else if kind = AT_PHNUM then phnum else if kind = AT_BASE then bo_load_bias (bt_rtld state)
      else if kind = AT_ENTRY then rx_entry exec else if kind = AT_EXECFN then bt_exec_path state else v))"
    by (auto simp: patch_entry_def patch_value_def fun_eq_iff)
  from patch_loop [OF auxv(1,3), of ?ev] auxv(2) obtain mem' where p: "patch_exec_auxv ?ev (bt_auxv state) (s1_mem s) = Some mem'"
    and mem': "auxv_at mem' (bt_auxv state) (map (patch_entry ?ev) es) w"
      "\<forall>x. \<not> inside x (bt_auxv state) (16 * length es) \<longrightarrow> mem' x = s1_mem s x"
    by (auto simp: patch_exec_auxv_def)
  show ?thesis
    using mem' ctx(2) mode rtld exec m p
    by (auto simp: stage1_def prepare_direct_exec_def Let_def s1_seq_def register_rtld_def load_borrowed_def loader_result_def
        s1_register_loaded_def s1_patch_auxv_def set_args_def s1_mem_def set_s1_mem_def patch)
qed

lemma ex_s1_env_simps:
  "w_ops (se_world ex_s1_env) = list_ops" "w_others (se_world ex_s1_env) = (\<lambda>t m. m)" "w_env (se_world ex_s1_env) = ex_env"
  "se_linker ex_s1_env = ex_linker None" "s1_manager ex_s1 = manager_new list_ops"
  by (simp_all add: ex_s1_env_def ex_world_def ex_s1_def)

lemma ex_s1_runs:
  "cstr_bytes (s1_mem ex_s1) (bt_exec_path ex_boot) = Some [0x2f, 0x78]"
  "auxv_at (s1_mem ex_s1) (bt_auxv ex_boot) ex_auxv_kinds 0" "from_utf8 [0x2f, 0x78] = Some ''/x''"
  by (simp_all add: ex_s1_def s1_mem_def ex_boot_def ex_s1_path ex_s1_auxv) code_simp

lemma ex_s1_facts:
  "link_context (w_ops (se_world ex_s1_env)) im_wf" "s1_manager ex_s1 = manager_new (w_ops (se_world ex_s1_env))"
  "bt_mode ex_boot = DirectExec" "bo_phdr (bt_rtld ex_boot) \<noteq> 0" "bo_phnum (bt_rtld ex_boot) \<noteq> 0"
  "bt_auxv ex_boot \<noteq> 0" "16 * Suc (length ex_auxv_kinds) \<le> 2 ^ 64"
  "\<exists>raw. se_load_mapped ex_s1_env RTLD_NAME (bo_load_bias (bt_rtld ex_boot))
     (read_phdrs (se_view ex_s1_env) (s1_mem ex_s1) (bo_phdr (bt_rtld ex_boot)) (bo_phnum (bt_rtld ex_boot)))
     (bo_entry (bt_rtld ex_boot)) (s1_debug ex_s1) = (Ok raw, s1_debug ex_s1)"
  "se_load_exec ex_s1_env ''/x'' (s1_debug ex_s1) = (Ok ex_exec, s1_debug ex_s1)"
  "rx_dynamic ex_exec = None" "rx_phdrs ex_exec = Some (0x400040, 9)" "rx_entry ex_exec = 0x401000"
  by (simp_all add: ex_s1_env_simps list_ctx.link_context_axioms ex_boot_def ex_auxv_kinds_def) (simp_all add: ex_s1_env_def ex_exec_def)

section \<open>Properties\<close>

text \<open>
  C6. Whatever happens during start-up (the program is mapped by the kernel or loaded from a
  path, it links or fails to link, a needed object has no program headers), the registry the
  start-up leaves behind satisfies its invariant.
\<close>

theorem stage1_keeps_registry:
  assumes "link_context (w_ops (se_world env)) ok" "fair_others (w_ops (se_world env)) ok (w_others (se_world env))"
    and "env_ok (w_env (se_world env))" "linker_ok (w_ops (se_world env)) ok planned (se_linker env)"
    and "linker_roots (w_ops (se_world env)) (se_linker env)"
    and "s1_manager s = manager_new (w_ops (se_world env))" "stage1 k n t env state s = Some (r, s')"
  shows "manager_inv (w_ops (se_world env)) ok (s1_manager s')"
proof -
  have "startup env ok planned" using assms(1-5) by (rule startup.intro)
  from startup.stage1_sound [OF this assms(6,7)] show ?thesis .
qed

theorem stage1_keeps_registry_witness:
  "\<exists>s'. stage1 0 0 0 ex_s1_env ex_boot ex_s1 = Some (Ok 0x401000, s') \<and> manager_inv list_ops im_wf (s1_manager s')"
proof -
  from ex_s1_facts(8) obtain raw where raw: "se_load_mapped ex_s1_env RTLD_NAME (bo_load_bias (bt_rtld ex_boot))
     (read_phdrs (se_view ex_s1_env) (s1_mem ex_s1) (bo_phdr (bt_rtld ex_boot)) (bo_phnum (bt_rtld ex_boot)))
     (bo_entry (bt_rtld ex_boot)) (s1_debug ex_s1) = (Ok raw, s1_debug ex_s1)" ..
  from static_exec_outcome [OF ex_s1_facts(1,2,3) ex_s1_runs(1,3) ex_s1_facts(4,5) raw ex_s1_facts(9,10,11)
      ex_s1_runs(2) ex_s1_facts(6,7), of 0 0 0]
  obtain s' where run: "stage1 0 0 0 ex_s1_env ex_boot ex_s1 = Some (Ok 0x401000, s')" unfolding ex_s1_facts(12) by blast
  from stage1_keeps_registry [of ex_s1_env, unfolded ex_s1_env_simps, OF list_ctx.link_context_axioms ex_fair ex_env_ok
      ex_linker_ok ex_linker_roots _ run] run show ?thesis by (auto simp: ex_s1_env_simps)
qed

text \<open>
  A statically linked program named on the command line is started with the auxiliary
  vector of its own image: the entries for the program headers, the base address of the
  dynamic linker, the entry point and the path are replaced, all others and the rest of memory
  stay, and the program's entry point is returned.
\<close>

theorem stage1_static_exec:
  assumes ctx: "link_context (w_ops (se_world env)) ok" "s1_manager s = manager_new (w_ops (se_world env))"
    and mode: "bt_mode state = DirectExec" "cstr_bytes (s1_mem s) (bt_exec_path state) = Some bytes" "from_utf8 bytes = Some path"
    and rtld: "bo_phdr (bt_rtld state) \<noteq> 0" "bo_phnum (bt_rtld state) \<noteq> 0"
      "se_load_mapped env RTLD_NAME (bo_load_bias (bt_rtld state))
         (read_phdrs (se_view env) (s1_mem s) (bo_phdr (bt_rtld state)) (bo_phnum (bt_rtld state)))
         (bo_entry (bt_rtld state)) (s1_debug s) = (Ok raw, dbg)"
    and exec: "se_load_exec env path dbg = (Ok exec, dbg')" "rx_dynamic exec = None" "rx_phdrs exec = Some (phdr, phnum)"
    and auxv: "auxv_at (s1_mem s) (bt_auxv state) es w" "bt_auxv state \<noteq> 0" "16 * Suc (length es) \<le> 2 ^ 64"
  shows "\<exists>s'. stage1 k n t env state s = Some (Ok (rx_entry exec), s') \<and>
    auxv_at (s1_mem s') (bt_auxv state) (map (\<lambda>(kind, v). (kind,
      if kind = AT_PHDR then phdr else if kind = AT_PHENT then vw_phdr_size (se_view env)
      else if kind = AT_PHNUM then phnum else if kind = AT_BASE then bo_load_bias (bt_rtld state)
      else if kind = AT_ENTRY then rx_entry exec else if kind = AT_EXECFN then bt_exec_path state else v)) es) w \<and>
    (\<forall>x. \<not> inside x (bt_auxv state) (16 * length es) \<longrightarrow> s1_mem s' x = s1_mem s x) \<and>
    s1_argc s' = bt_argc state \<and> s1_argv s' = bt_argv state \<and> s1_envp s' = bt_envp state"
  using assms by (rule static_exec_outcome)

theorem stage1_static_exec_witness:
  "\<exists>s'. stage1 0 0 0 ex_s1_env ex_boot ex_s1 = Some (Ok 0x401000, s') \<and>
     auxv_at (s1_mem s') 0x1000 [(AT_PHDR, 0x400040), (AT_ENTRY, 0x401000), (AT_PAGESZ, 4096)] 0"
proof -
  from ex_s1_facts(8) obtain raw where raw: "se_load_mapped ex_s1_env RTLD_NAME (bo_load_bias (bt_rtld ex_boot))
     (read_phdrs (se_view ex_s1_env) (s1_mem ex_s1) (bo_phdr (bt_rtld ex_boot)) (bo_phnum (bt_rtld ex_boot)))
     (bo_entry (bt_rtld ex_boot)) (s1_debug ex_s1) = (Ok raw, s1_debug ex_s1)" ..
  from stage1_static_exec [OF ex_s1_facts(1,2,3) ex_s1_runs(1,3) ex_s1_facts(4,5) raw ex_s1_facts(9,10,11)
      ex_s1_runs(2) ex_s1_facts(6,7), of 0 0 0]
  obtain s' where run: "stage1 0 0 0 ex_s1_env ex_boot ex_s1 = Some (Ok 0x401000, s')"
    and vec: "auxv_at (s1_mem s') (bt_auxv ex_boot) (map (\<lambda>(kind, v). (kind,
      if kind = AT_PHDR then 0x400040 else if kind = AT_PHENT then vw_phdr_size (se_view ex_s1_env)
      else if kind = AT_PHNUM then 9 else if kind = AT_BASE then bo_load_bias (bt_rtld ex_boot)
      else if kind = AT_ENTRY then 0x401000 else if kind = AT_EXECFN then bt_exec_path ex_boot else v)) ex_auxv_kinds) 0"
    unfolding ex_s1_facts(12) by blast
  moreover have "bt_auxv ex_boot = 0x1000" by (simp add: ex_boot_def)
  ultimately show ?thesis by (auto simp: ex_auxv_kinds_def at_defs)
qed

end
