(* ===== verification/C_Layout.thy ===== *)
theory C_Layout
  imports Memory
begin

text \<open>
  Structures with the layout of C (\<open>repr(C)\<close>): the fields in order, each at the next multiple
  of its alignment, and the size rounded up to the largest alignment. A field is a name, a size
  and an alignment; \<open>put\<close> and \<open>get\<close> write and read a field of a structure in memory.

  The locale \<open>struct_layout\<close> collects what code that accesses fields by name relies on; the
  structures of the C library interpret it.
\<close>

type_synonym 'f c_field = "'f \<times> nat \<times> nat"

definition round_up :: "nat \<Rightarrow> nat \<Rightarrow> nat" where
  "round_up n align = (n + align - 1) div align * align"

fun placed :: "nat \<Rightarrow> 'f c_field list \<Rightarrow> 'f c_field list" where
  "placed off [] = []"
| "placed off ((f, sz, align) # fs) = (f, round_up off align, sz) # placed (round_up off align + sz) fs"

fun end_of :: "nat \<Rightarrow> 'f c_field list \<Rightarrow> nat" where
  "end_of off [] = off"
| "end_of off ((f, sz, align) # fs) = end_of (round_up off align + sz) fs"

definition struct_align :: "'f c_field list \<Rightarrow> nat" where
  "struct_align fs = fold max (map (\<lambda>(f, sz, align). align) fs) 1"

definition struct_size :: "'f c_field list \<Rightarrow> nat" where
  "struct_size fs = round_up (end_of 0 fs) (struct_align fs)"

definition field_of :: "'f c_field list \<Rightarrow> 'f \<Rightarrow> nat \<times> nat" where
  "field_of fs f = (case map_of (placed 0 fs) f of Some r \<Rightarrow> r | None \<Rightarrow> (0, 0))"

definition offset_of :: "'f c_field list \<Rightarrow> 'f \<Rightarrow> nat" where
  "offset_of fs f = fst (field_of fs f)"

definition size_of :: "'f c_field list \<Rightarrow> 'f \<Rightarrow> nat" where
  "size_of fs f = snd (field_of fs f)"

text \<open>The low \<open>n\<close> bytes of a value, the lowest first.\<close>

definition store_le :: "nat \<Rightarrow> usize \<Rightarrow> usize \<Rightarrow> memory \<Rightarrow> memory" where
  "store_le n a v mem = (\<lambda>x. if inside x a n then ucast (drop_bit (8 * unat (x - a)) v) else mem x)"

definition put :: "'f c_field list \<Rightarrow> usize \<Rightarrow> 'f \<Rightarrow> usize \<Rightarrow> memory \<Rightarrow> memory" where
  "put fs p f v mem = store_le (size_of fs f) (p + of_nat (offset_of fs f)) v mem"

definition get :: "'f c_field list \<Rightarrow> usize \<Rightarrow> 'f \<Rightarrow> memory \<Rightarrow> usize" where
  "get fs p f mem = load_le (size_of fs f) mem (p + of_nat (offset_of fs f))"

section \<open>Bytes\<close>

lemma store_le_usize: "store_le 8 a v mem = write_usize a v mem"
  by (simp add: store_le_def write_usize_def inside_def word_less_nat_alt)

lemma store_le_frame: "\<not> inside x a n \<Longrightarrow> store_le n a v mem x = mem x"
  by (simp add: store_le_def)

lemma load_store_same: "n \<le> 8 \<Longrightarrow> load_le n (store_le n a v mem) a = take_bit (8 * n) v"
proof (rule bit_eqI)
  fix i assume n: "n \<le> 8" and "possible_bit TYPE(64 word) i"
  then have i: "i < 64" by (simp add: possible_bit_word)
  then have un: "unat (of_nat (i div 8) :: usize) = i div 8" by (simp add: unat_of_nat)
  have "bit v (8 * (i div 8) + i mod 8) \<longleftrightarrow> bit v i" by simp
  moreover have "i < 8 * n \<longleftrightarrow> i div 8 < n" by (simp add: div_less_iff_less_mult mult.commute)
  ultimately show "bit (load_le n (store_le n a v mem) a) i \<longleftrightarrow> bit (take_bit (8 * n) v) i"
    using i by (auto simp: bit_load_le store_le_def inside_def un bit_ucast_iff bit_drop_bit_eq bit_take_bit_iff)
qed

lemma load_frame: "(\<And>x. inside x a n \<Longrightarrow> mem' x = mem x) \<Longrightarrow> load_le n mem' a = load_le n mem a"
  by (rule load_le_cong) (auto intro: inside_offset)

section \<open>Placement\<close>

lemma round_up_ge: "0 < align \<Longrightarrow> n \<le> round_up n align"
proof -
  assume "0 < align"
  have "(n + align - 1) div align * align + (n + align - 1) mod align = n + align - 1" by simp
  moreover have "(n + align - 1) mod align \<le> align - 1" using \<open>0 < align\<close> by (simp add: less_Suc_eq_le [symmetric])
  ultimately show ?thesis unfolding round_up_def using \<open>0 < align\<close> by linarith
qed

definition aligns_ok :: "'f c_field list \<Rightarrow> bool" where
  "aligns_ok fs \<longleftrightarrow> list_all (\<lambda>(f, sz, align). 0 < align) fs"

lemma placed_bounds:
  "aligns_ok fs \<Longrightarrow> off \<le> end_of off fs \<and> (\<forall>(f, p, sz) \<in> set (placed off fs). off \<le> p \<and> p + sz \<le> end_of off fs)"
proof (induction off fs rule: placed.induct)
  case (2 off f sz align fs)
  then have "off \<le> round_up off align" by (simp add: aligns_ok_def round_up_ge)
  with 2 show ?case by (fastforce simp: Let_def aligns_ok_def)
qed simp

lemma placed_sorted: "aligns_ok fs \<Longrightarrow> sorted_wrt (\<lambda>(f, p, sz) (g, q, sz'). p + sz \<le> q) (placed off fs)"
proof (induction off fs rule: placed.induct)
  case (2 off f sz align fs)
  then have fs: "aligns_ok fs" by (simp add: aligns_ok_def)
  with placed_bounds [OF fs, of "round_up off align + sz"] 2 show ?case by (auto simp: Let_def)
qed simp

lemma placed_aligned:
  "map_of fs f = Some (sz, align) \<Longrightarrow> \<exists>p. map_of (placed off fs) f = Some (p, sz) \<and> align dvd p"
proof (induction off fs rule: placed.induct)
  case (2 off g sz' align' fs)
  then show ?case by (auto simp: Let_def round_up_def split: if_splits)
qed simp

lemma placed_names: "map fst (placed off fs) = map fst fs"
  by (induction off fs rule: placed.induct) (auto simp: Let_def)

lemma struct_size_ge: "aligns_ok fs \<Longrightarrow> end_of 0 fs \<le> struct_size fs"
proof -
  have "1 \<le> fold max xs (Suc 0)" for xs :: "nat list"
    using fold_invariant [of xs "\<lambda>_. True" "\<lambda>n. 1 \<le> n" "Suc 0" max] by (auto simp: le_max_iff_disj)
  then show ?thesis unfolding struct_size_def struct_align_def by (intro round_up_ge) (simp add: Suc_le_lessD)
qed

lemma sorted_wrt_two:
  assumes "sorted_wrt P xs" "x \<in> set xs" "y \<in> set xs" "x \<noteq> y"
  shows "P x y \<or> P y x"
proof -
  from assms(2,3) obtain i j where ij: "i < length xs" "j < length xs" "x = xs ! i" "y = xs ! j"
    by (auto simp: in_set_conv_nth)
  with assms(4) have "i \<noteq> j" by auto
  then have "i < j \<or> j < i" by arith
  with assms(1) ij show ?thesis by (auto simp: sorted_wrt_iff_nth_less)
qed

section \<open>Regions that are written\<close>

definition changes_only :: "usize \<Rightarrow> nat \<Rightarrow> (memory \<Rightarrow> memory) \<Rightarrow> bool" where
  "changes_only p n F \<longleftrightarrow> (\<forall>mem x. \<not> inside x p n \<longrightarrow> F mem x = mem x)"

lemma changes_onlyD: "changes_only p n F \<Longrightarrow> \<not> inside x p n \<Longrightarrow> F mem x = mem x"
  by (simp add: changes_only_def)

lemma changes_store: "changes_only p n (store_le n p v)"
  by (simp add: changes_only_def store_le_frame)

lemma changes_write: "changes_only p 8 (write_usize p v)"
  using changes_store [of p 8 v] by (simp add: changes_only_def store_le_usize)

lemma changes_mono: "changes_only (p + of_nat k) m F \<Longrightarrow> k + m \<le> n \<Longrightarrow> changes_only p n F"
  unfolding changes_only_def using inside_mono by blast

lemma changes_id: "changes_only p n (\<lambda>mem. mem)"
  by (simp add: changes_only_def)

lemma changes_comp: "changes_only p n F \<Longrightarrow> changes_only p n G \<Longrightarrow> changes_only p n (\<lambda>mem. F (G mem))"
  by (simp add: changes_only_def)

lemma changes_fold: "(\<And>x. x \<in> set xs \<Longrightarrow> changes_only p n (F x)) \<Longrightarrow> changes_only p n (fold F xs)"
proof (induction xs)
  case (Cons x xs)
  then have "changes_only p n (fold F xs)" "changes_only p n (F x)" by simp_all
  then have "changes_only p n (\<lambda>mem. fold F xs (F x mem))" by (rule changes_comp)
  then show ?case by (simp add: o_def)
qed (simp add: changes_only_def)

lemma load_changes:
  assumes "changes_only p n F" "\<And>x. inside x a m \<Longrightarrow> \<not> inside x p n"
  shows "load_le m (F mem) a = load_le m mem a"
proof (rule load_frame)
  fix x assume "inside x a m"
  from changes_onlyD [OF assms(1) assms(2) [OF this]] show "F mem x = mem x" .
qed

section \<open>Access by name\<close>

locale struct_layout =
  fixes fs :: "'f c_field list"
  assumes aligns: "aligns_ok fs"
    and bounded: "struct_size fs \<le> 2 ^ 63"
begin

lemma field_in_placed: "f \<in> fst ` set fs \<Longrightarrow> (f, offset_of fs f, size_of fs f) \<in> set (placed 0 fs)"
proof -
  assume "f \<in> fst ` set fs"
  then have "f \<in> fst ` set (placed 0 fs)" using placed_names [of 0 fs] by (metis image_set)
  then obtain r where "map_of (placed 0 fs) f = Some r" by (metis map_of_eq_None_iff option.exhaust)
  then show ?thesis by (auto simp: offset_of_def size_of_def field_of_def dest: map_of_SomeD)
qed

lemma field_fits: "f \<in> fst ` set fs \<Longrightarrow> offset_of fs f + size_of fs f \<le> struct_size fs"
  using placed_bounds [OF aligns, of 0] field_in_placed struct_size_ge [OF aligns] by fastforce

lemma field_aligned: "map_of fs f = Some (sz, align) \<Longrightarrow> align dvd offset_of fs f \<and> size_of fs f = sz"
  using placed_aligned [of fs f sz align 0] by (auto simp: offset_of_def size_of_def field_of_def)

lemma fields_disjoint:
  assumes "f \<in> fst ` set fs" "g \<in> fst ` set fs" "f \<noteq> g"
    and "inside x (p + of_nat (offset_of fs f)) (size_of fs f)"
  shows "\<not> inside x (p + of_nat (offset_of fs g)) (size_of fs g)"
proof -
  let ?o = "offset_of fs" and ?s = "size_of fs"
  have lim: "?o f + ?s f \<le> 2 ^ 63" "?o g + ?s g \<le> 2 ^ 63"
    using field_fits [OF assms(1)] field_fits [OF assms(2)] bounded by linarith+
  have order: "?o f + ?s f \<le> ?o g \<or> ?o g + ?s g \<le> ?o f"
    using sorted_wrt_two [OF placed_sorted [OF aligns] field_in_placed field_in_placed, OF assms(1,2)] assms(3) by auto
  have x: "inside x p (?o f + ?s f)" using inside_mono [OF assms(4)] by simp
  from order show ?thesis
  proof
    assume le: "?o f + ?s f \<le> ?o g"
    with x have "inside x p (?o g)" by (simp add: inside_def)
    then show ?thesis by (rule before_disjoint) (use lim in simp)
  next
    assume le: "?o g + ?s g \<le> ?o f"
    show ?thesis
    proof
      assume "inside x (p + of_nat (?o g)) (?s g)"
      from inside_mono [OF this, of "?o f"] le have "inside x p (?o f)" by simp
      from before_disjoint [OF this] assms(4) lim show False by simp
    qed
  qed
qed

text \<open>The laws: a field holds what was last put there, and putting into one field, or storing
  anywhere inside it, leaves every other field alone.\<close>

lemma get_put_same:
  "f \<in> fst ` set fs \<Longrightarrow> size_of fs f \<le> 8 \<Longrightarrow> get fs p f (put fs p f v mem) = take_bit (8 * size_of fs f) v"
  by (simp add: get_def put_def load_store_same)

lemma put_changes: "changes_only (p + of_nat (offset_of fs f)) (size_of fs f) (put fs p f v)"
  unfolding put_def [abs_def] by (rule changes_store)

lemma put_changes_struct: "f \<in> fst ` set fs \<Longrightarrow> changes_only p (struct_size fs) (put fs p f v)"
  by (rule changes_mono [OF put_changes field_fits])

lemma put_outside: "f \<in> fst ` set fs \<Longrightarrow> \<not> inside x p (struct_size fs) \<Longrightarrow> put fs p f v mem x = mem x"
  by (rule changes_onlyD [OF put_changes_struct])

lemma load_field_other:
  assumes "changes_only (p + of_nat (offset_of fs f)) (size_of fs f) F"
    and "f \<in> fst ` set fs" "g \<in> fst ` set fs" "f \<noteq> g" "k + m \<le> size_of fs g"
  shows "load_le m (F mem) (p + of_nat (offset_of fs g) + of_nat k) = load_le m mem (p + of_nat (offset_of fs g) + of_nat k)"
  using assms(1)
proof (rule load_changes)
  fix x assume "inside x (p + of_nat (offset_of fs g) + of_nat k) m"
  then have "inside x (p + of_nat (offset_of fs g)) (size_of fs g)" using assms(5) by (rule inside_mono)
  from fields_disjoint [OF assms(3,2) assms(4) [symmetric] this]
  show "\<not> inside x (p + of_nat (offset_of fs f)) (size_of fs f)" .
qed

lemma get_field_other:
  "changes_only (p + of_nat (offset_of fs f)) (size_of fs f) F \<Longrightarrow> f \<in> fst ` set fs \<Longrightarrow> g \<in> fst ` set fs \<Longrightarrow> f \<noteq> g \<Longrightarrow>
   get fs p g (F mem) = get fs p g mem"
  using load_field_other [of p f F g 0 "size_of fs g"] by (simp add: get_def)

lemma get_put_other:
  "f \<in> fst ` set fs \<Longrightarrow> g \<in> fst ` set fs \<Longrightarrow> f \<noteq> g \<Longrightarrow> get fs p g (put fs p f v mem) = get fs p g mem"
  by (rule get_field_other [OF put_changes])

lemma get_frame:
  assumes "f \<in> fst ` set fs" "\<And>x. inside x p (struct_size fs) \<Longrightarrow> mem' x = mem x"
  shows "get fs p f mem' = get fs p f mem"
  unfolding get_def
proof (rule load_frame)
  fix x assume "inside x (p + of_nat (offset_of fs f)) (size_of fs f)"
  from inside_mono [OF this field_fits [OF assms(1)]] show "mem' x = mem x" by (rule assms(2))
qed

lemma get_changes:
  assumes "changes_only q n F" "f \<in> fst ` set fs" "\<And>x. inside x p (struct_size fs) \<Longrightarrow> \<not> inside x q n"
  shows "get fs p f (F mem) = get fs p f mem"
  by (rule get_frame [OF assms(2) changes_onlyD [OF assms(1) assms(3)]])

end

text \<open>A structure inside a field of another one, possibly in an array.\<close>

lemma get_nested:
  assumes "struct_layout fs" "struct_layout fs'" "changes_only (p + of_nat (offset_of fs f)) (size_of fs f) F"
    and "f \<in> fst ` set fs" "g \<in> fst ` set fs" "f \<noteq> g" "h \<in> fst ` set fs'" "k + struct_size fs' \<le> size_of fs g"
  shows "get fs' (p + of_nat (offset_of fs g) + of_nat k) h (F mem) = get fs' (p + of_nat (offset_of fs g) + of_nat k) h mem"
  using assms(2,3,7)
proof (rule struct_layout.get_changes)
  fix x assume "inside x (p + of_nat (offset_of fs g) + of_nat k) (struct_size fs')"
  then have "inside x (p + of_nat (offset_of fs g)) (size_of fs g)" using assms(8) by (rule inside_mono)
  with struct_layout.fields_disjoint [OF assms(1) assms(5,4) assms(6) [symmetric]]
  show "\<not> inside x (p + of_nat (offset_of fs f)) (size_of fs f)" by blast
qed

end
