(* ===== verification/Rtld_Globals.thy ===== *)
theory Rtld_Globals
  imports C_Layout Debug_List
begin

text \<open>
  \<open>rtld/impl/src/globals.rs\<close> and \<open>glibc/v2_39/mod.rs\<close>: the variables \<open>_rtld_global\<close> and
  \<open>_rtld_global_ro\<close> through which the C library (glibc 2.39, x86-64) reads the state of the
  dynamic linker by fixed offsets. The structures are lists of fields in the order of the
  source; offsets and sizes follow from the layout rules of C.

  Where the variables lie in memory is given by \<open>rtld_statics\<close>; link maps are kept in a heap of
  their own, as in \<open>Debug_List\<close>. \<open>c_strlen\<close> does not end when the string has no end: \<open>None\<close>.
\<close>

section \<open>Structures\<close>

definition DL_NNS :: nat where "DL_NNS = 16"
definition EXEC_PAGESIZE :: usize where "EXEC_PAGESIZE = 4096"
definition FPU_DEFAULT :: usize where "FPU_DEFAULT = 0x037f"
definition PTHREAD_MUTEX_RECURSIVE_NP :: usize where "PTHREAD_MUTEX_RECURSIVE_NP = 1"
definition STDERR_FILENO :: usize where "STDERR_FILENO = 2"
definition X86_CPU_FEATURES_SIZE :: nat where "X86_CPU_FEATURES_SIZE = 520"

definition word8 :: "nat \<times> nat" where "word8 = (8, 8)"
definition word4 :: "nat \<times> nat" where "word4 = (4, 4)"
definition word2 :: "nat \<times> nat" where "word2 = (2, 2)"
definition byte1 :: "nat \<times> nat" where "byte1 = (1, 1)"

definition struct_ty :: "'f c_field list \<Rightarrow> nat \<times> nat" where
  "struct_ty fs = (struct_size fs, struct_align fs)"

definition array_ty :: "nat \<Rightarrow> nat \<times> nat \<Rightarrow> nat \<times> nat" where
  "array_ty n t = (n * fst t, snd t)"

datatype rtld_scope_elem_field =
    Se_list | Se_nlist | Se_padding

definition rtld_scope_elem_fields :: "rtld_scope_elem_field c_field list" where
  "rtld_scope_elem_fields = [
     (Se_list, word8), (Se_nlist, word4), (Se_padding, word4)]"

datatype rtld_list_field =
    Rl_next | Rl_prev

definition rtld_list_fields :: "rtld_list_field c_field list" where
  "rtld_list_fields = [
     (Rl_next, word8), (Rl_prev, word8)]"

datatype rtld_pthread_mutex_field =
    Mx_lock | Mx_count | Mx_owner | Mx_nusers | Mx_kind | Mx_spins | Mx_elision | Mx_list

definition rtld_pthread_mutex_fields :: "rtld_pthread_mutex_field c_field list" where
  "rtld_pthread_mutex_fields = [
     (Mx_lock, word4), (Mx_count, word4), (Mx_owner, word4), (Mx_nusers, word4), (Mx_kind, word4),
     (Mx_spins, word2), (Mx_elision, word2), (Mx_list, struct_ty rtld_list_fields)]"

datatype rtld_recursive_lock_field =
    Lk_mutex

definition rtld_recursive_lock_fields :: "rtld_recursive_lock_field c_field list" where
  "rtld_recursive_lock_fields = [
     (Lk_mutex, struct_ty rtld_pthread_mutex_fields)]"

datatype rtld_unique_sym_table_field =
    Us_lock | Us_entries | Us_size | Us_n_elements | Us_free

definition rtld_unique_sym_table_fields :: "rtld_unique_sym_table_field c_field list" where
  "rtld_unique_sym_table_fields = [
     (Us_lock, struct_ty rtld_recursive_lock_fields), (Us_entries, word8), (Us_size, word8),
     (Us_n_elements, word8), (Us_free, word8)]"

text \<open>\<open>LinkMap\<close> and \<open>RDebug\<close> of \<open>src/abi.rs\<close>.\<close>

datatype link_map_field =
    Lm_l_addr | Lm_l_name | Lm_l_ld | Lm_l_next | Lm_l_prev | Lm_l_real | Lm_l_ns | Lm_l_libname
  | Lm_l_info | Lm_l_phdr | Lm_l_entry | Lm_l_phnum | Lm_l_ldnum | Lm_pad_after_ldnum
  | Lm_reserved_tail

definition link_map_fields :: "link_map_field c_field list" where
  "link_map_fields = [(Lm_l_addr, word8), (Lm_l_name, word8), (Lm_l_ld, word8), (Lm_l_next, word8),
     (Lm_l_prev, word8), (Lm_l_real, word8), (Lm_l_ns, word8), (Lm_l_libname, word8),
     (Lm_l_info, array_ty 84 word8), (Lm_l_phdr, word8), (Lm_l_entry, word8), (Lm_l_phnum, word2),
     (Lm_l_ldnum, word2), (Lm_pad_after_ldnum, word4), (Lm_reserved_tail, array_ty 56 word8)]"

datatype r_debug_field =
    Rd_version | Rd_map | Rd_brk | Rd_state | Rd_ldbase

definition r_debug_fields :: "r_debug_field c_field list" where
  "r_debug_fields = [(Rd_version, word4), (Rd_map, word8), (Rd_brk, word8), (Rd_state, word4), (Rd_ldbase, word8)]"

datatype rtld_debug_extended_field =
    De_base | De_next

definition rtld_debug_extended_fields :: "rtld_debug_extended_field c_field list" where
  "rtld_debug_extended_fields = [
     (De_base, struct_ty r_debug_fields), (De_next, word8)]"

datatype rtld_link_namespace_field =
    Ns_loaded | Ns_nloaded | Ns_padding_after_nloaded | Ns_main_searchlist | Ns_global_scope_alloc
  | Ns_global_scope_pending_adds | Ns_libc_map | Ns_unique_sym_table | Ns_debug

definition rtld_link_namespace_fields :: "rtld_link_namespace_field c_field list" where
  "rtld_link_namespace_fields = [
     (Ns_loaded, word8), (Ns_nloaded, word4), (Ns_padding_after_nloaded, word4),
     (Ns_main_searchlist, word8), (Ns_global_scope_alloc, word4),
     (Ns_global_scope_pending_adds, word4), (Ns_libc_map, word8),
     (Ns_unique_sym_table, struct_ty rtld_unique_sym_table_fields),
     (Ns_debug, struct_ty rtld_debug_extended_fields)]"

datatype rtld_audit_state_field =
    Au_cookie | Au_bindflags | Au_padding

definition rtld_audit_state_fields :: "rtld_audit_state_field c_field list" where
  "rtld_audit_state_fields = [
     (Au_cookie, word8), (Au_bindflags, word4), (Au_padding, word4)]"

datatype rtld_x86_feature_control_field =
    Fc_bits

definition rtld_x86_feature_control_fields :: "rtld_x86_feature_control_field c_field list" where
  "rtld_x86_feature_control_fields = [
     (Fc_bits, word4)]"

datatype rtld_global_field =
    G_ns | G_nns | G_load_lock | G_load_write_lock | G_load_tls_lock | G_load_adds | G_initfirst
  | G_profile_map | G_num_relocations | G_num_cache_relocations | G_all_dirs | G_rtld_map
  | G_rtld_auditstate | G_x86_feature_1 | G_x86_feature_control | G_stack_flags | G_tls_dtv_gaps
  | G_padding_after_tls_dtv_gaps | G_tls_max_dtv_idx | G_tls_dtv_slotinfo_list | G_tls_static_nelem
  | G_tls_static_used | G_tls_static_optional | G_initial_dtv | G_tls_generation
  | G_scope_free_list | G_stack_used | G_stack_user | G_stack_cache | G_stack_cache_actsize
  | G_in_flight_stack | G_stack_cache_lock | G_tail_padding

definition rtld_global_fields :: "rtld_global_field c_field list" where
  "rtld_global_fields = [
     (G_ns, array_ty DL_NNS (struct_ty rtld_link_namespace_fields)), (G_nns, word8),
     (G_load_lock, struct_ty rtld_recursive_lock_fields),
     (G_load_write_lock, struct_ty rtld_recursive_lock_fields),
     (G_load_tls_lock, struct_ty rtld_recursive_lock_fields), (G_load_adds, word8),
     (G_initfirst, word8), (G_profile_map, word8), (G_num_relocations, word8),
     (G_num_cache_relocations, word8), (G_all_dirs, word8),
     (G_rtld_map, struct_ty link_map_fields),
     (G_rtld_auditstate, array_ty DL_NNS (struct_ty rtld_audit_state_fields)),
     (G_x86_feature_1, word4),
     (G_x86_feature_control, struct_ty rtld_x86_feature_control_fields), (G_stack_flags, word4),
     (G_tls_dtv_gaps, byte1), (G_padding_after_tls_dtv_gaps, array_ty 3 byte1),
     (G_tls_max_dtv_idx, word8), (G_tls_dtv_slotinfo_list, word8),
     (G_tls_static_nelem, word8), (G_tls_static_used, word8),
     (G_tls_static_optional, word8), (G_initial_dtv, word8), (G_tls_generation, word8),
     (G_scope_free_list, word8), (G_stack_used, struct_ty rtld_list_fields),
     (G_stack_user, struct_ty rtld_list_fields), (G_stack_cache, struct_ty rtld_list_fields),
     (G_stack_cache_actsize, word8), (G_in_flight_stack, word8),
     (G_stack_cache_lock, word4), (G_tail_padding, word4)]"

datatype rtld_global_ro_field =
    Ro_debug_mask | Ro_padding_after_debug_mask | Ro_platform | Ro_platformlen | Ro_pagesize
  | Ro_minsigstacksize | Ro_inhibit_cache | Ro_padding_after_inhibit_cache | Ro_initial_searchlist
  | Ro_clktck | Ro_verbose | Ro_debug_fd | Ro_lazy | Ro_bind_not | Ro_dynamic_weak | Ro_fpu_control
  | Ro_padding_after_fpu_control | Ro_hwcap | Ro_auxv | Ro_x86_cpu_features | Ro_x86_hwcap_flags
  | Ro_x86_platforms | Ro_padding_after_x86_platforms | Ro_inhibit_rpath | Ro_origin_path
  | Ro_tls_static_size | Ro_tls_static_align | Ro_tls_static_surplus | Ro_profile
  | Ro_profile_output | Ro_init_all_dirs | Ro_sysinfo_dso | Ro_sysinfo_map
  | Ro_vdso_clock_gettime64 | Ro_vdso_gettimeofday | Ro_vdso_time | Ro_vdso_getcpu
  | Ro_vdso_clock_getres_time64 | Ro_hwcap2 | Ro_hwcap3 | Ro_hwcap4 | Ro_dso_sort_algo
  | Ro_padding_after_dso_sort_algo | Ro_debug_printf | Ro_mcount | Ro_lookup_symbol_x | Ro_open
  | Ro_close | Ro_catch_error | Ro_error_free | Ro_tls_get_addr_soft | Ro_libc_freeres
  | Ro_find_object | Ro_dlfcn_hook | Ro_audit | Ro_naudit | Ro_tail_padding

definition rtld_global_ro_fields :: "rtld_global_ro_field c_field list" where
  "rtld_global_ro_fields = [
     (Ro_debug_mask, word4), (Ro_padding_after_debug_mask, word4), (Ro_platform, word8),
     (Ro_platformlen, word8), (Ro_pagesize, word8), (Ro_minsigstacksize, word8),
     (Ro_inhibit_cache, word4), (Ro_padding_after_inhibit_cache, word4),
     (Ro_initial_searchlist, struct_ty rtld_scope_elem_fields), (Ro_clktck, word4),
     (Ro_verbose, word4), (Ro_debug_fd, word4), (Ro_lazy, word4), (Ro_bind_not, word4),
     (Ro_dynamic_weak, word4), (Ro_fpu_control, word2),
     (Ro_padding_after_fpu_control, array_ty 6 byte1), (Ro_hwcap, word8), (Ro_auxv, word8),
     (Ro_x86_cpu_features, array_ty X86_CPU_FEATURES_SIZE byte1),
     (Ro_x86_hwcap_flags, array_ty 3 (array_ty 9 byte1)),
     (Ro_x86_platforms, array_ty 4 (array_ty 9 byte1)), (Ro_padding_after_x86_platforms, byte1),
     (Ro_inhibit_rpath, word8), (Ro_origin_path, word8), (Ro_tls_static_size, word8),
     (Ro_tls_static_align, word8), (Ro_tls_static_surplus, word8), (Ro_profile, word8),
     (Ro_profile_output, word8), (Ro_init_all_dirs, word8), (Ro_sysinfo_dso, word8),
     (Ro_sysinfo_map, word8), (Ro_vdso_clock_gettime64, word8), (Ro_vdso_gettimeofday, word8),
     (Ro_vdso_time, word8), (Ro_vdso_getcpu, word8), (Ro_vdso_clock_getres_time64, word8),
     (Ro_hwcap2, word8), (Ro_hwcap3, word8), (Ro_hwcap4, word8),
     (Ro_dso_sort_algo, word4), (Ro_padding_after_dso_sort_algo, word4),
     (Ro_debug_printf, word8), (Ro_mcount, word8), (Ro_lookup_symbol_x, word8),
     (Ro_open, word8), (Ro_close, word8), (Ro_catch_error, word8), (Ro_error_free, word8),
     (Ro_tls_get_addr_soft, word8), (Ro_libc_freeres, word8), (Ro_find_object, word8),
     (Ro_dlfcn_hook, word8), (Ro_audit, word8), (Ro_naudit, word4), (Ro_tail_padding, word4)]"

section \<open>Initial values\<close>

definition at_field :: "'f c_field list \<Rightarrow> usize \<Rightarrow> 'f \<Rightarrow> usize" where
  "at_field fs p f = p + of_nat (offset_of fs f)"

text \<open>The values of \<open>RtldGlobal::new\<close> and \<open>RtldGlobalRo::new\<close> that are not zero.\<close>

definition put_recursive_lock :: "usize \<Rightarrow> memory \<Rightarrow> memory" where
  "put_recursive_lock p = put rtld_pthread_mutex_fields (at_field rtld_recursive_lock_fields p Lk_mutex)
     Mx_kind PTHREAD_MUTEX_RECURSIVE_NP"

definition namespace_at :: "usize \<Rightarrow> nat \<Rightarrow> usize" where
  "namespace_at g i = at_field rtld_global_fields g G_ns + of_nat (i * struct_size rtld_link_namespace_fields)"

definition rtld_global_new :: "usize \<Rightarrow> memory \<Rightarrow> memory" where
  "rtld_global_new g mem =
     (let mem = (\<lambda>x. if inside x g (struct_size rtld_global_fields) then 0 else mem x);
          mem = fold (\<lambda>i. put_recursive_lock (at_field rtld_unique_sym_table_fields
                  (at_field rtld_link_namespace_fields (namespace_at g i) Ns_unique_sym_table) Us_lock)) [0..<DL_NNS] mem;
          mem = put rtld_global_fields g G_nns 1 mem;
          mem = put_recursive_lock (at_field rtld_global_fields g G_load_lock) mem;
          mem = put_recursive_lock (at_field rtld_global_fields g G_load_write_lock) mem;
          mem = put_recursive_lock (at_field rtld_global_fields g G_load_tls_lock) mem
      in put rtld_global_fields g G_tls_generation 1 mem)"

fun store_bytes :: "usize \<Rightarrow> u8 list \<Rightarrow> memory \<Rightarrow> memory" where
  "store_bytes p [] mem = mem"
| "store_bytes p (b # bs) mem = store_bytes (p + 1) bs (mem(p := b))"

definition pad9 :: "string \<Rightarrow> u8 list" where
  "pad9 s = take 9 (map (\<lambda>c. of_char c) s @ replicate 9 0)"

definition X86_HWCAP_FLAGS :: "u8 list list" where
  "X86_HWCAP_FLAGS = [pad9 ''sse2'', pad9 ''x86_64'', pad9 ''avx512_1'']"

definition X86_PLATFORMS :: "u8 list list" where
  "X86_PLATFORMS = [pad9 ''i586'', pad9 ''i686'', pad9 ''haswell'', pad9 ''xeon_phi'']"

definition rtld_global_ro_new :: "usize \<Rightarrow> memory \<Rightarrow> memory" where
  "rtld_global_ro_new ro mem =
     (let mem = (\<lambda>x. if inside x ro (struct_size rtld_global_ro_fields) then 0 else mem x);
          mem = put rtld_global_ro_fields ro Ro_pagesize EXEC_PAGESIZE mem;
          mem = put rtld_global_ro_fields ro Ro_debug_fd STDERR_FILENO mem;
          mem = put rtld_global_ro_fields ro Ro_lazy 1 mem;
          mem = put rtld_global_ro_fields ro Ro_fpu_control FPU_DEFAULT mem;
          mem = store_bytes (at_field rtld_global_ro_fields ro Ro_x86_hwcap_flags) (concat X86_HWCAP_FLAGS) mem;
          mem = store_bytes (at_field rtld_global_ro_fields ro Ro_x86_platforms) (concat X86_PLATFORMS) mem
      in put rtld_global_ro_fields ro Ro_tls_static_align 1 mem)"

section \<open>Publishing\<close>

definition init_list :: "usize \<Rightarrow> memory \<Rightarrow> memory" where
  "init_list l mem = put rtld_list_fields l Rl_prev l (put rtld_list_fields l Rl_next l mem)"

definition put_r_debug :: "usize \<Rightarrow> r_debug \<Rightarrow> memory \<Rightarrow> memory" where
  "put_r_debug p d mem =
     (let mem = put r_debug_fields p Rd_version (word_of_int (rd_version d)) mem;
          mem = put r_debug_fields p Rd_map (rd_map d) mem;
          mem = put r_debug_fields p Rd_brk (case rd_brk d of Some f \<Rightarrow> f | None \<Rightarrow> 0) mem;
          mem = put r_debug_fields p Rd_state (word_of_int (rd_state d)) mem
      in put r_debug_fields p Rd_ldbase (rd_ldbase d) mem)"

definition put_debug_extended :: "usize \<Rightarrow> r_debug \<Rightarrow> memory \<Rightarrow> memory" where
  "put_debug_extended p d mem =
     put rtld_debug_extended_fields p De_next 0 (put_r_debug (at_field rtld_debug_extended_fields p De_base) d mem)"

definition rtld_global_publish :: "usize \<Rightarrow> usize \<Rightarrow> usize \<Rightarrow> r_debug \<Rightarrow> memory \<Rightarrow> memory" where
  "rtld_global_publish g main main_searchlist d mem =
     (let ns = namespace_at g 0;
          mem = put rtld_global_fields g G_nns 1 mem;
          mem = put rtld_global_fields g G_load_adds 2 mem;
          mem = put rtld_link_namespace_fields ns Ns_loaded main mem;
          mem = put rtld_link_namespace_fields ns Ns_nloaded 2 mem;
          mem = put rtld_link_namespace_fields ns Ns_main_searchlist main_searchlist mem;
          mem = put_debug_extended (at_field rtld_link_namespace_fields ns Ns_debug) d mem;
          mem = init_list (at_field rtld_global_fields g G_stack_used) mem;
          mem = init_list (at_field rtld_global_fields g G_stack_user) mem
      in init_list (at_field rtld_global_fields g G_stack_cache) mem)"

record rtld_global_ro_aux =
  ra_auxv :: usize
  ra_platform :: usize
  ra_pagesize :: usize
  ra_minsigstacksize :: usize
  ra_clktck :: usize
  ra_fpucw :: usize
  ra_hwcap :: usize
  ra_hwcap2 :: usize
  ra_hwcap3 :: usize
  ra_hwcap4 :: usize
  ra_sysinfo_ehdr :: usize

partial_function (option) c_strlen_from :: "memory \<Rightarrow> usize \<Rightarrow> usize \<Rightarrow> usize option" where
  "c_strlen_from mem p len = (if mem (p + len) = 0 then Some len else c_strlen_from mem p (len + 1))"

definition c_strlen :: "memory \<Rightarrow> usize \<Rightarrow> usize option" where
  "c_strlen mem p = (if p = 0 then Some 0 else c_strlen_from mem p 0)"

definition write_x86_cpu_usize :: "usize \<Rightarrow> usize \<Rightarrow> usize \<Rightarrow> memory \<Rightarrow> memory" where
  "write_x86_cpu_usize ro offset v mem =
     (if offset + 8 > of_nat X86_CPU_FEATURES_SIZE then mem
      else write_usize (at_field rtld_global_ro_fields ro Ro_x86_cpu_features + offset) v mem)"

definition x86_features_offset :: usize where
  "x86_features_offset = of_nat (offset_of rtld_global_ro_fields Ro_x86_cpu_features)"

definition publish_x86_cpu_defaults :: "usize \<Rightarrow> memory \<Rightarrow> memory" where
  "publish_x86_cpu_defaults ro mem =
     (let mem = write_x86_cpu_usize ro (0x1e0 - x86_features_offset) (32 * 1024) mem;
          mem = write_x86_cpu_usize ro (0x1e8 - x86_features_offset) (1024 * 1024) mem;
          mem = write_x86_cpu_usize ro (0x1f0 - x86_features_offset) (1024 * 1024) mem;
          mem = write_x86_cpu_usize ro (0x1f8 - x86_features_offset) (1024 * 1024) mem;
          mem = write_x86_cpu_usize ro (0x200 - x86_features_offset) (1024 * 1024) mem
      in write_x86_cpu_usize ro (0x208 - x86_features_offset) (1024 * 1024) mem)"

definition publish_tls_static_info :: "usize \<Rightarrow> usize \<Rightarrow> usize \<Rightarrow> memory \<Rightarrow> memory" where
  "publish_tls_static_info ro sz align mem =
     put rtld_global_ro_fields ro Ro_tls_static_align (max align 1)
       (put rtld_global_ro_fields ro Ro_tls_static_size sz mem)"

definition publish_searchlist :: "usize \<Rightarrow> usize \<Rightarrow> usize \<Rightarrow> usize \<Rightarrow> memory \<Rightarrow> memory" where
  "publish_searchlist ro searchlist main rtld mem =
     (let mem = write_usize searchlist main mem;
          mem = write_usize (searchlist + 8) rtld mem;
          scope = at_field rtld_global_ro_fields ro Ro_initial_searchlist;
          mem = put rtld_scope_elem_fields scope Se_list searchlist mem;
          mem = put rtld_scope_elem_fields scope Se_nlist 2 mem
      in put rtld_scope_elem_fields scope Se_padding 0 mem)"

definition rtld_global_ro_publish ::
  "usize \<Rightarrow> usize \<Rightarrow> usize \<Rightarrow> usize \<Rightarrow> rtld_global_ro_aux \<Rightarrow> memory \<Rightarrow> memory option" where
  "rtld_global_ro_publish ro searchlist main rtld aux mem =
     (let pagesize = (if ra_pagesize aux = 0 then EXEC_PAGESIZE else ra_pagesize aux);
          fpucw = (if ra_fpucw aux = 0 then FPU_DEFAULT else ra_fpucw aux);
          mem = put rtld_global_ro_fields ro Ro_platform (ra_platform aux) mem
      in case c_strlen mem (ra_platform aux) of
           None \<Rightarrow> None
         | Some len \<Rightarrow>
             (let mem = put rtld_global_ro_fields ro Ro_platformlen len mem;
                  mem = put rtld_global_ro_fields ro Ro_pagesize pagesize mem;
                  mem = put rtld_global_ro_fields ro Ro_minsigstacksize (ra_minsigstacksize aux) mem;
                  mem = put rtld_global_ro_fields ro Ro_clktck (ra_clktck aux) mem;
                  mem = put rtld_global_ro_fields ro Ro_fpu_control fpucw mem;
                  mem = put rtld_global_ro_fields ro Ro_hwcap (ra_hwcap aux) mem;
                  mem = put rtld_global_ro_fields ro Ro_auxv (ra_auxv aux) mem;
                  mem = put rtld_global_ro_fields ro Ro_sysinfo_dso (ra_sysinfo_ehdr aux) mem;
                  mem = put rtld_global_ro_fields ro Ro_sysinfo_map 0 mem;
                  mem = put rtld_global_ro_fields ro Ro_hwcap2 (ra_hwcap2 aux) mem;
                  mem = put rtld_global_ro_fields ro Ro_hwcap3 (ra_hwcap3 aux) mem;
                  mem = put rtld_global_ro_fields ro Ro_hwcap4 (ra_hwcap4 aux) mem;
                  mem = publish_x86_cpu_defaults ro mem
              in Some (publish_searchlist ro searchlist main rtld mem)))"

text \<open>Where the variables of the dynamic linker lie.\<close>

record rtld_statics =
  sv_rtld_global :: usize
  sv_rtld_global_ro :: usize
  sv_initial_searchlist :: usize
  sv_main_link_map :: usize
  sv_empty_name :: usize
  sv_rtld_name :: usize
  sv_dl_debug_state :: usize

definition rtld_link_map :: "rtld_statics \<Rightarrow> usize" where
  "rtld_link_map sv = at_field rtld_global_fields (sv_rtld_global sv) G_rtld_map"

definition rtld_x86_cpu_features :: "rtld_statics \<Rightarrow> usize" where
  "rtld_x86_cpu_features sv = at_field rtld_global_ro_fields (sv_rtld_global_ro sv) Ro_x86_cpu_features"

definition publish_rtld_globals ::
  "rtld_statics \<Rightarrow> usize \<Rightarrow> usize \<Rightarrow> r_debug \<Rightarrow> rtld_global_ro_aux \<Rightarrow> memory \<Rightarrow> memory option" where
  "publish_rtld_globals sv main rtld d aux mem =
     (let ro = sv_rtld_global_ro sv;
          mem = rtld_global_publish (sv_rtld_global sv) main (at_field rtld_global_ro_fields ro Ro_initial_searchlist) d mem
      in rtld_global_ro_publish ro (sv_initial_searchlist sv) main rtld aux mem)"

section \<open>Layout\<close>

lemmas basic_types = word8_def word4_def word2_def byte1_def array_ty_def round_up_def

lemma rtld_scope_elem_ty: "struct_ty rtld_scope_elem_fields = (16, 8)"
  unfolding struct_ty_def [of rtld_scope_elem_fields] struct_size_def [of rtld_scope_elem_fields] struct_align_def [of rtld_scope_elem_fields]
  by (simp add: rtld_scope_elem_fields_def basic_types)

lemma rtld_list_ty: "struct_ty rtld_list_fields = (16, 8)"
  unfolding struct_ty_def [of rtld_list_fields] struct_size_def [of rtld_list_fields] struct_align_def [of rtld_list_fields]
  by (simp add: rtld_list_fields_def basic_types)

lemma link_map_ty: "struct_ty link_map_fields = (1208, 8)"
  unfolding struct_ty_def [of link_map_fields] struct_size_def [of link_map_fields] struct_align_def [of link_map_fields]
  by (simp add: link_map_fields_def basic_types)

lemma r_debug_ty: "struct_ty r_debug_fields = (40, 8)"
  unfolding struct_ty_def [of r_debug_fields] struct_size_def [of r_debug_fields] struct_align_def [of r_debug_fields]
  by (simp add: r_debug_fields_def basic_types)

lemma rtld_audit_state_ty: "struct_ty rtld_audit_state_fields = (16, 8)"
  unfolding struct_ty_def [of rtld_audit_state_fields] struct_size_def [of rtld_audit_state_fields] struct_align_def [of rtld_audit_state_fields]
  by (simp add: rtld_audit_state_fields_def basic_types)

lemma rtld_x86_feature_control_ty: "struct_ty rtld_x86_feature_control_fields = (4, 4)"
  unfolding struct_ty_def [of rtld_x86_feature_control_fields] struct_size_def [of rtld_x86_feature_control_fields] struct_align_def [of rtld_x86_feature_control_fields]
  by (simp add: rtld_x86_feature_control_fields_def basic_types)

lemma rtld_pthread_mutex_ty: "struct_ty rtld_pthread_mutex_fields = (40, 8)"
  unfolding struct_ty_def [of rtld_pthread_mutex_fields] struct_size_def [of rtld_pthread_mutex_fields] struct_align_def [of rtld_pthread_mutex_fields]
  by (simp add: rtld_pthread_mutex_fields_def basic_types rtld_list_ty)

lemma rtld_recursive_lock_ty: "struct_ty rtld_recursive_lock_fields = (40, 8)"
  unfolding struct_ty_def [of rtld_recursive_lock_fields] struct_size_def [of rtld_recursive_lock_fields] struct_align_def [of rtld_recursive_lock_fields]
  by (simp add: rtld_recursive_lock_fields_def basic_types rtld_pthread_mutex_ty)

lemma rtld_unique_sym_table_ty: "struct_ty rtld_unique_sym_table_fields = (72, 8)"
  unfolding struct_ty_def [of rtld_unique_sym_table_fields] struct_size_def [of rtld_unique_sym_table_fields] struct_align_def [of rtld_unique_sym_table_fields]
  by (simp add: rtld_unique_sym_table_fields_def basic_types rtld_recursive_lock_ty)

lemma rtld_debug_extended_ty: "struct_ty rtld_debug_extended_fields = (48, 8)"
  unfolding struct_ty_def [of rtld_debug_extended_fields] struct_size_def [of rtld_debug_extended_fields] struct_align_def [of rtld_debug_extended_fields]
  by (simp add: rtld_debug_extended_fields_def basic_types r_debug_ty)

lemma rtld_link_namespace_ty: "struct_ty rtld_link_namespace_fields = (160, 8)"
  unfolding struct_ty_def [of rtld_link_namespace_fields] struct_size_def [of rtld_link_namespace_fields] struct_align_def [of rtld_link_namespace_fields]
  by (simp add: rtld_link_namespace_fields_def basic_types rtld_unique_sym_table_ty rtld_debug_extended_ty)

lemmas field_types = basic_types rtld_scope_elem_ty rtld_list_ty link_map_ty r_debug_ty rtld_audit_state_ty
  rtld_x86_feature_control_ty rtld_pthread_mutex_ty rtld_recursive_lock_ty rtld_unique_sym_table_ty
  rtld_debug_extended_ty rtld_link_namespace_ty

text \<open>The placement of the fields: name, offset and size.\<close>

lemma rg_placed:
  "placed 0 rtld_global_fields = [(G_ns, 0, 2560), (G_nns, 2560, 8), (G_load_lock, 2568, 40),
     (G_load_write_lock, 2608, 40), (G_load_tls_lock, 2648, 40), (G_load_adds, 2688, 8),
     (G_initfirst, 2696, 8), (G_profile_map, 2704, 8), (G_num_relocations, 2712, 8),
     (G_num_cache_relocations, 2720, 8), (G_all_dirs, 2728, 8), (G_rtld_map, 2736, 1208),
     (G_rtld_auditstate, 3944, 256), (G_x86_feature_1, 4200, 4), (G_x86_feature_control, 4204, 4),
     (G_stack_flags, 4208, 4), (G_tls_dtv_gaps, 4212, 1), (G_padding_after_tls_dtv_gaps, 4213, 3),
     (G_tls_max_dtv_idx, 4216, 8), (G_tls_dtv_slotinfo_list, 4224, 8), (G_tls_static_nelem, 4232, 8),
     (G_tls_static_used, 4240, 8), (G_tls_static_optional, 4248, 8), (G_initial_dtv, 4256, 8),
     (G_tls_generation, 4264, 8), (G_scope_free_list, 4272, 8), (G_stack_used, 4280, 16),
     (G_stack_user, 4296, 16), (G_stack_cache, 4312, 16), (G_stack_cache_actsize, 4328, 8),
     (G_in_flight_stack, 4336, 8), (G_stack_cache_lock, 4344, 4), (G_tail_padding, 4348, 4)]"
  by (simp add: rtld_global_fields_def field_types DL_NNS_def)

lemma rg_size: "struct_size rtld_global_fields = 4352" "aligns_ok rtld_global_fields"
  unfolding struct_size_def [of rtld_global_fields] struct_align_def [of rtld_global_fields]
  by (simp_all add: rtld_global_fields_def field_types DL_NNS_def aligns_ok_def)

lemma ro_size: "struct_size rtld_global_ro_fields = 952" "aligns_ok rtld_global_ro_fields"
  unfolding struct_size_def [of rtld_global_ro_fields] struct_align_def [of rtld_global_ro_fields]
  by (simp_all add: rtld_global_ro_fields_def field_types X86_CPU_FEATURES_SIZE_def aligns_ok_def)

lemma ns_size: "struct_size rtld_link_namespace_fields = 160" "aligns_ok rtld_link_namespace_fields"
proof -
  show "struct_size rtld_link_namespace_fields = 160" using rtld_link_namespace_ty by (simp add: struct_ty_def)
  show "aligns_ok rtld_link_namespace_fields" by (simp add: aligns_ok_def rtld_link_namespace_fields_def field_types)
qed

lemma sc_size: "struct_size rtld_scope_elem_fields = 16" "aligns_ok rtld_scope_elem_fields"
  using rtld_scope_elem_ty by (simp_all add: struct_ty_def aligns_ok_def rtld_scope_elem_fields_def field_types)

lemma rl_size: "struct_size rtld_list_fields = 16" "aligns_ok rtld_list_fields"
  using rtld_list_ty by (simp_all add: struct_ty_def aligns_ok_def rtld_list_fields_def field_types)

interpretation rg: struct_layout rtld_global_fields
  by unfold_locales (simp_all add: rg_size)

interpretation ro: struct_layout rtld_global_ro_fields
  by unfold_locales (simp_all add: ro_size)

interpretation ns: struct_layout rtld_link_namespace_fields
  by unfold_locales (simp_all add: ns_size)

interpretation sc: struct_layout rtld_scope_elem_fields
  by unfold_locales (simp_all add: sc_size)

interpretation rl: struct_layout rtld_list_fields
  by unfold_locales (simp_all add: rl_size)

lemma all_fields [simp]:
  "f1 \<in> fst ` set rtld_global_fields" "f2 \<in> fst ` set rtld_global_ro_fields"
  "f3 \<in> fst ` set rtld_link_namespace_fields" "f4 \<in> fst ` set rtld_scope_elem_fields"
  "f5 \<in> fst ` set rtld_list_fields"
proof -
  show "f1 \<in> fst ` set rtld_global_fields" by (cases f1) (simp_all add: rtld_global_fields_def)
  show "f2 \<in> fst ` set rtld_global_ro_fields" by (cases f2) (simp_all add: rtld_global_ro_fields_def)
  show "f3 \<in> fst ` set rtld_link_namespace_fields" by (cases f3) (simp_all add: rtld_link_namespace_fields_def)
  show "f4 \<in> fst ` set rtld_scope_elem_fields" by (cases f4) (simp_all add: rtld_scope_elem_fields_def)
  show "f5 \<in> fst ` set rtld_list_fields" by (cases f5) (simp_all add: rtld_list_fields_def)
qed

lemma ro_placed:
  "placed 0 rtld_global_ro_fields = [(Ro_debug_mask, 0, 4), (Ro_padding_after_debug_mask, 4, 4),
     (Ro_platform, 8, 8), (Ro_platformlen, 16, 8), (Ro_pagesize, 24, 8), (Ro_minsigstacksize, 32, 8),
     (Ro_inhibit_cache, 40, 4), (Ro_padding_after_inhibit_cache, 44, 4), (Ro_initial_searchlist, 48, 16),
     (Ro_clktck, 64, 4), (Ro_verbose, 68, 4), (Ro_debug_fd, 72, 4), (Ro_lazy, 76, 4), (Ro_bind_not, 80, 4),
     (Ro_dynamic_weak, 84, 4), (Ro_fpu_control, 88, 2), (Ro_padding_after_fpu_control, 90, 6),
     (Ro_hwcap, 96, 8), (Ro_auxv, 104, 8), (Ro_x86_cpu_features, 112, 520), (Ro_x86_hwcap_flags, 632, 27),
     (Ro_x86_platforms, 659, 36), (Ro_padding_after_x86_platforms, 695, 1), (Ro_inhibit_rpath, 696, 8),
     (Ro_origin_path, 704, 8), (Ro_tls_static_size, 712, 8), (Ro_tls_static_align, 720, 8),
     (Ro_tls_static_surplus, 728, 8), (Ro_profile, 736, 8), (Ro_profile_output, 744, 8),
     (Ro_init_all_dirs, 752, 8), (Ro_sysinfo_dso, 760, 8), (Ro_sysinfo_map, 768, 8),
     (Ro_vdso_clock_gettime64, 776, 8), (Ro_vdso_gettimeofday, 784, 8), (Ro_vdso_time, 792, 8),
     (Ro_vdso_getcpu, 800, 8), (Ro_vdso_clock_getres_time64, 808, 8), (Ro_hwcap2, 816, 8),
     (Ro_hwcap3, 824, 8), (Ro_hwcap4, 832, 8), (Ro_dso_sort_algo, 840, 4),
     (Ro_padding_after_dso_sort_algo, 844, 4), (Ro_debug_printf, 848, 8), (Ro_mcount, 856, 8),
     (Ro_lookup_symbol_x, 864, 8), (Ro_open, 872, 8), (Ro_close, 880, 8), (Ro_catch_error, 888, 8),
     (Ro_error_free, 896, 8), (Ro_tls_get_addr_soft, 904, 8), (Ro_libc_freeres, 912, 8),
     (Ro_find_object, 920, 8), (Ro_dlfcn_hook, 928, 8), (Ro_audit, 936, 8), (Ro_naudit, 944, 4),
     (Ro_tail_padding, 948, 4)]"
  by (simp add: rtld_global_ro_fields_def field_types X86_CPU_FEATURES_SIZE_def)

lemma global_sizes [simp]:
  "size_of rtld_global_fields G_ns = 2560" "size_of rtld_global_fields G_nns = 8"
  "size_of rtld_global_fields G_load_adds = 8" "size_of rtld_global_fields G_stack_used = 16"
  "size_of rtld_global_fields G_stack_user = 16" "size_of rtld_global_fields G_stack_cache = 16"
  by (simp_all add: size_of_def field_of_def rg_placed)

lemma ro_sizes [simp]:
  "size_of rtld_global_ro_fields Ro_platform = 8" "size_of rtld_global_ro_fields Ro_platformlen = 8"
  "size_of rtld_global_ro_fields Ro_pagesize = 8" "size_of rtld_global_ro_fields Ro_minsigstacksize = 8"
  "size_of rtld_global_ro_fields Ro_clktck = 4" "size_of rtld_global_ro_fields Ro_fpu_control = 2"
  "size_of rtld_global_ro_fields Ro_hwcap = 8" "size_of rtld_global_ro_fields Ro_auxv = 8"
  "size_of rtld_global_ro_fields Ro_sysinfo_dso = 8" "size_of rtld_global_ro_fields Ro_sysinfo_map = 8"
  "size_of rtld_global_ro_fields Ro_hwcap2 = 8" "size_of rtld_global_ro_fields Ro_hwcap3 = 8"
  "size_of rtld_global_ro_fields Ro_hwcap4 = 8" "size_of rtld_global_ro_fields Ro_initial_searchlist = 16"
  "size_of rtld_global_ro_fields Ro_x86_cpu_features = 520" "size_of rtld_global_ro_fields Ro_tls_static_size = 8"
  "size_of rtld_global_ro_fields Ro_tls_static_align = 8"
  by (simp_all add: size_of_def field_of_def ro_placed)

lemma small_sizes [simp]:
  "size_of rtld_link_namespace_fields Ns_loaded = 8" "size_of rtld_link_namespace_fields Ns_nloaded = 4"
  "size_of rtld_link_namespace_fields Ns_main_searchlist = 8" "size_of rtld_link_namespace_fields Ns_debug = 48"
  "size_of rtld_scope_elem_fields Se_list = 8" "size_of rtld_scope_elem_fields Se_nlist = 4"
  "size_of rtld_list_fields Rl_next = 8" "size_of rtld_list_fields Rl_prev = 8"
  by (simp_all add: size_of_def field_of_def rtld_link_namespace_fields_def rtld_scope_elem_fields_def
      rtld_list_fields_def field_types)

lemma take_bit_64 [simp]: "take_bit 64 (v :: usize) = v"
  by (rule bit_eqI) (auto simp: bit_take_bit_iff possible_bit_word)

section \<open>What is written where\<close>

definition disjoint_regions :: "usize \<Rightarrow> nat \<Rightarrow> usize \<Rightarrow> nat \<Rightarrow> bool" where
  "disjoint_regions p n q m \<longleftrightarrow> (\<forall>x. inside x p n \<longrightarrow> \<not> inside x q m)"

lemma disjoint_regionsI:
  assumes "unat p + n \<le> unat q" "unat q + m \<le> 2 ^ 64"
  shows "disjoint_regions p n q m"
proof -
  have "inside x p (unat (q - p)) \<Longrightarrow> \<not> inside x q m" for x
  proof -
    assume x: "inside x p (unat (q - p))"
    have "unat (q - p) = unat q - unat p" using assms(1) by (intro unat_sub) (simp add: word_le_nat_alt)
    then have "unat (q - p) + m \<le> 2 ^ 64" using assms by linarith
    from before_disjoint [OF x this] show ?thesis by simp
  qed
  moreover have "n \<le> unat (q - p)"
    using assms(1) unat_sub [of p q] by (simp add: word_le_nat_alt)
  ultimately show ?thesis unfolding disjoint_regions_def inside_def by (meson less_le_trans)
qed

lemma disjoint_regions_sym: "disjoint_regions p n q m \<Longrightarrow> disjoint_regions q m p n"
  by (auto simp: disjoint_regions_def)

lemma init_list_changes: "changes_only l 16 (init_list l)"
  by (simp add: changes_only_def init_list_def rl.put_outside rl_size)

lemma r_debug_layout: "struct_layout r_debug_fields" "struct_size r_debug_fields = 40" "f \<in> fst ` set r_debug_fields"
proof -
  show sz: "struct_size r_debug_fields = 40" using r_debug_ty by (simp add: struct_ty_def)
  show "struct_layout r_debug_fields"
    by unfold_locales (simp_all add: sz, simp add: aligns_ok_def r_debug_fields_def field_types)
  show "f \<in> fst ` set r_debug_fields" by (cases f) (simp_all add: r_debug_fields_def)
qed

lemma put_r_debug_changes: "changes_only p 40 (put_r_debug p d)"
  by (simp add: changes_only_def put_r_debug_def Let_def struct_layout.put_outside [OF r_debug_layout(1,3)] r_debug_layout(2))

lemma put_debug_extended_changes: "changes_only p 48 (put_debug_extended p d)"
proof -
  have off: "field_of rtld_debug_extended_fields De_base = (0, 40)" "field_of rtld_debug_extended_fields De_next = (40, 8)"
    by (simp_all add: field_of_def rtld_debug_extended_fields_def field_types)
  have "changes_only p 48 (put_r_debug p d)"
    using changes_mono [of p 0 40 "put_r_debug p d" 48] put_r_debug_changes by simp
  moreover have "changes_only p 48 (put rtld_debug_extended_fields p De_next 0)"
    unfolding put_def [abs_def]
    by (rule changes_mono [OF changes_store]) (simp add: offset_of_def size_of_def off)
  ultimately show ?thesis
    unfolding put_debug_extended_def [abs_def] at_field_def by (simp add: offset_of_def off changes_comp)
qed

lemma write_x86_changes:
  assumes "unat offset \<le> 512"
  shows "changes_only (at_field rtld_global_ro_fields p Ro_x86_cpu_features) 520 (write_x86_cpu_usize p offset v)"
proof -
  have "changes_only (at_field rtld_global_ro_fields p Ro_x86_cpu_features) 520
      (write_usize (at_field rtld_global_ro_fields p Ro_x86_cpu_features + of_nat (unat offset)) v)"
    by (rule changes_mono [OF changes_write]) (use assms in simp)
  then show ?thesis by (auto simp: changes_only_def write_x86_cpu_usize_def)
qed

lemma x86_offset: "x86_features_offset = 112"
  by (simp add: x86_features_offset_def offset_of_def field_of_def ro_placed)

lemma publish_x86_changes:
  "changes_only (at_field rtld_global_ro_fields p Ro_x86_cpu_features) 520 (publish_x86_cpu_defaults p)"
  by (simp add: changes_only_def publish_x86_cpu_defaults_def Let_def x86_offset changes_onlyD [OF write_x86_changes])

lemma slot_changes: "k \<le> 8 \<Longrightarrow> changes_only sl 16 (write_usize (sl + of_nat k) v)"
  by (rule changes_mono [OF changes_write]) simp

lemma searchlist_get:
  assumes "g \<noteq> Ro_initial_searchlist" "disjoint_regions p 952 sl 16"
  shows "get rtld_global_ro_fields p g (publish_searchlist p sl main rtld mem) = get rtld_global_ro_fields p g mem"
proof -
  have sc: "get rtld_global_ro_fields p g (put rtld_scope_elem_fields (at_field rtld_global_ro_fields p Ro_initial_searchlist) f v mem) =
      get rtld_global_ro_fields p g mem" for f v mem
    unfolding at_field_def
    by (rule ro.get_field_other [where f = Ro_initial_searchlist]) (use assms(1) sc.put_changes_struct [of f] in \<open>auto simp: sc_size\<close>)
  have "get rtld_global_ro_fields p g (write_usize (sl + of_nat k) v mem) = get rtld_global_ro_fields p g mem" if "k \<le> 8" for k v mem
    by (rule ro.get_changes [OF slot_changes [OF that]])
      (use assms(2) in \<open>simp_all add: disjoint_regions_def ro_size\<close>)
  from this [of 0] this [of 8] show ?thesis by (simp add: publish_searchlist_def Let_def sc)
qed

lemma x86_get:
  assumes "g \<noteq> Ro_x86_cpu_features"
  shows "get rtld_global_ro_fields p g (publish_x86_cpu_defaults p mem) = get rtld_global_ro_fields p g mem"
  by (rule ro.get_field_other [where f = Ro_x86_cpu_features])
    (use assms publish_x86_changes [of p] in \<open>simp_all add: at_field_def\<close>)

lemma ro_publish_cases:
  assumes "rtld_global_ro_publish p sl main rtld aux mem = Some mem'"
  obtains len mem1 where
    "c_strlen (put rtld_global_ro_fields p Ro_platform (ra_platform aux) mem) (ra_platform aux) = Some len"
    "mem' = publish_searchlist p sl main rtld (publish_x86_cpu_defaults p mem1)"
    "mem1 = put rtld_global_ro_fields p Ro_hwcap4 (ra_hwcap4 aux) (put rtld_global_ro_fields p Ro_hwcap3 (ra_hwcap3 aux)
      (put rtld_global_ro_fields p Ro_hwcap2 (ra_hwcap2 aux) (put rtld_global_ro_fields p Ro_sysinfo_map 0
      (put rtld_global_ro_fields p Ro_sysinfo_dso (ra_sysinfo_ehdr aux) (put rtld_global_ro_fields p Ro_auxv (ra_auxv aux)
      (put rtld_global_ro_fields p Ro_hwcap (ra_hwcap aux)
      (put rtld_global_ro_fields p Ro_fpu_control (if ra_fpucw aux = 0 then FPU_DEFAULT else ra_fpucw aux)
      (put rtld_global_ro_fields p Ro_clktck (ra_clktck aux) (put rtld_global_ro_fields p Ro_minsigstacksize (ra_minsigstacksize aux)
      (put rtld_global_ro_fields p Ro_pagesize (if ra_pagesize aux = 0 then EXEC_PAGESIZE else ra_pagesize aux)
      (put rtld_global_ro_fields p Ro_platformlen len (put rtld_global_ro_fields p Ro_platform (ra_platform aux) mem))))))))))))"
  using assms unfolding rtld_global_ro_publish_def Let_def by (auto split: option.splits)

text \<open>The variables the auxiliary vector fills.\<close>

definition ro_holds :: "usize \<Rightarrow> rtld_global_ro_aux \<Rightarrow> memory \<Rightarrow> bool" where
  "ro_holds p aux mem \<longleftrightarrow>
     get rtld_global_ro_fields p Ro_platform mem = ra_platform aux \<and>
     get rtld_global_ro_fields p Ro_pagesize mem = (if ra_pagesize aux = 0 then 4096 else ra_pagesize aux) \<and>
     get rtld_global_ro_fields p Ro_minsigstacksize mem = ra_minsigstacksize aux \<and>
     get rtld_global_ro_fields p Ro_clktck mem = take_bit 32 (ra_clktck aux) \<and>
     get rtld_global_ro_fields p Ro_fpu_control mem = (if ra_fpucw aux = 0 then 0x37f else take_bit 16 (ra_fpucw aux)) \<and>
     get rtld_global_ro_fields p Ro_auxv mem = ra_auxv aux \<and>
     get rtld_global_ro_fields p Ro_sysinfo_dso mem = ra_sysinfo_ehdr aux \<and>
     get rtld_global_ro_fields p Ro_sysinfo_map mem = 0 \<and>
     get rtld_global_ro_fields p Ro_hwcap mem = ra_hwcap aux \<and>
     get rtld_global_ro_fields p Ro_hwcap2 mem = ra_hwcap2 aux \<and>
     get rtld_global_ro_fields p Ro_hwcap3 mem = ra_hwcap3 aux \<and>
     get rtld_global_ro_fields p Ro_hwcap4 mem = ra_hwcap4 aux"

lemma ro_publish_holds:
  assumes "rtld_global_ro_publish p sl main rtld aux mem = Some mem'" "disjoint_regions p 952 sl 16"
  shows "ro_holds p aux mem'"
  using assms(1)
proof (cases rule: ro_publish_cases)
  case (1 len mem1)
  have "get rtld_global_ro_fields p g mem' = get rtld_global_ro_fields p g mem1"
    if "g \<noteq> Ro_initial_searchlist" "g \<noteq> Ro_x86_cpu_features" for g
    using that assms(2) by (simp add: 1(2) searchlist_get x86_get)
  then show ?thesis
    unfolding ro_holds_def 1(3) by (simp add: ro.get_put_other ro.get_put_same EXEC_PAGESIZE_def FPU_DEFAULT_def)
qed

lemma searchlist_load:
  assumes "disjoint_regions p 952 sl 16" "k + m \<le> 520"
  shows "load_le m (publish_searchlist p sl main rtld mem) (at_field rtld_global_ro_fields p Ro_x86_cpu_features + of_nat k) =
    load_le m mem (at_field rtld_global_ro_fields p Ro_x86_cpu_features + of_nat k)"
proof -
  let ?a = "at_field rtld_global_ro_fields p Ro_x86_cpu_features + of_nat k"
  have sc: "load_le m (put rtld_scope_elem_fields (at_field rtld_global_ro_fields p Ro_initial_searchlist) f v mem) ?a =
      load_le m mem ?a" for f v mem
    unfolding at_field_def
    by (rule ro.load_field_other [where f = Ro_initial_searchlist])
      (use assms(2) sc.put_changes_struct [of f] in \<open>auto simp: sc_size\<close>)
  have "load_le m (write_usize (sl + of_nat j) v mem) ?a = load_le m mem ?a" if "j \<le> 8" for j v mem
  proof (rule load_changes [OF slot_changes [OF that]])
    fix x assume "inside x ?a m"
    then have "inside x (p + of_nat (112 + k)) m"
      by (simp add: at_field_def offset_of_def field_of_def ro_placed add.assoc)
    then have "inside x p 952" by (rule inside_mono) (use assms(2) in simp)
    with assms(1) show "\<not> inside x sl 16" by (simp add: disjoint_regions_def)
  qed
  from this [of 0] this [of 8] show ?thesis by (simp add: publish_searchlist_def Let_def sc)
qed

lemma x86_values:
  assumes "disjoint_regions p 952 sl 16"
  shows "words_at (publish_searchlist p sl main rtld (publish_x86_cpu_defaults p mem)) (p + 0x1e0)
    [0x8000, 0x100000, 0x100000, 0x100000, 0x100000, 0x100000]"
proof -
  have at: "at_field rtld_global_ro_fields p Ro_x86_cpu_features = p + 112"
    by (simp add: at_field_def offset_of_def field_of_def ro_placed)
  let ?m = "publish_searchlist p sl main rtld (publish_x86_cpu_defaults p mem)"
  have rd: "read_usize ?m (p + of_nat (0x1e0 + 8 * i)) = read_usize (publish_x86_cpu_defaults p mem) (p + of_nat (0x1e0 + 8 * i))"
    if "i < 6" for i
    using searchlist_load [OF assms, of "368 + 8 * i" 8 main rtld "publish_x86_cpu_defaults p mem"] that
    by (simp add: at read_usize_def add.assoc)
  have comm: "480 + p = p + 480" by simp
  have "words_at (publish_x86_cpu_defaults p mem) (p + 0x1e0) [0x8000, 0x100000, 0x100000, 0x100000, 0x100000, 0x100000]"
    by (simp add: publish_x86_cpu_defaults_def x86_offset Let_def write_x86_cpu_usize_def X86_CPU_FEATURES_SIZE_def at
        read_write_other apart_def comm)
  then show ?thesis
    using rd [of 0] rd [of 1] rd [of 2] rd [of 3] rd [of 4] rd [of 5] by (simp add: add.assoc)
qed

lemma searchlist_published:
  assumes "disjoint_regions p 952 sl 16"
  shows "words_at (publish_searchlist p sl main rtld mem) sl [main, rtld]"
    "get rtld_scope_elem_fields (at_field rtld_global_ro_fields p Ro_initial_searchlist) Se_list
       (publish_searchlist p sl main rtld mem) = sl"
    "get rtld_scope_elem_fields (at_field rtld_global_ro_fields p Ro_initial_searchlist) Se_nlist
       (publish_searchlist p sl main rtld mem) = 2"
proof -
  let ?s = "at_field rtld_global_ro_fields p Ro_initial_searchlist"
  have out: "put rtld_scope_elem_fields ?s f v mem x = mem x" if "inside x sl 16" for f v mem x
  proof (rule sc.put_outside)
    have "\<not> inside x p 952" using assms that by (auto simp: disjoint_regions_def)
    then show "\<not> inside x ?s (struct_size rtld_scope_elem_fields)"
      using inside_mono [of x p 48 16 952] by (auto simp: at_field_def offset_of_def field_of_def ro_placed sc_size)
  qed simp
  have "words_at (publish_searchlist p sl main rtld mem) sl [main, rtld] =
      words_at (write_usize (sl + 8) rtld (write_usize sl main mem)) sl [main, rtld]"
    by (rule words_frame) (simp add: publish_searchlist_def Let_def out)
  then show "words_at (publish_searchlist p sl main rtld mem) sl [main, rtld]"
    by (simp add: read_write_other apart_def)
  show "get rtld_scope_elem_fields ?s Se_list (publish_searchlist p sl main rtld mem) = sl"
    "get rtld_scope_elem_fields ?s Se_nlist (publish_searchlist p sl main rtld mem) = 2"
    by (simp_all add: publish_searchlist_def Let_def sc.get_put_other sc.get_put_same)
qed

lemma ro_publish_outside:
  assumes "rtld_global_ro_publish p sl main rtld aux mem = Some mem'" "\<not> inside x p 952" "\<not> inside x sl 16"
  shows "mem' x = mem x"
  using assms(1)
proof (cases rule: ro_publish_cases)
  case (1 len mem1)
  have "\<not> inside x (at_field rtld_global_ro_fields p Ro_initial_searchlist) 16"
    "\<not> inside x (at_field rtld_global_ro_fields p Ro_x86_cpu_features) 520"
    using inside_mono [of x p 48 16 952] inside_mono [of x p 112 520 952] assms(2)
    by (auto simp: at_field_def offset_of_def field_of_def ro_placed)
  moreover have "\<not> inside x sl 8" "\<not> inside x (sl + 8) 8"
    using inside_mono [of x sl 0 8 16] inside_mono [of x sl 8 8 16] assms(3) by auto
  ultimately show ?thesis using assms(2)
    by (simp add: 1(2,3) publish_searchlist_def Let_def sc.put_outside sc_size write_frame
        changes_onlyD [OF publish_x86_changes] ro.put_outside ro_size)
qed

text \<open>The variables of \<open>_rtld_global\<close>: one namespace with two objects, empty lists of stacks.\<close>

definition empty_list_at :: "usize \<Rightarrow> memory \<Rightarrow> bool" where
  "empty_list_at l mem \<longleftrightarrow> get rtld_list_fields l Rl_next mem = l \<and> get rtld_list_fields l Rl_prev mem = l"

definition global_holds :: "usize \<Rightarrow> usize \<Rightarrow> usize \<Rightarrow> memory \<Rightarrow> bool" where
  "global_holds g main main_searchlist mem \<longleftrightarrow>
     get rtld_global_fields g G_nns mem = 1 \<and> get rtld_global_fields g G_load_adds mem = 2 \<and>
     get rtld_link_namespace_fields (namespace_at g 0) Ns_loaded mem = main \<and>
     get rtld_link_namespace_fields (namespace_at g 0) Ns_nloaded mem = 2 \<and>
     get rtld_link_namespace_fields (namespace_at g 0) Ns_main_searchlist mem = main_searchlist \<and>
     empty_list_at (at_field rtld_global_fields g G_stack_used) mem \<and>
     empty_list_at (at_field rtld_global_fields g G_stack_user) mem \<and>
     empty_list_at (at_field rtld_global_fields g G_stack_cache) mem"

lemma namespace_0: "namespace_at g 0 = g + of_nat (offset_of rtld_global_fields G_ns) + of_nat 0"
  by (simp add: namespace_at_def at_field_def)

lemma namespace_changes:
  "changes_only (g + of_nat (offset_of rtld_global_fields G_ns)) 2560 (put rtld_link_namespace_fields (namespace_at g 0) f v)"
  unfolding namespace_0 by (rule changes_mono [OF ns.put_changes_struct]) (simp_all add: ns_size)

lemma debug_changes:
  "changes_only (namespace_at g 0 + of_nat (offset_of rtld_link_namespace_fields Ns_debug)) 48
     (put_debug_extended (at_field rtld_link_namespace_fields (namespace_at g 0) Ns_debug) d)"
  unfolding at_field_def by (rule put_debug_extended_changes)

lemma debug_changes_global:
  "changes_only (g + of_nat (offset_of rtld_global_fields G_ns)) 2560
     (put_debug_extended (at_field rtld_link_namespace_fields (namespace_at g 0) Ns_debug) d)"
proof -
  have "changes_only (namespace_at g 0) 2560
      (put_debug_extended (at_field rtld_link_namespace_fields (namespace_at g 0) Ns_debug) d)"
    by (rule changes_mono [OF debug_changes]) (use ns.field_fits [of Ns_debug] in \<open>simp add: ns_size\<close>)
  then show ?thesis by (simp add: namespace_at_def at_field_def)
qed

lemma list_changes:
  "changes_only (g + of_nat (offset_of rtld_global_fields f)) 16 (init_list (at_field rtld_global_fields g f))"
  unfolding at_field_def by (rule init_list_changes)

lemma global_get_nested:
  "g' \<noteq> G_ns \<Longrightarrow> get rtld_global_fields g g' (put rtld_link_namespace_fields (namespace_at g 0) f v mem) = get rtld_global_fields g g' mem"
  "g' \<noteq> G_ns \<Longrightarrow> get rtld_global_fields g g' (put_debug_extended (at_field rtld_link_namespace_fields (namespace_at g 0) Ns_debug) d mem) =
     get rtld_global_fields g g' mem"
  "l \<in> {G_stack_used, G_stack_user, G_stack_cache} \<Longrightarrow> g' \<noteq> l \<Longrightarrow>
     get rtld_global_fields g g' (init_list (at_field rtld_global_fields g l) mem) = get rtld_global_fields g g' mem"
  using rg.get_field_other [of g G_ns _ g'] rg.get_field_other [of g l _ g'] namespace_changes debug_changes_global
    list_changes [of g l] by auto

lemma namespace_get_list:
  assumes "l \<in> {G_stack_used, G_stack_user, G_stack_cache}"
  shows "get rtld_link_namespace_fields (namespace_at g 0) h (init_list (at_field rtld_global_fields g l) mem) =
    get rtld_link_namespace_fields (namespace_at g 0) h mem"
  unfolding namespace_0
  by (rule get_nested [OF rg.struct_layout_axioms ns.struct_layout_axioms, where f = l])
    (use assms list_changes [of g l] in \<open>auto simp: ns_size\<close>)

lemma namespace_get_debug:
  assumes "h \<noteq> Ns_debug"
  shows "get rtld_link_namespace_fields (namespace_at g 0) h
      (put_debug_extended (at_field rtld_link_namespace_fields (namespace_at g 0) Ns_debug) d mem) =
    get rtld_link_namespace_fields (namespace_at g 0) h mem"
  by (rule ns.get_field_other [where f = Ns_debug]) (use assms debug_changes in simp_all)

lemma list_at_other:
  assumes "l \<in> {G_stack_used, G_stack_user, G_stack_cache}" "l' \<in> {G_stack_used, G_stack_user, G_stack_cache}" "l \<noteq> l'"
  shows "empty_list_at (at_field rtld_global_fields g l') (init_list (at_field rtld_global_fields g l) mem) =
    empty_list_at (at_field rtld_global_fields g l') mem"
proof -
  have "get rtld_list_fields (g + of_nat (offset_of rtld_global_fields l') + of_nat 0) h (init_list (at_field rtld_global_fields g l) mem) =
      get rtld_list_fields (g + of_nat (offset_of rtld_global_fields l') + of_nat 0) h mem" for h
    by (rule get_nested [OF rg.struct_layout_axioms rl.struct_layout_axioms, where f = l])
      (use assms list_changes [of g l] in \<open>auto simp: rl_size\<close>)
  then show ?thesis by (simp add: empty_list_at_def at_field_def)
qed

lemma list_at_same: "empty_list_at l (init_list l mem)"
  by (simp add: empty_list_at_def init_list_def rl.get_put_same rl.get_put_other)

lemma global_publish_holds: "global_holds g main sl (rtld_global_publish g main sl d mem)"
  unfolding global_holds_def rtld_global_publish_def Let_def
  by (simp add: global_get_nested namespace_get_list namespace_get_debug list_at_other list_at_same
      rg.get_put_other rg.get_put_same ns.get_put_other ns.get_put_same)

lemma global_holds_frame:
  assumes "\<And>x. inside x g 4352 \<Longrightarrow> mem' x = mem x"
  shows "global_holds g main sl mem' = global_holds g main sl mem"
proof -
  have rg: "get rtld_global_fields g f mem' = get rtld_global_fields g f mem" for f
    by (rule rg.get_frame) (use assms in \<open>simp_all add: rg_size\<close>)
  have ns: "get rtld_link_namespace_fields (namespace_at g 0) f mem' = get rtld_link_namespace_fields (namespace_at g 0) f mem" for f
  proof (rule ns.get_frame, simp)
    fix x assume "inside x (namespace_at g 0) (struct_size rtld_link_namespace_fields)"
    then show "mem' x = mem x" using inside_mono [of x g 0 160 4352]
      by (intro assms) (simp add: namespace_at_def at_field_def offset_of_def field_of_def rg_placed ns_size)
  qed
  have rl: "empty_list_at (at_field rtld_global_fields g l) mem' = empty_list_at (at_field rtld_global_fields g l) mem"
    if "l \<in> {G_stack_used, G_stack_user, G_stack_cache}" for l
  proof -
    have "get rtld_list_fields (at_field rtld_global_fields g l) f mem' = get rtld_list_fields (at_field rtld_global_fields g l) f mem" for f
    proof (rule rl.get_frame, simp)
      fix x assume "inside x (at_field rtld_global_fields g l) (struct_size rtld_list_fields)"
      then show "mem' x = mem x" using inside_mono [of x g "offset_of rtld_global_fields l" 16 4352] rg.field_fits [of l] that
        by (intro assms) (auto simp: at_field_def rg_size rl_size)
    qed
    then show ?thesis by (simp add: empty_list_at_def)
  qed
  show ?thesis by (simp add: global_holds_def rg ns rl)
qed

lemma c_strlen_returns:
  assumes "p = 0 \<or> mem (p + of_nat n) = 0"
  shows "\<exists>len. c_strlen mem p = Some len"
proof -
  have "mem (p + of_nat (k + n)) = 0 \<Longrightarrow> \<exists>len. c_strlen_from mem p (of_nat k) = Some len" for k
  proof (induction n arbitrary: k)
    case (Suc n)
    have "(of_nat k :: usize) + 1 = of_nat (Suc k)" by simp
    with Suc.IH [of "Suc k"] Suc.prems show ?case
      by (subst c_strlen_from.simps) (simp del: of_nat_Suc)
  qed (simp add: c_strlen_from.simps)
  from this [of 0] assms show ?thesis by (auto simp: c_strlen_def)
qed

lemma global_publish_outside:
  assumes "\<not> inside x g 4352"
  shows "rtld_global_publish g main sl d mem x = mem x"
proof -
  have "\<not> inside x (g + of_nat (offset_of rtld_global_fields f)) (size_of rtld_global_fields f)" for f
    using inside_mono [of x g "offset_of rtld_global_fields f" "size_of rtld_global_fields f" 4352] rg.field_fits [of f] assms
    by (auto simp: rg_size)
  from this [of G_ns] this [of G_stack_used] this [of G_stack_user] this [of G_stack_cache] assms show ?thesis
    by (simp add: rtld_global_publish_def Let_def changes_onlyD [OF namespace_changes] changes_onlyD [OF debug_changes_global]
        changes_onlyD [OF list_changes] rg.put_outside rg_size)
qed

text \<open>The variables do not overlap, and the string that names the platform ends outside of them.\<close>

definition statics_apart :: "rtld_statics \<Rightarrow> bool" where
  "statics_apart sv \<longleftrightarrow>
     disjoint_regions (sv_rtld_global sv) 4352 (sv_rtld_global_ro sv) 952 \<and>
     disjoint_regions (sv_rtld_global sv) 4352 (sv_initial_searchlist sv) 16 \<and>
     disjoint_regions (sv_rtld_global_ro sv) 952 (sv_initial_searchlist sv) 16"

definition platform_ends :: "rtld_statics \<Rightarrow> usize \<Rightarrow> nat \<Rightarrow> memory \<Rightarrow> bool" where
  "platform_ends sv p n mem \<longleftrightarrow> p = 0 \<or> (mem (p + of_nat n) = 0 \<and>
     \<not> inside (p + of_nat n) (sv_rtld_global sv) 4352 \<and> \<not> inside (p + of_nat n) (sv_rtld_global_ro sv) 952)"

section \<open>Properties\<close>


lemma globals_published:
  assumes "statics_apart sv" "platform_ends sv (ra_platform aux) n mem"
  shows "\<exists>mem'. publish_rtld_globals sv main rtld d aux mem = Some mem' \<and>
    global_holds (sv_rtld_global sv) main (sv_rtld_global_ro sv + 48) mem' \<and>
    ro_holds (sv_rtld_global_ro sv) aux mem' \<and>
    words_at mem' (sv_initial_searchlist sv) [main, rtld] \<and>
    get rtld_scope_elem_fields (sv_rtld_global_ro sv + 48) Se_list mem' = sv_initial_searchlist sv \<and>
    get rtld_scope_elem_fields (sv_rtld_global_ro sv + 48) Se_nlist mem' = 2 \<and>
    words_at mem' (sv_rtld_global_ro sv + 0x1e0) [0x8000, 0x100000, 0x100000, 0x100000, 0x100000, 0x100000]"
proof -
  let ?g = "sv_rtld_global sv" and ?ro = "sv_rtld_global_ro sv" and ?sl = "sv_initial_searchlist sv"
  let ?gm = "rtld_global_publish ?g main (?ro + 48) d mem"
  note apart = assms(1) [unfolded statics_apart_def]
  have at48: "at_field rtld_global_ro_fields ?ro Ro_initial_searchlist = ?ro + 48"
    by (simp add: at_field_def offset_of_def field_of_def ro_placed)
  have "ra_platform aux = 0 \<or> put rtld_global_ro_fields ?ro Ro_platform (ra_platform aux) ?gm (ra_platform aux + of_nat n) = 0"
    using assms(2) by (auto simp: platform_ends_def ro.put_outside ro_size global_publish_outside)
  then have "\<exists>len. c_strlen (put rtld_global_ro_fields ?ro Ro_platform (ra_platform aux) ?gm) (ra_platform aux) = Some len"
    by (rule c_strlen_returns)
  then obtain mem' where run: "rtld_global_ro_publish ?ro ?sl main rtld aux ?gm = Some mem'"
    by (auto simp: rtld_global_ro_publish_def Let_def)
  have "global_holds ?g main (?ro + 48) mem' = global_holds ?g main (?ro + 48) ?gm"
    using apart by (intro global_holds_frame ro_publish_outside [OF run]) (auto simp: disjoint_regions_def)
  then have "global_holds ?g main (?ro + 48) mem'" by (simp add: global_publish_holds)
  moreover have "ro_holds ?ro aux mem'" using ro_publish_holds [OF run] apart by blast
  moreover obtain mem1 where "mem' = publish_searchlist ?ro ?sl main rtld (publish_x86_cpu_defaults ?ro mem1)"
    using run by (cases rule: ro_publish_cases) blast
  ultimately show ?thesis
    using run apart searchlist_published [of ?ro ?sl main rtld "publish_x86_cpu_defaults ?ro mem1"]
      x86_values [of ?ro ?sl main rtld mem1]
    by (simp add: publish_rtld_globals_def Let_def at48)
qed


definition ex_statics :: rtld_statics where
  "ex_statics = \<lparr>sv_rtld_global = 0x10000, sv_rtld_global_ro = 0x20000, sv_initial_searchlist = 0x30000,
     sv_main_link_map = 0x31000, sv_empty_name = 0x32000, sv_rtld_name = 0x32010, sv_dl_debug_state = 0x33000\<rparr>"

lemma ex_statics_apart: "statics_apart ex_statics"
  by (auto simp: statics_apart_def ex_statics_def intro: disjoint_regionsI)


end
