(* ===== verification/Rtld_Inspect.thy ===== *)
theory Rtld_Inspect
  imports Mem_Functions Rust_Str
begin

text \<open>
  \<open>rtld/impl/src/cli.rs\<close>, the part that inspects an ELF file for \<open>--verify\<close> and \<open>--list\<close>: it
  reads the header, the program headers and the dynamic section with \<open>pread\<close> and finds the
  needed libraries and the string table.

  The system calls are parameters (record \<open>file_ops\<close>): \<open>openat\<close> on the path at an address gives
  a descriptor, \<open>pread64\<close> of up to \<open>n\<close> bytes at an offset gives the bytes it has stored. An
  addition that overflows \<open>usize\<close> panics.
\<close>

section \<open>Files\<close>

record file_ops =
  fo_open :: "memory \<Rightarrow> usize \<Rightarrow> usize option"
  fo_pread :: "usize \<Rightarrow> nat \<Rightarrow> usize \<Rightarrow> u8 list option"

function pread_exact :: "file_ops \<Rightarrow> usize \<Rightarrow> nat \<Rightarrow> usize \<Rightarrow> u8 list option" where
  "pread_exact fo fd n offset =
     (if n = 0 then Some []
      else
        (case fo_pread fo fd n offset of
           None \<Rightarrow> None
         | Some bs \<Rightarrow>
             if length bs = 0 \<or> length bs > n then None
             else map_option (append bs) (pread_exact fo fd (n - length bs) (offset + of_nat (length bs)))))"
  by pat_completeness auto
termination
  by (relation "measure (\<lambda>(fo, fd, n, offset). n)") auto

declare pread_exact.simps [simp del]

text \<open>Little-endian fields of a buffer.\<close>

fun le_bytes :: "nat \<Rightarrow> u8 list \<Rightarrow> nat \<Rightarrow> usize" where
  "le_bytes 0 bytes offset = 0"
| "le_bytes (Suc n) bytes offset = ucast (bytes ! offset) OR push_bit 8 (le_bytes n bytes (Suc offset))"

definition read_u16 :: "u8 list \<Rightarrow> nat \<Rightarrow> u16" where "read_u16 bytes offset = ucast (le_bytes 2 bytes offset)"
definition read_u32 :: "u8 list \<Rightarrow> nat \<Rightarrow> u32" where "read_u32 bytes offset = ucast (le_bytes 4 bytes offset)"
definition read_u64 :: "u8 list \<Rightarrow> nat \<Rightarrow> u64" where "read_u64 bytes offset = le_bytes 8 bytes offset"

section \<open>Inspection\<close>

definition EI_CLASS :: nat where "EI_CLASS = 4"
definition EI_DATA :: nat where "EI_DATA = 5"
definition ELFCLASS64 :: u8 where "ELFCLASS64 = 2"
definition ELFDATA2LSB :: u8 where "ELFDATA2LSB = 1"
definition ET_EXEC :: u16 where "ET_EXEC = 2"
definition ET_DYN :: u16 where "ET_DYN = 3"
definition EM_X86_64 :: u16 where "EM_X86_64 = 62"
definition MAX_PHDRS :: nat where "MAX_PHDRS = 256"
definition MAX_LOADS :: nat where "MAX_LOADS = 16"
definition MAX_NEEDED :: nat where "MAX_NEEDED = 64"
definition MAX_DYN :: nat where "MAX_DYN = 4096"

text \<open>Numbers of the ELF specification, \<open>ElfProgramType\<close> and \<open>ElfDynamicTag\<close>.\<close>

definition PT_LOAD :: u32 where "PT_LOAD = 1"
definition PT_DYN :: u32 where "PT_DYN = 2"
definition TAG_NULL :: u64 where "TAG_NULL = 0"
definition TAG_NEEDED :: u64 where "TAG_NEEDED = 1"
definition TAG_STRTAB :: u64 where "TAG_STRTAB = 5"
definition TAG_STRSZ :: u64 where "TAG_STRSZ = 10"

record load_segment =
  ls_vaddr :: usize
  ls_offset :: usize
  ls_filesz :: usize

record elf_info =
  ei_needed :: "usize list"
  ei_strtab_offset :: usize
  ei_strtab_size :: usize

datatype inspect_error = Open_Error | Read_Error | Not_Elf | Unsupported | Not_Dynamic | Bad_Dynamic

type_synonym 'a inspected = "(inspect_error, 'a) res"

definition plus_or_panic :: "usize \<Rightarrow> usize \<Rightarrow> 'a inspected \<Rightarrow> (usize \<Rightarrow> 'a inspected) \<Rightarrow> 'a inspected" where
  "plus_or_panic a b panic f = (case checked_add a b of Some c \<Rightarrow> f c | None \<Rightarrow> panic)"

abbreviation overflow :: "('e, 'a) res" where
  "overflow \<equiv> Panic ''attempt to add with overflow''"

definition read_or :: "u8 list option \<Rightarrow> u8 list inspected" where
  "read_or v = (case v of Some bs \<Rightarrow> Ok bs | None \<Rightarrow> Err Read_Error)"

record segments =
  sg_loads :: "load_segment list"
  sg_dynamic_offset :: usize
  sg_dynamic_size :: usize

definition add_phdr :: "u8 list \<Rightarrow> segments \<Rightarrow> segments" where
  "add_phdr phdr s =
     (let program_type = read_u32 phdr 0 in
      if program_type = PT_LOAD \<and> length (sg_loads s) < MAX_LOADS then
        s\<lparr>sg_loads := sg_loads s @
           [\<lparr>ls_vaddr = read_u64 phdr 16, ls_offset = read_u64 phdr 8, ls_filesz = read_u64 phdr 32\<rparr>]\<rparr>
      else if program_type = PT_DYN then
        s\<lparr>sg_dynamic_offset := read_u64 phdr 8, sg_dynamic_size := read_u64 phdr 32\<rparr>
      else s)"

fun phdr_loop :: "file_ops \<Rightarrow> usize \<Rightarrow> usize \<Rightarrow> usize \<Rightarrow> nat \<Rightarrow> nat \<Rightarrow> segments \<Rightarrow> segments inspected" where
  "phdr_loop fo fd phoff phentsize 0 i s = Ok s"
| "phdr_loop fo fd phoff phentsize (Suc n) i s =
     plus_or_panic phoff (of_nat i * phentsize) overflow (\<lambda>offset.
     bind_res (read_or (pread_exact fo fd 56 offset)) (\<lambda>phdr.
     phdr_loop fo fd phoff phentsize n (Suc i) (add_phdr phdr s)))"

record dyn_entries =
  dy_needed :: "usize list"
  dy_strtab_vaddr :: usize
  dy_strtab_size :: usize

definition add_dyn :: "u64 \<Rightarrow> usize \<Rightarrow> dyn_entries \<Rightarrow> dyn_entries" where
  "add_dyn tag v s =
     (if tag = TAG_NEEDED \<and> length (dy_needed s) < MAX_NEEDED then s\<lparr>dy_needed := dy_needed s @ [v]\<rparr>
      else if tag = TAG_STRTAB then s\<lparr>dy_strtab_vaddr := v\<rparr>
      else if tag = TAG_STRSZ then s\<lparr>dy_strtab_size := v\<rparr>
      else s)"

fun dyn_loop :: "file_ops \<Rightarrow> usize \<Rightarrow> usize \<Rightarrow> nat \<Rightarrow> nat \<Rightarrow> dyn_entries \<Rightarrow> dyn_entries inspected" where
  "dyn_loop fo fd dynamic_offset 0 i s = Ok s"
| "dyn_loop fo fd dynamic_offset (Suc n) i s =
     plus_or_panic dynamic_offset (of_nat i * 16) overflow (\<lambda>offset.
     bind_res (read_or (pread_exact fo fd 16 offset)) (\<lambda>dyn_entry.
     (let tag = read_u64 dyn_entry 0; v = read_u64 dyn_entry 8 in
      if tag = TAG_NULL then Ok s else dyn_loop fo fd dynamic_offset n (Suc i) (add_dyn tag v s))))"

fun vaddr_to_offset :: "usize \<Rightarrow> load_segment list \<Rightarrow> usize option inspected" where
  "vaddr_to_offset vaddr [] = Ok None"
| "vaddr_to_offset vaddr (segment # segments) =
     (if vaddr \<ge> ls_vaddr segment \<and> vaddr - ls_vaddr segment < ls_filesz segment
      then plus_or_panic (ls_offset segment) (vaddr - ls_vaddr segment) overflow (\<lambda>c. Ok (Some c))
      else vaddr_to_offset vaddr segments)"

definition read_dynamic :: "file_ops \<Rightarrow> usize \<Rightarrow> segments \<Rightarrow> elf_info inspected" where
  "read_dynamic fo fd s =
     (if sg_dynamic_offset s = 0 \<or> sg_dynamic_size s = 0 then Err Not_Dynamic
      else
        (let dynamic_len = min (unat (sg_dynamic_size s div 16)) MAX_DYN in
         bind_res (dyn_loop fo fd (sg_dynamic_offset s) dynamic_len 0
                     \<lparr>dy_needed = [], dy_strtab_vaddr = 0, dy_strtab_size = 0\<rparr>) (\<lambda>d.
         if dy_strtab_vaddr d = 0 \<or> dy_strtab_size d = 0 then Err Bad_Dynamic
         else
           bind_res (vaddr_to_offset (dy_strtab_vaddr d) (sg_loads s)) (\<lambda>offset.
           case offset of
             None \<Rightarrow> Err Bad_Dynamic
           | Some strtab_offset \<Rightarrow>
               Ok \<lparr>ei_needed = dy_needed d, ei_strtab_offset = strtab_offset, ei_strtab_size = dy_strtab_size d\<rparr>))))"

definition header_ok :: "u8 list \<Rightarrow> unit inspected" where
  "header_ok ehdr =
     (if take 4 ehdr \<noteq> [0x7f, 0x45, 0x4c, 0x46] then Err Not_Elf
      else if ehdr ! EI_CLASS \<noteq> ELFCLASS64 \<or> ehdr ! EI_DATA \<noteq> ELFDATA2LSB then Err Unsupported
      else
        (let e_type = read_u16 ehdr 16; e_machine = read_u16 ehdr 18 in
         if (e_type \<noteq> ET_EXEC \<and> e_type \<noteq> ET_DYN) \<or> e_machine \<noteq> EM_X86_64 then Err Unsupported else Ok ()))"

definition inspect_fd :: "file_ops \<Rightarrow> usize \<Rightarrow> elf_info inspected" where
  "inspect_fd fo fd =
     bind_res (read_or (pread_exact fo fd 64 0)) (\<lambda>ehdr.
     bind_res (header_ok ehdr) (\<lambda>_.
     (let phoff = read_u64 ehdr 32;
          phentsize = unat (read_u16 ehdr 54);
          phnum = unat (read_u16 ehdr 56)
      in if phentsize < 56 \<or> phnum = 0 \<or> phnum > MAX_PHDRS then Err Unsupported
         else
           bind_res (phdr_loop fo fd phoff (of_nat phentsize) phnum 0
                       \<lparr>sg_loads = [], sg_dynamic_offset = 0, sg_dynamic_size = 0\<rparr>)
             (read_dynamic fo fd))))"

section \<open>Reading a file\<close>

text \<open>
  What \<open>pread\<close> documents for a descriptor of a regular file with contents \<open>data\<close>: it stores at
  least one and at most \<open>n\<close> of the bytes that follow the offset, and none at the end of the file.
\<close>

definition reads_file :: "file_ops \<Rightarrow> usize \<Rightarrow> u8 list \<Rightarrow> bool" where
  "reads_file fo fd data \<longleftrightarrow> length data < 2 ^ 63 \<and>
     (\<forall>n offset. 0 < n \<longrightarrow>
        (if unat offset < length data
         then \<exists>k. 0 < k \<and> k \<le> n \<and> unat offset + k \<le> length data \<and>
                fo_pread fo fd n offset = Some (take k (drop (unat offset) data))
         else fo_pread fo fd n offset \<in> {None, Some []}))"

text \<open>Short reads are put together; a read over the end of the file fails.\<close>

lemma pread_exact_file:
  assumes rf: "reads_file fo fd data"
  shows "pread_exact fo fd n offset =
    (if unat offset + n \<le> length data \<or> n = 0 then Some (take n (drop (unat offset) data)) else None)"
proof (induction n arbitrary: offset rule: less_induct)
  case (less n)
  show ?case
  proof (cases "n = 0 \<or> \<not> unat offset < length data")
    case True
    then have "n \<noteq> 0 \<Longrightarrow> fo_pread fo fd n offset \<in> {None, Some []}"
      using rf unfolding reads_file_def by (metis gr0I)
    with True show ?thesis by (subst pread_exact.simps) auto
  next
    case False
    then obtain k where k: "0 < k" "k \<le> n" "unat offset + k \<le> length data"
      "fo_pread fo fd n offset = Some (take k (drop (unat offset) data))"
      using rf unfolding reads_file_def by (metis gr0I)
    have un: "unat (offset + of_nat k) = unat offset + k"
      using k(3) rf by (intro unat_offset) (simp add: reads_file_def)
    have "take n (drop (unat offset) data) =
        take k (drop (unat offset) data) @ take (n - k) (drop (unat (offset + of_nat k)) data)"
      using take_add [of k "n - k" "drop (unat offset) data"] k(2) un by (simp add: add.commute)
    moreover have "length (take k (drop (unat offset) data)) = k" using k(3) by simp
    ultimately show ?thesis using k False less.IH [of "n - k" "offset + of_nat k"] un
      by (subst pread_exact.simps) (auto simp: min_def)
  qed
qed

lemma inspect_loops_cong:
  assumes "\<And>n offset. pread_exact fo fd n offset = pread_exact fo' fd' n offset"
  shows "phdr_loop fo fd phoff phentsize n i s = phdr_loop fo' fd' phoff phentsize n i s"
    and "dyn_loop fo fd p n i d = dyn_loop fo' fd' p n i d"
    and "read_dynamic fo fd = read_dynamic fo' fd'"
proof -
  show "phdr_loop fo fd phoff phentsize n i s = phdr_loop fo' fd' phoff phentsize n i s"
    by (induction n arbitrary: i s) (simp_all add: assms plus_or_panic_def)
  show dyn: "dyn_loop fo fd p n i d = dyn_loop fo' fd' p n i d" for p n i d
    by (induction n arbitrary: i d) (simp_all add: assms plus_or_panic_def Let_def cong: if_cong)
  show "read_dynamic fo fd = read_dynamic fo' fd'"
    by (rule ext) (simp add: read_dynamic_def dyn cong: if_cong)
qed

lemma vaddr_to_offset_cases:
  "vaddr_to_offset vaddr segments =
     (case List.find (\<lambda>s. ls_vaddr s \<le> vaddr \<and> vaddr - ls_vaddr s < ls_filesz s) segments of
        None \<Rightarrow> Ok None
      | Some s \<Rightarrow> if unat (ls_offset s) + unat (vaddr - ls_vaddr s) < 2 ^ 64
                 then Ok (Some (ls_offset s + (vaddr - ls_vaddr s))) else overflow)"
proof (induction segments)
  case (Cons s segments)
  then show ?case
    using checked_add_Some [of "ls_offset s" "vaddr - ls_vaddr s"] checked_add_None [of "ls_offset s" "vaddr - ls_vaddr s"]
    by (auto simp: plus_or_panic_def split: option.splits)
qed simp

text \<open>
  No offset the loops compute overflows: each follows an offset at which the file has just been
  read. The segments they collect are program headers of the file.
\<close>

definition phdr_in :: "u8 list \<Rightarrow> load_segment \<Rightarrow> bool" where
  "phdr_in data s \<longleftrightarrow> (\<exists>off. off + 56 \<le> length data \<and> (let phdr = take 56 (drop off data) in
     read_u32 phdr 0 = PT_LOAD \<and> ls_vaddr s = read_u64 phdr 16 \<and> ls_offset s = read_u64 phdr 8 \<and>
     ls_filesz s = read_u64 phdr 32))"

lemma unat_times: "i * unat step < 2 ^ 64 \<Longrightarrow> unat (of_nat i * step) = i * unat step" for step :: usize
proof -
  assume lt: "i * unat step < 2 ^ 64"
  have "unat (of_nat i * step) = (i mod 2 ^ 64 * unat step) mod 2 ^ 64"
    by (simp add: unat_word_ariths unat_of_nat)
  also have "\<dots> = i * unat step mod 2 ^ 64" by (rule mod_mult_left_eq)
  finally show ?thesis using lt by simp
qed

lemma next_offset:
  assumes "unat step < 2 ^ 16" "i \<le> 4096" "i = 0 \<or> unat p + (i - 1) * unat step < 2 ^ 63"
  shows "checked_add p (of_nat i * step) = Some (p + of_nat i * step)"
    "unat (p + of_nat i * step) = unat p + i * unat step"
proof -
  have "i * unat step \<le> 4096 * 2 ^ 16" using assms(1,2) by (intro mult_le_mono) simp_all
  then have eq: "unat (of_nat i * step) = i * unat step" by (intro unat_times) simp
  have "unat p + i * unat step < 2 ^ 64"
  proof (cases i)
    case 0
    then show ?thesis using usize_bound [of p] by simp
  next
    case (Suc j)
    then show ?thesis using assms by simp
  qed
  then show *: "checked_add p (of_nat i * step) = Some (p + of_nat i * step)"
    by (simp add: checked_add_Some eq)
  from checked_add_unat [OF this] show "unat (p + of_nat i * step) = unat p + i * unat step" by (simp add: eq)
qed

lemma phdr_loop_safe:
  assumes "reads_file fo fd data" "unat step < 2 ^ 16" "i + n \<le> 4096"
    and "i = 0 \<or> unat p + (i - 1) * unat step < 2 ^ 63" "\<forall>l \<in> set (sg_loads s). phdr_in data l"
  shows "\<not> panics (phdr_loop fo fd p step n i s) \<and>
    (\<forall>s'. phdr_loop fo fd p step n i s = Ok s' \<longrightarrow> (\<forall>l \<in> set (sg_loads s'). phdr_in data l))"
  using assms(3-)
proof (induction n arbitrary: i s)
  case (Suc n)
  note off = next_offset [OF assms(2) _ Suc.prems(2)]
  show ?case
  proof (cases "pread_exact fo fd 56 (p + of_nat i * step)")
    case None
    then show ?thesis using off Suc.prems(1) by (simp add: plus_or_panic_def read_or_def)
  next
    case (Some phdr)
    then have len: "unat (p + of_nat i * step) + 56 \<le> length data"
      and phdr: "phdr = take 56 (drop (unat (p + of_nat i * step)) data)"
      by (auto simp: pread_exact_file [OF assms(1)] split: if_splits)
    have "\<forall>l \<in> set (sg_loads (add_phdr phdr s)). phdr_in data l"
      using Suc.prems(3) len phdr unfolding phdr_in_def add_phdr_def by (auto simp: Let_def) 
    moreover have "unat p + i * unat step < 2 ^ 63"
      using len off Suc.prems(1) assms(1) by (simp add: reads_file_def)
    ultimately show ?thesis
      using Suc.IH [of "Suc i" "add_phdr phdr s"] Suc.prems(1) off Some
      by (simp add: plus_or_panic_def read_or_def)
  qed
qed simp

lemma dyn_loop_safe:
  assumes "reads_file fo fd data" "i + n \<le> 4096" "i = 0 \<or> unat p + (i - 1) * 16 < 2 ^ 63"
    "length (dy_needed d) \<le> MAX_NEEDED"
  shows "\<not> panics (dyn_loop fo fd p n i d) \<and>
    (\<forall>d'. dyn_loop fo fd p n i d = Ok d' \<longrightarrow> length (dy_needed d') \<le> MAX_NEEDED)"
  using assms(2-)
proof (induction n arbitrary: i d)
  case (Suc n)
  note off = next_offset [of 16 i p]
  show ?case
  proof (cases "pread_exact fo fd 16 (p + of_nat i * 16)")
    case None
    then show ?thesis using off Suc.prems by (simp add: plus_or_panic_def read_or_def)
  next
    case (Some e)
    then have "unat p + i * 16 < 2 ^ 63"
      using off Suc.prems assms(1) by (auto simp: pread_exact_file [OF assms(1)] reads_file_def split: if_splits)
    moreover have "length (dy_needed (add_dyn tag v d)) \<le> MAX_NEEDED" for tag v
      using Suc.prems(3) by (simp add: add_dyn_def)
    ultimately show ?thesis
      using Suc.IH [of "Suc i" "add_dyn (read_u64 e 0) (read_u64 e 8) d"] Suc.prems off Some
      by (simp add: plus_or_panic_def read_or_def Let_def)
  qed
qed simp

lemma vaddr_to_offset_panics:
  "panics (vaddr_to_offset vaddr segments) \<Longrightarrow>
   \<exists>s \<in> set segments. 2 ^ 64 \<le> unat (ls_offset s) + unat (ls_filesz s)"
proof -
  assume "panics (vaddr_to_offset vaddr segments)"
  then obtain s where s: "List.find (\<lambda>s. ls_vaddr s \<le> vaddr \<and> vaddr - ls_vaddr s < ls_filesz s) segments = Some s"
    "2 ^ 64 \<le> unat (ls_offset s) + unat (vaddr - ls_vaddr s)"
    by (auto simp: vaddr_to_offset_cases split: option.splits if_splits)
  then have "s \<in> set segments" "vaddr - ls_vaddr s < ls_filesz s" by (auto simp: find_Some_iff)
  with s(2) show ?thesis by (intro bexI [of _ s]) (simp_all add: word_less_nat_alt)
qed

lemma panics_bind_iff: "panics (bind_res r f) \<longleftrightarrow> panics r \<or> (\<exists>a. r = Ok a \<and> panics (f a))"
  by (cases r) auto

lemma dyn_section_safe:
  assumes "reads_file fo fd data"
  shows "\<not> panics (dyn_loop fo fd p (min n MAX_DYN) 0 \<lparr>dy_needed = [], dy_strtab_vaddr = 0, dy_strtab_size = 0\<rparr>) \<and>
    (\<forall>d. dyn_loop fo fd p (min n MAX_DYN) 0 \<lparr>dy_needed = [], dy_strtab_vaddr = 0, dy_strtab_size = 0\<rparr> = Ok d \<longrightarrow>
      length (dy_needed d) \<le> MAX_NEEDED)"
  by (rule dyn_loop_safe [OF assms]) (simp_all add: MAX_DYN_def)

lemma read_dynamic_panics:
  assumes "reads_file fo fd data" "panics (read_dynamic fo fd s)"
  shows "\<exists>l \<in> set (sg_loads s). 2 ^ 64 \<le> unat (ls_offset l) + unat (ls_filesz l)"
proof -
  obtain d :: dyn_entries where "panics (vaddr_to_offset (dy_strtab_vaddr d) (sg_loads s))"
    using assms(2) dyn_section_safe [OF assms(1)]
    by (auto simp: read_dynamic_def Let_def panics_bind_iff split: if_splits option.splits)
  then show ?thesis by (rule vaddr_to_offset_panics)
qed

text \<open>A kernel that returns at most \<open>k\<close> bytes at a time.\<close>

definition short_reads :: "nat \<Rightarrow> u8 list \<Rightarrow> file_ops" where
  "short_reads k data = \<lparr>fo_open = (\<lambda>mem path. Some 3),
     fo_pread = (\<lambda>fd n offset. Some (take (min n k) (drop (unat offset) data)))\<rparr>"

lemma short_reads_file: "0 < k \<Longrightarrow> length data < 2 ^ 63 \<Longrightarrow> reads_file (short_reads k data) fd data"
proof -
  assume k: "0 < k" and len: "length data < 2 ^ 63"
  have "\<exists>j. 0 < j \<and> j \<le> n \<and> off + j \<le> length data \<and> take (min n k) (drop off data) = take j (drop off data)"
    if "0 < n" "off < length data" for n off
    using that k by (intro exI [of _ "min (min n k) (length data - off)"]) (auto simp: min_def)
  with len show ?thesis by (simp add: reads_file_def short_reads_def)
qed

section \<open>Properties\<close>

text \<open>
  C37. What \<open>--verify\<close> and \<open>--list\<close> find out about a file depends on its contents only, not on
  how the kernel splits the reads.
\<close>

theorem inspect_contents_only:
  assumes "reads_file fo fd data" "reads_file fo' fd' data"
  shows "inspect_fd fo fd = inspect_fd fo' fd'"
proof -
  have "pread_exact fo fd n offset = pread_exact fo' fd' n offset" for n offset
    by (simp add: pread_exact_file [OF assms(1)] pread_exact_file [OF assms(2)])
  from this inspect_loops_cong [OF this] show ?thesis
    by (simp add: inspect_fd_def cong: if_cong)
qed

theorem inspect_contents_only_witness:
  "inspect_fd (short_reads 1 (bytes_of_str ''#!/bin/sh'')) 3 = inspect_fd (short_reads 4096 (bytes_of_str ''#!/bin/sh'')) 7"
  using inspect_contents_only [OF short_reads_file [of 1 "bytes_of_str ''#!/bin/sh''" 3]
      short_reads_file [of 4096 "bytes_of_str ''#!/bin/sh''" 7]]
  by (simp add: bytes_of_str_def)

text \<open>
  C38. Inspecting a file ends, reports at most 64 needed libraries, and can only panic on a
  loadable segment whose range in the file wraps around the address space.
\<close>

theorem inspect_safe:
  assumes "reads_file fo fd data"
  shows "(\<forall>info. inspect_fd fo fd = Ok info \<longrightarrow> length (ei_needed info) \<le> MAX_NEEDED) \<and>
    (panics (inspect_fd fo fd) \<longrightarrow> (\<exists>off. off + 56 \<le> length data \<and> (let phdr = take 56 (drop off data) in
       read_u32 phdr 0 = PT_LOAD \<and> 2 ^ 64 \<le> unat (read_u64 phdr 8) + unat (read_u64 phdr 32))))"
proof -
  let ?e = "\<lambda>ehdr. phdr_loop fo fd (read_u64 ehdr 32) (of_nat (unat (read_u16 ehdr 54))) (unat (read_u16 ehdr 56)) 0
    \<lparr>sg_loads = [], sg_dynamic_offset = 0, sg_dynamic_size = 0\<rparr>"
  have loop: "\<not> panics (?e ehdr) \<and> (\<forall>s. ?e ehdr = Ok s \<longrightarrow> (\<forall>l \<in> set (sg_loads s). phdr_in data l))"
    if "\<not> unat (read_u16 ehdr 56) > MAX_PHDRS" for ehdr
  proof (rule phdr_loop_safe [OF assms])
    show "unat (of_nat (unat (read_u16 ehdr 54)) :: usize) < 2 ^ 16"
    proof -
      have "unat (of_nat m :: usize) < 2 ^ 16" if "m < 2 ^ 16" for m using that by (simp add: unat_of_nat)
      moreover have "unat (read_u16 ehdr 54) < 2 ^ 16" by (rule order_less_le_trans [OF unsigned_less]) simp
      ultimately show ?thesis by blast
    qed
  qed (use that in \<open>simp_all add: MAX_PHDRS_def\<close>)
  have "length (ei_needed info) \<le> MAX_NEEDED" if "inspect_fd fo fd = Ok info" for info
    using that dyn_section_safe [OF assms] by (auto simp: inspect_fd_def read_dynamic_def Let_def bind_res_Ok_iff split: if_splits option.splits)
  moreover have "\<exists>l. phdr_in data l \<and> 2 ^ 64 \<le> unat (ls_offset l) + unat (ls_filesz l)" if "panics (inspect_fd fo fd)"
  proof -
    from that obtain ehdr s where "?e ehdr = Ok s" "\<not> unat (read_u16 ehdr 56) > MAX_PHDRS" "panics (read_dynamic fo fd s)"
      using loop by (auto simp: inspect_fd_def read_or_def header_ok_def Let_def panics_bind_iff
          split: if_splits option.splits)
    with loop read_dynamic_panics [OF assms] show ?thesis by blast
  qed
  ultimately show ?thesis unfolding phdr_in_def by (fastforce simp: Let_def)
qed

theorem inspect_safe_witness: "\<not> panics (inspect_fd (short_reads 1 (bytes_of_str ''#!/bin/sh'')) 3)"
  using inspect_safe [OF short_reads_file [of 1 "bytes_of_str ''#!/bin/sh''" 3]] by (auto simp: bytes_of_str_def)

end
