(* ===== verification/Rtld_Cli.thy ===== *)
theory Rtld_Cli
  imports Rtld_Inspect Startup_Stack
begin

text \<open>
  \<open>rtld/impl/src/cli.rs\<close>: the command line of the replacement dynamic linker when it is run as a
  program. The loop over the arguments has no effect before it leaves; it is the function
  \<open>direct_args\<close>, whose result says how it leaves, and \<open>handle_direct_invocation\<close> does what the
  code does there: it prints, inspects a file, ends the process, or returns the program to run.

  Output is collected per stream. A C string is read up to its terminator; \<open>None\<close> is a string
  that has none. A panic ends the process with \<open>RTLD_FATAL_EXIT_STATUS\<close>.
\<close>

section \<open>C strings and output\<close>

definition RTLD_FATAL_EXIT_STATUS :: usize where "RTLD_FATAL_EXIT_STATUS = 127"

record cli_world =
  cw_stdout :: "u8 list"
  cw_stderr :: "u8 list"
  cw_fds :: "usize list"

definition write_stdout :: "u8 list \<Rightarrow> cli_world \<Rightarrow> cli_world" where
  "write_stdout bytes w = w\<lparr>cw_stdout := cw_stdout w @ bytes\<rparr>"

definition write_stderr :: "u8 list \<Rightarrow> cli_world \<Rightarrow> cli_world" where
  "write_stderr bytes w = w\<lparr>cw_stderr := cw_stderr w @ bytes\<rparr>"

fun bytes_eq :: "memory \<Rightarrow> usize \<Rightarrow> u8 list \<Rightarrow> bool" where
  "bytes_eq mem p [] \<longleftrightarrow> mem p = 0"
| "bytes_eq mem p (b # bs) \<longleftrightarrow> mem p = b \<and> bytes_eq mem (p + 1) bs"

definition cstr_eq :: "memory \<Rightarrow> usize \<Rightarrow> string \<Rightarrow> bool" where
  "cstr_eq mem p expected \<longleftrightarrow> p \<noteq> 0 \<and> bytes_eq mem p (bytes_of_str expected)"

definition arg_starts_with_dash :: "memory \<Rightarrow> usize \<Rightarrow> bool" where
  "arg_starts_with_dash mem arg \<longleftrightarrow> arg \<noteq> 0 \<and> mem arg = 0x2d"

partial_function (option) cstr_len_from :: "memory \<Rightarrow> usize \<Rightarrow> usize \<Rightarrow> usize option" where
  "cstr_len_from mem p len = (if mem (p + len) = 0 then Some len else cstr_len_from mem p (len + 1))"

definition cstr_len :: "memory \<Rightarrow> usize \<Rightarrow> usize option" where
  "cstr_len mem p = cstr_len_from mem p 0"

definition write_cstr :: "(u8 list \<Rightarrow> cli_world \<Rightarrow> cli_world) \<Rightarrow> memory \<Rightarrow> usize \<Rightarrow> cli_world \<Rightarrow> cli_world option" where
  "write_cstr out mem p w =
     (if p = 0 then Some w
      else (case cstr_len mem p of None \<Rightarrow> None | Some len \<Rightarrow> Some (out (bytes_at mem p (unat len)) w)))"

text \<open>
  \<open>write_decimal\<close> fills a buffer of twenty digits from its end; \<open>index\<close> is the number of free
  places, and leaving the buffer would panic.
\<close>

function decimal_loop :: "usize \<Rightarrow> nat \<Rightarrow> u8 list \<Rightarrow> u8 list option" where
  "decimal_loop v index acc =
     (if v = 0 then Some acc
      else if index = 0 then None
      else decimal_loop (v div 10) (index - 1) ((0x30 + ucast (v mod 10)) # acc))"
  by pat_completeness auto
termination
  by (relation "measure (\<lambda>(v, index, acc). index)") auto

declare decimal_loop.simps [simp del]

definition write_decimal :: "usize \<Rightarrow> cli_world \<Rightarrow> cli_world option" where
  "write_decimal v w =
     (if v = 0 then Some (write_stdout [0x30] w)
      else map_option (\<lambda>digits. write_stdout digits w) (decimal_loop v 20 []))"

section \<open>Texts\<close>

definition lf :: string where "lf = [CHR 0x0A]"
definition tab :: string where "tab = [CHR 0x09]"
definition quote :: string where "quote = [CHR 0x22]"

definition help_text :: string where
  "help_text = '' [OPTION]... EXECUTABLE-FILE [ARGS-FOR-PROGRAM...]'' @ lf @
     ''Rust replacement program interpreter for dynamically linked ELF programs.'' @ lf @ lf @
     ''  --list                list direct DT_NEEDED dependencies'' @ lf @
     ''  --verify              verify that FILE is a dynamic ELF object this rtld can inspect'' @ lf @
     ''  --inhibit-cache       accepted for glibc ld.so command-line compatibility'' @ lf @
     ''  --library-path PATH   accepted for compatibility; full search override is pending'' @ lf @
     ''  --preload LIST        accepted for compatibility; preload loading is pending'' @ lf @
     ''  --audit LIST          accepted for compatibility; auditing is pending'' @ lf @
     ''  --argv0 STRING        accepted for compatibility; direct execution is pending'' @ lf @
     ''  --glibc-hwcaps-prepend LIST'' @ lf @
     ''                        accepted for command-line compatibility'' @ lf @
     ''  --glibc-hwcaps-mask LIST'' @ lf @
     ''                        accepted for command-line compatibility'' @ lf @
     ''  --inhibit-rpath LIST  accepted for command-line compatibility'' @ lf @
     ''  --list-tunables       list supported rtld tunables'' @ lf @
     ''  --list-diagnostics    list rtld diagnostics'' @ lf @
     ''  --help                display this help and exit'' @ lf @
     ''  --version             output version information and exit'' @ lf @ lf @
     ''This program interpreter self-identifies as: ld-linux-x86-64.so.2'' @ lf"

definition print_help :: "memory \<Rightarrow> usize \<Rightarrow> cli_world \<Rightarrow> cli_world option" where
  "print_help mem program w =
     map_option (write_stdout (bytes_of_str help_text))
       (write_cstr write_stdout mem program (write_stdout (bytes_of_str ''Usage: '') w))"

definition print_version :: "cli_world \<Rightarrow> cli_world" where
  "print_version = write_stdout (bytes_of_str
     (''dlopen-rs rtld 0.1.0'' @ lf @ ''Command-line compatible subset of glibc ld.so for x86_64 Linux.'' @ lf))"

definition print_diagnostics :: "usize \<Rightarrow> cli_world \<Rightarrow> cli_world option" where
  "print_diagnostics argc w =
     map_option (write_stdout (bytes_of_str lf))
       (write_decimal argc (write_stdout (bytes_of_str
          (''dlopen.rtld.name='' @ quote @ ''ld-linux-x86-64.so.2'' @ quote @ lf @
           ''dlopen.rtld.version='' @ quote @ ''0.1.0'' @ quote @ lf @
           ''dlopen.rtld.target='' @ quote @ ''x86_64-unknown-linux-gnu'' @ quote @ lf @
           ''dlopen.rtld.argc='')) w))"

fun inspect_error_text :: "inspect_error \<Rightarrow> string" where
  "inspect_error_text Open_Error = ''cannot open file''"
| "inspect_error_text Read_Error = ''cannot read ELF metadata''"
| "inspect_error_text Not_Elf = ''not an ELF object''"
| "inspect_error_text Unsupported = ''unsupported ELF object''"
| "inspect_error_text Not_Dynamic = ''not a dynamically linked object''"
| "inspect_error_text Bad_Dynamic = ''invalid dynamic section''"

definition print_inspect_error :: "memory \<Rightarrow> usize \<Rightarrow> inspect_error \<Rightarrow> cli_world \<Rightarrow> cli_world option" where
  "print_inspect_error mem path err w =
     map_option (write_stderr (bytes_of_str ('': '' @ inspect_error_text err @ lf)))
       (write_cstr write_stderr mem path (write_stderr (bytes_of_str ''rtld: '') w))"

section \<open>Inspecting a file\<close>

definition open_fd :: "file_ops \<Rightarrow> memory \<Rightarrow> usize \<Rightarrow> cli_world \<Rightarrow> usize option \<times> cli_world" where
  "open_fd fo mem path w =
     (case fo_open fo mem path of
        None \<Rightarrow> (None, w)
      | Some fd \<Rightarrow> (Some fd, w\<lparr>cw_fds := fd # cw_fds w\<rparr>))"

definition close_fd :: "usize \<Rightarrow> cli_world \<Rightarrow> cli_world" where
  "close_fd fd w = w\<lparr>cw_fds := remove1 fd (cw_fds w)\<rparr>"

definition inspect :: "file_ops \<Rightarrow> memory \<Rightarrow> usize \<Rightarrow> cli_world \<Rightarrow> elf_info inspected \<times> cli_world" where
  "inspect fo mem path w =
     (case open_fd fo mem path w of
        (None, w) \<Rightarrow> (Err Open_Error, w)
      | (Some fd, w) \<Rightarrow>
          (case inspect_fd fo fd of
             Panic m \<Rightarrow> (Panic m, w)
           | r \<Rightarrow> (r, close_fd fd w)))"

text \<open>The status with which the process ends, or a panic.\<close>

definition verify :: "file_ops \<Rightarrow> memory \<Rightarrow> usize \<Rightarrow> cli_world \<Rightarrow> (usize \<times> cli_world) option" where
  "verify fo mem path w =
     (case inspect fo mem path w of
        (Ok _, w) \<Rightarrow> Some (0, w)
      | (Err err, w) \<Rightarrow> map_option (Pair 1) (print_inspect_error mem path err w)
      | (Panic _, w) \<Rightarrow> Some (RTLD_FATAL_EXIT_STATUS, w))"

function string_loop :: "file_ops \<Rightarrow> usize \<Rightarrow> usize \<Rightarrow> usize \<Rightarrow> u8 list" where
  "string_loop fo fd cursor fin =
     (if cursor < fin then
        (case pread_exact fo fd 1 cursor of
           None \<Rightarrow> []
         | Some bs \<Rightarrow> if hd bs = 0 then [] else hd bs # string_loop fo fd (cursor + 1) fin)
      else [])"
  by pat_completeness auto
termination
proof (relation "measure (\<lambda>(fo, fd, cursor, fin). unat fin - unat cursor)", simp)
  fix fo :: file_ops and fd cursor fin :: usize
  assume "cursor < fin"
  then have "unat cursor < unat fin" by (simp add: word_less_nat_alt)
  moreover from this have "unat (cursor + 1) = Suc (unat cursor)"
    using usize_bound [of fin] by (simp add: unat_word_ariths)
  ultimately show "((fo, fd, cursor + 1, fin), (fo, fd, cursor, fin)) \<in>
      measure (\<lambda>(fo, fd, cursor, fin). unat fin - unat cursor)" by simp
qed

declare string_loop.simps [simp del]

definition string_from_file :: "file_ops \<Rightarrow> usize \<Rightarrow> usize \<Rightarrow> usize \<Rightarrow> u8 list option" where
  "string_from_file fo fd offset limit = map_option (string_loop fo fd offset) (checked_add offset limit)"

fun list_needed :: "file_ops \<Rightarrow> usize \<Rightarrow> elf_info \<Rightarrow> usize list \<Rightarrow> cli_world \<Rightarrow> bool \<times> cli_world" where
  "list_needed fo fd info [] w = (True, w)"
| "list_needed fo fd info (n # ns) w =
     (let w = write_stdout (bytes_of_str tab) w in
      case checked_add (ei_strtab_offset info) n of
        None \<Rightarrow> (False, w)
      | Some offset \<Rightarrow>
          (case string_from_file fo fd offset (ei_strtab_size info) of
             None \<Rightarrow> (False, w)
           | Some s \<Rightarrow>
               list_needed fo fd info ns
                 (write_stdout (bytes_of_str ('' => not resolved by stage-0 rtld CLI'' @ lf)) (write_stdout s w))))"

definition cli_list :: "file_ops \<Rightarrow> memory \<Rightarrow> usize \<Rightarrow> cli_world \<Rightarrow> (usize \<times> cli_world) option" where
  "cli_list fo mem path w =
     (case inspect fo mem path w of
        (Err err, w) \<Rightarrow> map_option (Pair 1) (print_inspect_error mem path err w)
      | (Panic _, w) \<Rightarrow> Some (RTLD_FATAL_EXIT_STATUS, w)
      | (Ok info, w) \<Rightarrow>
          (case open_fd fo mem path w of
             (None, w) \<Rightarrow> map_option (Pair 1) (print_inspect_error mem path Open_Error w)
           | (Some fd, w) \<Rightarrow>
               (case list_needed fo fd info (ei_needed info) w of
                  (False, w) \<Rightarrow> Some (RTLD_FATAL_EXIT_STATUS, w)
                | (True, w) \<Rightarrow>
                    Some (0, close_fd fd (write_stdout (bytes_of_str (tab @ ''ld-linux-x86-64.so.2 => self'' @ lf)) w)))))"

section \<open>The command line\<close>

datatype direct_exit =
  Run direct_program | Help | Version | Diagnostics | Tunables | Verify usize | List_Needed usize
  | Missing_Value usize | Unrecognized usize

definition option_value :: "memory \<Rightarrow> usize \<Rightarrow> usize \<Rightarrow> usize \<Rightarrow> usize option" where
  "option_value mem argc argv i = (if i + 1 \<ge> argc then None else Some (read_usize mem (argv + 8 * (i + 1))))"

definition consumes_value :: "memory \<Rightarrow> usize \<Rightarrow> bool" where
  "consumes_value mem arg \<longleftrightarrow> cstr_eq mem arg ''--library-path'' \<or> cstr_eq mem arg ''--preload'' \<or>
     cstr_eq mem arg ''--audit'' \<or> cstr_eq mem arg ''--glibc-hwcaps-prepend'' \<or>
     cstr_eq mem arg ''--glibc-hwcaps-mask'' \<or> cstr_eq mem arg ''--inhibit-rpath''"

lemma next_index:
  fixes i argc :: usize
  assumes "i < argc"
  shows "unat argc - unat (i + 1) < unat argc - unat i"
    and "i + 1 < argc \<Longrightarrow> unat argc - unat (i + 2) < unat argc - unat i"
proof -
  have lt: "unat i < unat argc" using assms by (simp add: word_less_nat_alt)
  then have 1: "unat (i + 1) = Suc (unat i)" using usize_bound [of argc] by (simp add: unat_word_ariths)
  with lt show "unat argc - unat (i + 1) < unat argc - unat i" by simp
  assume "i + 1 < argc"
  then have "Suc (unat i) < unat argc" using 1 by (simp add: word_less_nat_alt)
  then have "unat (i + 2) = unat i + 2" using usize_bound [of argc] by (simp add: unat_word_ariths)
  with lt show "unat argc - unat (i + 2) < unat argc - unat i" by simp
qed

function direct_args :: "memory \<Rightarrow> usize \<Rightarrow> usize \<Rightarrow> usize \<Rightarrow> usize \<Rightarrow> direct_exit" where
  "direct_args mem argc argv i argv0 =
     (if i < argc then
        (let arg = read_usize mem (argv + 8 * i) in
         if cstr_eq mem arg ''--help'' then Help
         else if cstr_eq mem arg ''--version'' then Version
         else if cstr_eq mem arg ''--list-diagnostics'' then Diagnostics
         else if cstr_eq mem arg ''--list-tunables'' then Tunables
         else if cstr_eq mem arg ''--verify'' then
           (case option_value mem argc argv i of None \<Rightarrow> Missing_Value arg | Some target \<Rightarrow> Verify target)
         else if cstr_eq mem arg ''--list'' then
           (case option_value mem argc argv i of None \<Rightarrow> Missing_Value arg | Some target \<Rightarrow> List_Needed target)
         else if cstr_eq mem arg ''--argv0'' then
           (case option_value mem argc argv i of
              None \<Rightarrow> Missing_Value arg
            | Some v \<Rightarrow> direct_args mem argc argv (i + 2) v)
         else if consumes_value mem arg then
           (case option_value mem argc argv i of
              None \<Rightarrow> Missing_Value arg
            | Some _ \<Rightarrow> direct_args mem argc argv (i + 2) argv0)
         else if cstr_eq mem arg ''--inhibit-cache'' then direct_args mem argc argv (i + 1) argv0
         else if arg_starts_with_dash mem arg then Unrecognized arg
         else Run \<lparr>dp_argv_index = i, dp_argv0 = argv0\<rparr>)
      else Help)"
  by pat_completeness auto
termination
proof (relation "measure (\<lambda>(mem, argc, argv, i, argv0). unat argc - unat i)", simp, goal_cases)
  case (1 mem argc argv i argv0 arg v)
  then show ?case using next_index(2) [of i argc] by (simp add: option_value_def split: if_splits)
next
  case (2 mem argc argv i argv0 arg v)
  then show ?case using next_index(2) [of i argc] by (simp add: option_value_def split: if_splits)
next
  case (3 mem argc argv i argv0 arg)
  then show ?case using next_index(1) [of i argc] by simp
qed

declare direct_args.simps [simp del]

definition handle_direct_invocation ::
  "file_ops \<Rightarrow> memory \<Rightarrow> usize \<Rightarrow> usize \<Rightarrow> cli_world \<Rightarrow> ((usize + direct_program) \<times> cli_world) option" where
  "handle_direct_invocation fo mem argc argv w =
     (let exit_with = (\<lambda>status. map_option (Pair (Inl status))) in
      case (if argc \<le> 1 then Help else direct_args mem argc argv 1 0) of
        Run direct \<Rightarrow> Some (Inr direct, w)
      | Help \<Rightarrow> exit_with 0 (print_help mem (read_usize mem argv) w)
      | Version \<Rightarrow> exit_with 0 (Some (print_version w))
      | Diagnostics \<Rightarrow>
          (case print_diagnostics argc w of
             None \<Rightarrow> Some (Inl RTLD_FATAL_EXIT_STATUS, w)
           | Some w \<Rightarrow> Some (Inl 0, w))
      | Tunables \<Rightarrow> exit_with 0 (Some (write_stdout (bytes_of_str (''dlopen.rtld.tunables: none'' @ lf)) w))
      | Verify target \<Rightarrow> map_option (\<lambda>(status, w). (Inl status, w)) (verify fo mem target w)
      | List_Needed target \<Rightarrow> map_option (\<lambda>(status, w). (Inl status, w)) (cli_list fo mem target w)
      | Missing_Value arg \<Rightarrow>
          exit_with 1 (map_option (write_stderr (bytes_of_str lf))
            (write_cstr write_stderr mem arg (write_stderr (bytes_of_str ''rtld: option requires an argument: '') w)))
      | Unrecognized arg \<Rightarrow>
          exit_with 1 (map_option (write_stderr (bytes_of_str (lf @ ''Try '' @ [CHR 0x27] @ ''--help'' @ [CHR 0x27] @ '' for more information.'' @ lf)))
            (write_cstr write_stderr mem arg (write_stderr (bytes_of_str ''rtld: unrecognized option: '') w))))"

section \<open>Command lines\<close>

text \<open>Options that are skipped on the way to the program.\<close>

datatype skipped = Inhibit_Cache | With_Value string string | Argv0 string

fun option_words :: "skipped \<Rightarrow> string list" where
  "option_words Inhibit_Cache = [''--inhibit-cache'']"
| "option_words (With_Value name v) = [name, v]"
| "option_words (Argv0 v) = [''--argv0'', v]"

fun skipped_ok :: "skipped \<Rightarrow> bool" where
  "skipped_ok (With_Value name v) \<longleftrightarrow> name \<in> {''--library-path'', ''--preload'', ''--audit'',
     ''--glibc-hwcaps-prepend'', ''--glibc-hwcaps-mask'', ''--inhibit-rpath''}"
| "skipped_ok Inhibit_Cache \<longleftrightarrow> True"
| "skipped_ok (Argv0 v) \<longleftrightarrow> True"

fun argv0_of :: "skipped list \<Rightarrow> string option" where
  "argv0_of [] = None"
| "argv0_of (Argv0 v # opts) = (case argv0_of opts of None \<Rightarrow> Some v | Some v' \<Rightarrow> Some v')"
| "argv0_of (_ # opts) = argv0_of opts"

definition cstr_at :: "memory \<Rightarrow> usize \<Rightarrow> string \<Rightarrow> bool" where
  "cstr_at mem p s \<longleftrightarrow> p \<noteq> 0 \<and> CHR 0x00 \<notin> set s \<and> bytes_eq mem p (bytes_of_str s)"

fun args_from :: "memory \<Rightarrow> usize \<Rightarrow> usize \<Rightarrow> string list \<Rightarrow> bool" where
  "args_from mem argv i [] \<longleftrightarrow> True"
| "args_from mem argv i (s # ss) \<longleftrightarrow> cstr_at mem (read_usize mem (argv + 8 * i)) s \<and> args_from mem argv (i + 1) ss"

lemma bytes_eq_inj: "bytes_eq mem p xs \<Longrightarrow> bytes_eq mem p ys \<Longrightarrow> 0 \<notin> set xs \<Longrightarrow> 0 \<notin> set ys \<Longrightarrow> xs = ys"
proof (induction xs arbitrary: p ys)
  case Nil
  then show ?case by (cases ys) auto
next
  case (Cons x xs)
  then show ?case by (cases ys) auto
qed

lemma byte_of_char: "byte_char (of_nat (of_char c)) = c"
  using str_of_bytes_of_str [of "[c]"] by (simp add: str_of_bytes_def bytes_of_str_def)

lemma byte_eq_char: "(of_nat (of_char c) :: u8) = of_nat (of_char d) \<longleftrightarrow> c = d"
  by (metis byte_of_char)

lemma bytes_nul: "CHR 0x00 \<notin> set s \<Longrightarrow> 0 \<notin> set (bytes_of_str s)"
proof -
  have "(of_nat (of_char (CHR 0x00)) :: u8) = 0" by simp
  then have "(of_nat (of_char c) :: u8) = 0 \<longleftrightarrow> c = CHR 0x00" for c by (metis byte_eq_char)
  then show "CHR 0x00 \<notin> set s \<Longrightarrow> ?thesis"
    unfolding bytes_of_str_def set_map image_iff by metis
qed

lemma cstr_eq_iff: "cstr_at mem p s \<Longrightarrow> CHR 0x00 \<notin> set e \<Longrightarrow> cstr_eq mem p e \<longleftrightarrow> s = e"
  unfolding cstr_eq_def cstr_at_def
  by (metis bytes_eq_inj bytes_nul str_of_bytes_of_str)

lemma dash_iff: "cstr_at mem p s \<Longrightarrow> arg_starts_with_dash mem p \<longleftrightarrow> (\<exists>t. s = CHR 0x2D # t)"
proof -
  have "(of_nat (of_char (CHR 0x2D)) :: u8) = 0x2d" by simp
  then have "(of_nat (of_char c) :: u8) = 0x2d \<longleftrightarrow> c = CHR 0x2D" for c by (metis byte_eq_char)
  then show "cstr_at mem p s \<Longrightarrow> ?thesis"
    unfolding cstr_at_def arg_starts_with_dash_def bytes_of_str_def
    by (cases s) (simp_all only: list.map bytes_eq.simps list.inject, simp, metis)
qed

text \<open>One step of the loop, by the argument it looks at.\<close>

lemma direct_args_program:
  assumes "i < argc" "cstr_at mem (read_usize mem (argv + 8 * i)) target" "\<not> (\<exists>t. target = CHR 0x2D # t)"
  shows "direct_args mem argc argv i argv0 = Run \<lparr>dp_argv_index = i, dp_argv0 = argv0\<rparr>"
  using assms by (subst direct_args.simps)
    (auto simp: Let_def cstr_eq_iff [OF assms(2)] dash_iff [OF assms(2)] consumes_value_def)

lemma direct_args_inhibit:
  assumes "i < argc" "cstr_at mem (read_usize mem (argv + 8 * i)) ''--inhibit-cache''"
  shows "direct_args mem argc argv i argv0 = direct_args mem argc argv (i + 1) argv0"
  using assms by (subst direct_args.simps) (simp add: Let_def cstr_eq_iff [OF assms(2)] consumes_value_def)

lemma option_value_Some:
  "i + 1 < argc \<Longrightarrow> option_value mem argc argv i = Some (read_usize mem (argv + 8 * (i + 1)))"
  by (simp add: option_value_def)

lemma direct_args_argv0:
  assumes "i < argc" "i + 1 < argc" "cstr_at mem (read_usize mem (argv + 8 * i)) ''--argv0''"
  shows "direct_args mem argc argv i argv0 = direct_args mem argc argv (i + 2) (read_usize mem (argv + 8 * (i + 1)))"
  using assms(1) option_value_Some [OF assms(2)]
  by (subst direct_args.simps) (simp add: Let_def cstr_eq_iff [OF assms(3)])

lemma direct_args_value:
  assumes "i < argc" "i + 1 < argc" "cstr_at mem (read_usize mem (argv + 8 * i)) name" "skipped_ok (With_Value name v)"
  shows "direct_args mem argc argv i argv0 = direct_args mem argc argv (i + 2) argv0"
proof -
  have "name \<notin> {''--help'', ''--version'', ''--list-diagnostics'', ''--list-tunables'', ''--verify'', ''--list'', ''--argv0''}"
    using assms(4) by auto
  moreover have "consumes_value mem (read_usize mem (argv + 8 * i))"
    using assms(4) by (simp add: consumes_value_def cstr_eq_iff [OF assms(3)])
  ultimately show ?thesis
    using assms(1) option_value_Some [OF assms(2)]
    by (subst direct_args.simps) (simp add: Let_def cstr_eq_iff [OF assms(3)])
qed

lemma direct_args_options:
  assumes "args_from mem argv i (concat (map option_words opts) @ target # rest)" "\<forall>opt \<in> set opts. skipped_ok opt"
    and "\<not> (\<exists>t. target = CHR 0x2D # t)"
    and "unat argc = unat i + length (concat (map option_words opts) @ target # rest)"
  shows "\<exists>a0. direct_args mem argc argv i argv0 =
      Run \<lparr>dp_argv_index = i + of_nat (length (concat (map option_words opts))), dp_argv0 = a0\<rparr> \<and>
    (case argv0_of opts of None \<Rightarrow> a0 = argv0 | Some v \<Rightarrow> cstr_at mem a0 v)"
  using assms
proof (induction opts arbitrary: i argv0)
  case Nil
  then show ?case using direct_args_program [of i argc mem argv target argv0] by (simp add: word_less_nat_alt)
next
  case (Cons opt opts)
  have lt: "unat i + length (option_words opt) < unat argc" using Cons.prems(4) by simp
  then have un: "k \<le> length (option_words opt) \<Longrightarrow> unat (i + of_nat k) = unat i + k" for k
    using usize_bound [of argc] by (intro unat_offset) simp
  show ?case
  proof (cases opt)
    case Inhibit_Cache
    with un [of 1] lt Cons.prems Cons.IH [of "i + 1" argv0] show ?thesis
      by (simp add: direct_args_inhibit word_less_nat_alt add.assoc)
  next
    case (With_Value name v)
    with un [of 1] un [of 2] lt Cons.prems Cons.IH [of "i + 2" argv0] direct_args_value [of i argc mem argv name v argv0]
    show ?thesis by (simp add: word_less_nat_alt add.assoc)
  next
    case (Argv0 v)
    with un [of 1] un [of 2] lt Cons.prems Cons.IH [of "i + 2" "read_usize mem (argv + 8 * (i + 1))"]
    show ?thesis by (auto simp: direct_args_argv0 word_less_nat_alt add.assoc split: option.splits)
  qed
qed

section \<open>Decimal output\<close>

definition digits_value :: "u8 list \<Rightarrow> nat" where
  "digits_value ds = foldl (\<lambda>v d. 10 * v + (unat d - 48)) 0 ds"

lemma digit_byte: "n < 10 \<Longrightarrow> unat (0x30 + of_nat n :: u8) = 48 + n"
  by (simp add: unat_word_ariths unat_of_nat)

lemma foldl_digits: "foldl (\<lambda>v d. 10 * v + (unat d - 48)) a ds = a * 10 ^ length ds + digits_value ds" for ds :: "u8 list"
proof (induction ds arbitrary: a)
  case (Cons d ds)
  show ?case using Cons [of "10 * a + (unat d - 48)"] Cons [of "unat d - 48"]
    by (simp add: digits_value_def algebra_simps)
qed (simp add: digits_value_def)

lemma decimal_loop_digits:
  "unat v < 10 ^ index \<Longrightarrow> \<exists>ds. decimal_loop v index acc = Some (ds @ acc) \<and> digits_value ds = unat v \<and>
     (v \<noteq> 0 \<longrightarrow> ds \<noteq> [] \<and> hd ds \<noteq> 0x30) \<and> (\<forall>d \<in> set ds. 0x30 \<le> d \<and> d \<le> 0x39)"
proof (induction index arbitrary: v acc)
  case 0
  then show ?case by (simp add: decimal_loop.simps digits_value_def unat_eq_0)
next
  case (Suc index)
  show ?case
  proof (cases "v = 0")
    case False
    let ?d = "0x30 + ucast (v mod 10) :: u8"
    have "unat (v div 10) < 10 ^ index" using Suc.prems by (simp add: unat_div div_less_iff_less_mult mult.commute)
    from Suc.IH [OF this, of "?d # acc"] obtain ds where ds: "decimal_loop (v div 10) index (?d # acc) = Some (ds @ ?d # acc)"
      "digits_value ds = unat v div 10" "v div 10 \<noteq> 0 \<longrightarrow> ds \<noteq> [] \<and> hd ds \<noteq> 0x30" "\<forall>d \<in> set ds. 0x30 \<le> d \<and> d \<le> 0x39"
      by (auto simp: unat_div)
    have "ucast (v mod 10) = (of_nat (unat (v mod 10)) :: u8)" by simp
    then have "ucast (v mod 10) = (of_nat (unat v mod 10) :: u8)" by (simp only: unat_mod) simp
    with digit_byte [of "unat v mod 10"] have d: "unat ?d = 48 + unat v mod 10" by simp
    have "digits_value (ds @ [?d]) = unat v"
      using ds(2) d by (simp add: digits_value_def)
    moreover have "hd (ds @ [?d]) \<noteq> 0x30"
    proof (cases "v div 10 = 0")
      case True
      with ds(1) have "ds = []" by (simp add: decimal_loop.simps)
      have "unat (v div 10) = 0" using True by simp
      then have "unat v div 10 = 0" by (simp add: unat_div)
      with False have "unat ?d \<noteq> 48" by (simp add: d unat_eq_0 div_eq_0_iff)
      then show ?thesis using \<open>ds = []\<close> by auto
    qed (use ds(3) in simp)
    moreover have "\<forall>d \<in> set (ds @ [?d]). 0x30 \<le> d \<and> d \<le> 0x39"
      using ds(4) d by (auto simp: word_le_nat_alt)
    moreover have "decimal_loop v (Suc index) acc = Some ((ds @ [?d]) @ acc)"
      using ds(1) False by (subst decimal_loop.simps) simp
    ultimately show ?thesis by blast
  qed (simp add: decimal_loop.simps digits_value_def)
qed

section \<open>Descriptors\<close>

text \<open>Apart from a panic, inspecting and listing close what they open.\<close>

lemma inspect_closes:
  "inspect fo mem path w = (r, w') \<Longrightarrow> \<not> panics r \<Longrightarrow> w' = w"
proof (cases "fo_open fo mem path")
  case (Some fd)
  then show "inspect fo mem path w = (r, w') \<Longrightarrow> \<not> panics r \<Longrightarrow> w' = w"
    by (cases "inspect_fd fo fd") (auto simp: inspect_def open_fd_def close_fd_def, metis panics.simps(1))
qed (auto simp: inspect_def open_fd_def)

lemma writes_keep_fds [simp]:
  "cw_fds (write_stdout bs w) = cw_fds w" "cw_fds (write_stderr bs w) = cw_fds w"
  by (simp_all add: write_stdout_def write_stderr_def)

lemma write_cstr_fds:
  assumes "\<And>bs w. cw_fds (out bs w) = cw_fds w" "write_cstr out mem p w = Some w'"
  shows "cw_fds w' = cw_fds w"
  using assms by (auto simp: write_cstr_def split: if_splits option.splits)

lemma print_error_fds: "print_inspect_error mem path err w = Some w' \<Longrightarrow> cw_fds w' = cw_fds w"
  using write_cstr_fds [of write_stderr mem path] by (auto simp: print_inspect_error_def)

lemma list_needed_fds: "list_needed fo fd info ns w = (r, w') \<Longrightarrow> cw_fds w' = cw_fds w"
proof (induction ns arbitrary: w)
  case (Cons n ns)
  then show ?case by (auto simp: Let_def split: option.splits)
qed simp

lemma verify_fds:
  "verify fo mem path w = Some (status, w') \<Longrightarrow> status \<noteq> RTLD_FATAL_EXIT_STATUS \<Longrightarrow> cw_fds w' = cw_fds w"
  using inspect_closes [of fo mem path w] print_error_fds [of mem path]
  by (auto simp: verify_def split: prod.splits res.splits)

lemma cli_list_fds:
  "cli_list fo mem path w = Some (status, w') \<Longrightarrow> status \<noteq> RTLD_FATAL_EXIT_STATUS \<Longrightarrow> cw_fds w' = cw_fds w"
proof -
  assume run: "cli_list fo mem path w = Some (status, w')" and st: "status \<noteq> RTLD_FATAL_EXIT_STATUS"
  obtain r w1 where r: "inspect fo mem path w = (r, w1)" by fastforce
  show ?thesis
  proof (cases r)
    case (Ok info)
    with r have w1: "w1 = w" by (simp add: inspect_closes)
    show ?thesis
    proof (cases "fo_open fo mem path")
      case None
      with run r Ok w1 show ?thesis by (auto simp: cli_list_def open_fd_def dest: print_error_fds)
    next
      case (Some fd)
      obtain b w2 where "list_needed fo fd info (ei_needed info) (w\<lparr>cw_fds := fd # cw_fds w\<rparr>) = (b, w2)" by fastforce
      with run st r Ok w1 Some list_needed_fds [OF this] show ?thesis
        by (auto simp: cli_list_def open_fd_def close_fd_def split: bool.splits)
    qed
  next
    case (Err e)
    with run r inspect_closes [OF r] show ?thesis by (auto simp: cli_list_def dest: print_error_fds)
  qed (use run r st in \<open>simp add: cli_list_def\<close>)
qed

section \<open>Properties\<close>

lemma program_found:
  assumes "args_from mem argv 0 (self # concat (map option_words opts) @ target # rest)"
    and "\<forall>opt \<in> set opts. skipped_ok opt" "\<not> (\<exists>t. target = CHR 0x2D # t)"
    and "unat argc = length (self # concat (map option_words opts) @ target # rest)"
  shows "\<exists>a0. handle_direct_invocation fo mem argc argv w =
      Some (Inr \<lparr>dp_argv_index = of_nat (length (self # concat (map option_words opts))), dp_argv0 = a0\<rparr>, w) \<and>
    (case argv0_of opts of None \<Rightarrow> a0 = 0 | Some v \<Rightarrow> cstr_at mem a0 v)"
proof -
  have "\<not> argc \<le> 1" using assms(4) by (simp add: word_le_nat_alt)
  moreover from direct_args_options [of mem argv 1 opts target rest argc 0] assms
  obtain a0 where "direct_args mem argc argv 1 0 =
      Run \<lparr>dp_argv_index = 1 + of_nat (length (concat (map option_words opts))), dp_argv0 = a0\<rparr>"
    "case argv0_of opts of None \<Rightarrow> a0 = 0 | Some v \<Rightarrow> cstr_at mem a0 v" by auto
  ultimately show ?thesis by (intro exI [of _ a0]) (simp add: handle_direct_invocation_def)
qed

text \<open>
  C39. Run as \<open>ld.so [options] program args\<close>, the dynamic linker finds the program behind the
  options it skips, whatever values they have, prints nothing, and takes the last \<open>--argv0\<close> as
  the program's name for itself.
\<close>

theorem direct_invocation_finds_program:
  assumes "args_from mem argv 0 (self # concat (map option_words opts) @ target # rest)"
    and "\<forall>opt \<in> set opts. skipped_ok opt" "\<not> (\<exists>t. target = CHR 0x2D # t)"
    and "unat argc = length (self # concat (map option_words opts) @ target # rest)"
  shows "\<exists>a0. handle_direct_invocation fo mem argc argv w =
      Some (Inr \<lparr>dp_argv_index = of_nat (length (self # concat (map option_words opts))), dp_argv0 = a0\<rparr>, w) \<and>
    (case argv0_of opts of None \<Rightarrow> a0 = 0 | Some v \<Rightarrow> cstr_at mem a0 v)"
  using assms by (rule program_found)

text \<open>The command line \<open>ld.so --argv0 x /bin/true\<close>, its strings at \<open>0x2000\<close>.\<close>

definition ex_strings :: memory where
  "ex_strings a =
     (let s = bytes_of_str ''ld.so'' @ [0] @ bytes_of_str ''--argv0'' @ [0] @ bytes_of_str ''x'' @ [0] @
              bytes_of_str ''/bin/true'' @ [0]
      in if a - 0x2000 < 26 then s ! unat (a - 0x2000) else 0)"

definition ex_cmdline :: memory where
  "ex_cmdline = store_words 0x1000 [0x2000, 0x2006, 0x200e, 0x2010] ex_strings"

lemma ex_cmdline_args: "args_from ex_cmdline 0x1000 0 [''ld.so'', ''--argv0'', ''x'', ''/bin/true'']"
proof -
  have "words_at ex_cmdline 0x1000 [0x2000, 0x2006, 0x200e, 0x2010]"
    unfolding ex_cmdline_def by (rule store_words_at) simp
  then have words: "read_usize ex_cmdline 0x1000 = 0x2000" "read_usize ex_cmdline 0x1008 = 0x2006"
    "read_usize ex_cmdline 0x1010 = 0x200e" "read_usize ex_cmdline 0x1018 = 0x2010" by simp_all
  have "bytes_eq ex_cmdline 0x2000 (bytes_of_str ''ld.so'')" "bytes_eq ex_cmdline 0x2006 (bytes_of_str ''--argv0'')"
    "bytes_eq ex_cmdline 0x200e (bytes_of_str ''x'')" "bytes_eq ex_cmdline 0x2010 (bytes_of_str ''/bin/true'')"
    by (simp_all add: ex_cmdline_def write_usize_def ex_strings_def bytes_of_str_def)
  with words show ?thesis by (simp add: cstr_at_def)
qed

theorem direct_invocation_finds_program_witness:
  "\<forall>fo w. \<exists>a0. handle_direct_invocation fo ex_cmdline 4 0x1000 w = Some (Inr \<lparr>dp_argv_index = 3, dp_argv0 = a0\<rparr>, w) \<and>
     cstr_at ex_cmdline a0 ''x''"
  using direct_invocation_finds_program [of ex_cmdline "0x1000" "''ld.so''" "[Argv0 ''x'']" "''/bin/true''" "[]" 4]
    ex_cmdline_args by simp

text \<open>
  A number is printed as its decimal digits, without leading zero, and the twenty places of
  the buffer are enough for every \<open>usize\<close>.
\<close>

theorem write_decimal_prints:
  "\<exists>ds. write_decimal v w = Some (write_stdout ds w) \<and> digits_value ds = unat v \<and>
     (\<forall>d \<in> set ds. 0x30 \<le> d \<and> d \<le> 0x39) \<and> (v \<noteq> 0 \<longrightarrow> hd ds \<noteq> 0x30)"
proof (cases "v = 0")
  case False
  have "unat v < 10 ^ 20" using usize_bound [of v] by simp
  from decimal_loop_digits [OF this, of "[]"] False show ?thesis by (auto simp: write_decimal_def)
qed (simp add: write_decimal_def digits_value_def exI [of _ "[0x30]"])

theorem write_decimal_prints_witness:
  "\<forall>w. \<exists>ds. write_decimal 18446744073709551615 w = Some (write_stdout ds w) \<and>
     digits_value ds = 18446744073709551615"
  using write_decimal_prints [of 18446744073709551615] by auto

end
