(* ===== verification/Rtld_Bootstrap.thy ===== *)
theory Rtld_Bootstrap
  imports Stage1 Rtld_Globals Rtld_Cli
begin

text \<open>
  \<open>rtld/impl/src/bootstrap.rs\<close>: the entry of the replacement dynamic linker. It reads the
  initial stack, relocates itself, publishes the variables the C library reads, and runs
  stage 1 for the program the kernel mapped or for the program on its command line.

  The bootstrap ends by jumping to an entry point or by leaving the process with a status; a
  panic is status 127. \<open>None\<close> is a run that does not end or needs more fuel. The functions of the
  TLS backend, which call the kernel, are parameters.
\<close>

section \<open>State\<close>

record 'c boot_state =
  bs_stage1 :: "'c stage1_state"
  bs_link_maps :: "usize \<Rightarrow> link_map"
  bs_r_debug :: r_debug
  bs_dl_argv :: usize
  bs_libc_stack_end :: usize
  bs_libc_enable_secure :: int
  bs_out :: cli_world

record ('c, 'i, 'l) boot_env =
  be_statics :: rtld_statics
  be_stage1 :: "('c, 'i, 'l) stage1_env"
  be_files :: file_ops
  be_tcb :: "usize \<Rightarrow> memory \<Rightarrow> bool \<times> memory"
  be_thread_pointer :: "usize \<Rightarrow> bool"
  be_show_elf :: "elf_error \<Rightarrow> string"

datatype boot_outcome = Enter usize | Exit_Process usize

definition TLS_TCB_SIZE :: usize where "TLS_TCB_SIZE = 4096"
definition TLS_TCB_ALIGN :: usize where "TLS_TCB_ALIGN = 64"

definition rtld_tls_backend :: "('c, 'i, 'l) boot_env \<Rightarrow> tls_backend" where
  "rtld_tls_backend env = \<lparr>be_init_tcb = be_tcb env, be_install_thread_pointer = be_thread_pointer env,
     be_tcb_size = TLS_TCB_SIZE, be_tcb_align = TLS_TCB_ALIGN\<rparr>"

definition bs_mem :: "'c boot_state \<Rightarrow> memory" where
  "bs_mem s = s1_mem (bs_stage1 s)"

definition set_bs_mem :: "memory \<Rightarrow> 'c boot_state \<Rightarrow> 'c boot_state" where
  "set_bs_mem mem s = s\<lparr>bs_stage1 := set_s1_mem mem (bs_stage1 s)\<rparr>"

section \<open>Publishing\<close>

record boot_args =
  ba_argc :: usize
  ba_argv :: usize
  ba_envp :: usize
  ba_auxv :: usize
  ba_main_load_bias :: usize
  ba_main_dynamic :: usize
  ba_rtld_load_bias :: usize
  ba_rtld_dynamic :: usize
  ba_mode :: bootstrap_mode
  ba_exec_path :: usize

definition main_link_map_of :: "rtld_statics \<Rightarrow> aux_state \<Rightarrow> boot_args \<Rightarrow> link_map" where
  "main_link_map_of sv aux a =
     link_map_zero\<lparr>l_addr := ba_main_load_bias a, l_name := sv_empty_name sv, l_ld := ba_main_dynamic a,
       l_next := rtld_link_map sv, l_prev := 0, l_real := sv_main_link_map sv, l_phdr := ax_phdr aux,
       l_entry := ax_entry aux, l_phnum := ucast (ax_phnum aux)\<rparr>"

definition rtld_link_map_of :: "rtld_statics \<Rightarrow> rtld_elf_info \<Rightarrow> boot_args \<Rightarrow> link_map" where
  "rtld_link_map_of sv info a =
     link_map_zero\<lparr>l_addr := ba_rtld_load_bias a, l_name := sv_rtld_name sv, l_ld := ba_rtld_dynamic a,
       l_next := 0, l_prev := sv_main_link_map sv, l_real := rtld_link_map sv, l_phdr := ri_phdr info,
       l_entry := ri_entry info, l_phnum := ucast (ri_phnum info)\<rparr>"

definition ro_aux_of :: "aux_state \<Rightarrow> boot_args \<Rightarrow> rtld_global_ro_aux" where
  "ro_aux_of aux a = \<lparr>ra_auxv = ba_auxv a, ra_platform = ax_platform aux, ra_pagesize = ax_pagesize aux,
     ra_minsigstacksize = ax_minsigstacksize aux, ra_clktck = ax_clktck aux, ra_fpucw = ax_fpucw aux,
     ra_hwcap = ax_hwcap aux, ra_hwcap2 = ax_hwcap2 aux, ra_hwcap3 = ax_hwcap3 aux, ra_hwcap4 = ax_hwcap4 aux,
     ra_sysinfo_ehdr = ax_sysinfo_ehdr aux\<rparr>"

definition bootstrap_state_of :: "aux_state \<Rightarrow> rtld_elf_info \<Rightarrow> boot_args \<Rightarrow> bootstrap_state" where
  "bootstrap_state_of aux info a =
     \<lparr>bt_argc = ba_argc a, bt_argv = ba_argv a, bt_envp = ba_envp a, bt_auxv = ba_auxv a, bt_mode = ba_mode a,
      bt_exec_path = ba_exec_path a,
      bt_main = \<lparr>bo_load_bias = ba_main_load_bias a, bo_dynamic = ba_main_dynamic a, bo_phdr = ax_phdr aux,
        bo_phnum = ax_phnum aux, bo_entry = ax_entry aux\<rparr>,
      bt_rtld = \<lparr>bo_load_bias = ba_rtld_load_bias a, bo_dynamic = ba_rtld_dynamic a, bo_phdr = ri_phdr info,
        bo_phnum = ri_phnum info, bo_entry = ri_entry info\<rparr>\<rparr>"

definition publish_bootstrap_objects ::
  "('c, 'i, 'l) boot_env \<Rightarrow> aux_state \<Rightarrow> boot_args \<Rightarrow> 'c boot_state \<Rightarrow> (bootstrap_state \<times> 'c boot_state) option" where
  "publish_bootstrap_objects env aux a s =
     (let sv = be_statics env;
          main = sv_main_link_map sv;
          rtld = rtld_link_map sv;
          info = rtld_elf_info_of (se_view (be_stage1 env)) (bs_mem s) (ba_rtld_load_bias a);
          r_debug = \<lparr>rd_version = 1, rd_map = main, rd_brk = Some (sv_dl_debug_state sv), rd_state = RT_CONSISTENT,
                     rd_ldbase = ba_rtld_load_bias a\<rparr>;
          s = s\<lparr>bs_link_maps := (bs_link_maps s)(main := main_link_map_of sv aux a, rtld := rtld_link_map_of sv info a),
                bs_r_debug := r_debug\<rparr>
      in case publish_rtld_globals sv main rtld r_debug (ro_aux_of aux a) (bs_mem s) of
           None \<Rightarrow> None
         | Some mem \<Rightarrow>
             Some (bootstrap_state_of aux info a,
               set_bs_mem mem (s\<lparr>bs_libc_enable_secure := (if ax_secure aux = 0 then 0 else 1)\<rparr>)))"

definition finish_stage1 :: "('c, 'i, 'l) boot_env \<Rightarrow> usize \<Rightarrow> 'c boot_state \<Rightarrow> boot_outcome \<times> 'c boot_state" where
  "finish_stage1 env entry s =
     (case static_info (s1_tls (bs_stage1 s)) of (sz, align) \<Rightarrow>
        (Enter entry, set_bs_mem (publish_tls_static_info (sv_rtld_global_ro (be_statics env)) sz align (bs_mem s)) s))"

definition write_stage1_error :: "('c, 'i, 'l) boot_env \<Rightarrow> string \<Rightarrow> error \<Rightarrow> 'c boot_state \<Rightarrow> 'c boot_state" where
  "write_stage1_error env pre err s =
     s\<lparr>bs_out := write_stderr (bytes_of_str lf)
         (write_stderr (bytes_of_str (error_to_string (be_show_elf env) err))
           (write_stderr (bytes_of_str pre) (bs_out s)))\<rparr>"

definition exit_fatal :: "'c boot_state \<Rightarrow> boot_outcome \<times> 'c boot_state" where
  "exit_fatal s = (Exit_Process RTLD_FATAL_EXIT_STATUS, s)"

text \<open>The call of \<open>stage1\<close>; \<open>failed\<close> is what the caller does with an error.\<close>

definition run_stage1 ::
  "nat \<Rightarrow> nat \<Rightarrow> nat \<Rightarrow> ('c, 'i, 'l) boot_env \<Rightarrow> bootstrap_state \<Rightarrow>
     (error \<Rightarrow> 'c boot_state \<Rightarrow> boot_outcome \<times> 'c boot_state) \<Rightarrow> 'c boot_state \<Rightarrow> (boot_outcome \<times> 'c boot_state) option" where
  "run_stage1 k n t env state failed s =
     map_option (\<lambda>(r, s1).
       (let s' = s\<lparr>bs_stage1 := s1\<rparr> in
        case r of Ok entry \<Rightarrow> finish_stage1 env entry s' | Err e \<Rightarrow> failed e s' | Panic p \<Rightarrow> exit_fatal s'))
       (stage1 k n t (be_stage1 env) state (bs_stage1 s))"

definition start_direct ::
  "nat \<Rightarrow> nat \<Rightarrow> nat \<Rightarrow> ('c, 'i, 'l) boot_env \<Rightarrow> usize \<Rightarrow> usize \<Rightarrow> aux_state \<Rightarrow> usize \<Rightarrow> usize \<Rightarrow> 'c boot_state \<Rightarrow>
     (boot_outcome \<times> 'c boot_state) option" where
  "start_direct k n t env stack argc aux rtld_load_bias rtld_dynamic s =
     (case handle_direct_invocation (be_files env) (bs_mem s) argc (stack + 8) (bs_out s) of
        None \<Rightarrow> None
      | Some (Inl status, out) \<Rightarrow> Some (Exit_Process status, s\<lparr>bs_out := out\<rparr>)
      | Some (Inr direct, out) \<Rightarrow>
          (let s = s\<lparr>bs_out := out\<rparr> in
           case rewrite_initial_stack_for_program stack argc direct (bs_mem s) of
             None \<Rightarrow> None
           | Some (Inl _) \<Rightarrow> Some (exit_fatal s)
           | Some (Inr (rewritten, mem)) \<Rightarrow>
               (case publish_bootstrap_objects env aux
                       \<lparr>ba_argc = rs_argc rewritten, ba_argv = rs_argv rewritten, ba_envp = rs_envp rewritten,
                        ba_auxv = rs_auxv rewritten, ba_main_load_bias = 0, ba_main_dynamic = 0,
                        ba_rtld_load_bias = rtld_load_bias, ba_rtld_dynamic = rtld_dynamic, ba_mode = DirectExec,
                        ba_exec_path = rs_exec_path rewritten\<rparr> (set_bs_mem mem s) of
                  None \<Rightarrow> None
                | Some (state, s) \<Rightarrow>
                    run_stage1 k n t env state
                      (\<lambda>e s. exit_fatal (write_stage1_error env ''rtld: direct exec failed: '' e s)) s)))"

definition start_mapped ::
  "nat \<Rightarrow> nat \<Rightarrow> nat \<Rightarrow> ('c, 'i, 'l) boot_env \<Rightarrow> boot_args \<Rightarrow> aux_state \<Rightarrow> 'c boot_state \<Rightarrow>
     (boot_outcome \<times> 'c boot_state) option" where
  "start_mapped k n t env a aux s =
     (case publish_bootstrap_objects env aux a s of
        None \<Rightarrow> None
      | Some (state, s) \<Rightarrow>
          run_stage1 k n t env state (\<lambda>e s.
            if ax_entry aux \<noteq> 0 \<and>
               (case dynamic_info_parse (se_view (be_stage1 env)) (bs_mem s) (ba_main_dynamic a) of
                  Some info \<Rightarrow> can_tail_jump_main info | None \<Rightarrow> False)
            then (Enter (ax_entry aux), s)
            else exit_fatal (write_stage1_error env ''rtld: stage-1 failed: '' e s)) s)"

text \<open>What the bootstrap finds on the stack and in the program headers of the kernel.\<close>

definition rtld_bias :: "elf_view \<Rightarrow> memory \<Rightarrow> aux_state \<Rightarrow> usize \<Rightarrow> bool \<times> usize" where
  "rtld_bias view mem aux rtld_dynamic =
     (let kernel_load_bias = main_load_bias view mem aux;
          kernel_dynamic = main_dynamic view mem aux kernel_load_bias;
          direct_invocation = (ax_base aux = 0 \<or> kernel_dynamic = rtld_dynamic)
      in (direct_invocation,
          if direct_invocation then rtld_load_bias_from_dynamic view mem aux rtld_dynamic kernel_load_bias
          else ax_base aux))"

definition rtld_bootstrap ::
  "nat \<Rightarrow> nat \<Rightarrow> nat \<Rightarrow> ('c, 'i, 'l) boot_env \<Rightarrow> usize \<Rightarrow> usize \<Rightarrow> 'c boot_state \<Rightarrow> (boot_outcome \<times> 'c boot_state) option" where
  "rtld_bootstrap k n t env stack rtld_dynamic s =
     (let view = se_view (be_stage1 env);
          mem = bs_mem s;
          argc = read_usize mem stack;
          argv = stack + 8;
          envp_start = stack + 8 * (argc + 2)
      in case skip_words mem envp_start of
           None \<Rightarrow> None
         | Some envp \<Rightarrow>
             (let auxv = envp + 8 in
              case parse_auxv mem auxv of
                None \<Rightarrow> None
              | Some aux \<Rightarrow>
                  (let (direct_invocation, rtld_load_bias) = rtld_bias view mem aux rtld_dynamic;
                       kernel_load_bias = main_load_bias view mem aux;
                       kernel_dynamic = main_dynamic view mem aux kernel_load_bias
                   in case dynamic_info_parse view mem rtld_dynamic of
                        None \<Rightarrow> Some (exit_fatal s)
                      | Some info \<Rightarrow>
                          (case relocate_rtld_relative view info rtld_load_bias mem of (relocated, mem) \<Rightarrow>
                             (let s = set_bs_mem mem s in
                              if \<not> relocated then Some (exit_fatal s)
                              else
                                (let st = bs_stage1 s;
                                     s = s\<lparr>bs_stage1 := st\<lparr>s1_tls := register_backend (rtld_tls_backend env) (s1_tls st)\<rparr>,
                                           bs_dl_argv := argv, bs_libc_stack_end := stack\<rparr>
                                 in if direct_invocation
                                    then start_direct k n t env stack argc aux rtld_load_bias rtld_dynamic s
                                    else start_mapped k n t env
                                           \<lparr>ba_argc = argc, ba_argv = argv, ba_envp = envp_start, ba_auxv = auxv,
                                            ba_main_load_bias = kernel_load_bias, ba_main_dynamic = kernel_dynamic,
                                            ba_rtld_load_bias = rtld_load_bias, ba_rtld_dynamic = rtld_dynamic,
                                            ba_mode = KernelMappedMain, ba_exec_path = 0\<rparr> aux s))))))"

section \<open>Outcomes\<close>

lemma run_stage1_Enter:
  assumes "run_stage1 k n t env state failed s = Some (Enter e, s')"
  obtains s1 where "stage1 k n t (be_stage1 env) state (bs_stage1 s) = Some (Ok e, s1)"
    | s1 err where "stage1 k n t (be_stage1 env) state (bs_stage1 s) = Some (Err err, s1)"
        "failed err (s\<lparr>bs_stage1 := s1\<rparr>) = (Enter e, s')"
proof -
  from assms obtain r s1 where r: "stage1 k n t (be_stage1 env) state (bs_stage1 s) = Some (r, s1)"
    and c: "(case r of Ok entry \<Rightarrow> finish_stage1 env entry (s\<lparr>bs_stage1 := s1\<rparr>) | Err e \<Rightarrow> failed e (s\<lparr>bs_stage1 := s1\<rparr>)
      | Panic p \<Rightarrow> exit_fatal (s\<lparr>bs_stage1 := s1\<rparr>)) = (Enter e, s')"
    by (auto simp: run_stage1_def Let_def)
  show thesis
  proof (cases r)
    case (Ok a)
    with c have "a = e" by (auto simp: finish_stage1_def split: prod.splits)
    with r Ok that(1) show thesis by blast
  next
    case (Err err)
    with r c that(2) show thesis by auto
  qed (use c in \<open>simp add: exit_fatal_def\<close>)
qed

text \<open>
  Where control may go: to the entry point stage 1 returned for the state published from the
  auxiliary vector \<open>aux\<close>, or, when it failed, to the program the kernel mapped with the
  dynamic section \<open>dyn\<close>, if that program has nothing to link.
\<close>

definition may_enter ::
  "nat \<Rightarrow> nat \<Rightarrow> nat \<Rightarrow> ('c, 'i, 'l) boot_env \<Rightarrow> aux_state \<Rightarrow> usize \<Rightarrow> usize \<Rightarrow> 'c boot_state \<Rightarrow> bool" where
  "may_enter k n t env aux dyn e s' \<longleftrightarrow> (\<exists>a s0 state s1 r st'.
     publish_bootstrap_objects env aux a s0 = Some (state, s1) \<and>
     stage1 k n t (be_stage1 env) state (bs_stage1 s1) = Some (r, st') \<and>
     (r = Ok e \<or> (\<exists>err. r = Err err) \<and> bt_mode state = KernelMappedMain \<and> e = ax_entry aux \<and> e \<noteq> 0 \<and>
       (\<exists>info. dynamic_info_parse (se_view (be_stage1 env)) (bs_mem s') dyn = Some info \<and> can_tail_jump_main info)))"

lemma may_enter_Ok:
  "publish_bootstrap_objects env aux a s0 = Some (state, s1) \<Longrightarrow>
     stage1 k n t (be_stage1 env) state (bs_stage1 s1) = Some (Ok e, st') \<Longrightarrow> may_enter k n t env aux dyn e s'"
  unfolding may_enter_def by blast

lemma publish_state:
  "publish_bootstrap_objects env aux a s = Some (state, s') \<Longrightarrow> bt_mode state = ba_mode a"
  by (auto simp: publish_bootstrap_objects_def bootstrap_state_of_def Let_def split: option.splits)

lemma start_direct_Enter:
  assumes "start_direct k n t env stack argc aux bias rdyn s = Some (Enter e, s')"
  shows "may_enter k n t env aux dyn e s'"
proof -
  from assms obtain a s0 state s1 where pub: "publish_bootstrap_objects env aux a s0 = Some (state, s1)" and
    run: "run_stage1 k n t env state (\<lambda>e s. exit_fatal (write_stage1_error env ''rtld: direct exec failed: '' e s)) s1 = Some (Enter e, s')"
    by (auto simp: start_direct_def Let_def exit_fatal_def split: option.splits prod.splits sum.splits)
  from run show ?thesis
    by (cases rule: run_stage1_Enter) (auto simp: exit_fatal_def intro: may_enter_Ok [OF pub])
qed

lemma start_mapped_Enter:
  assumes "start_mapped k n t env a aux s = Some (Enter e, s')" "ba_mode a = KernelMappedMain" "ba_main_dynamic a = dyn"
  shows "may_enter k n t env aux dyn e s'"
proof -
  from assms(1) obtain state s1 where pub: "publish_bootstrap_objects env aux a s = Some (state, s1)"
    and run: "run_stage1 k n t env state (\<lambda>e s.
            if ax_entry aux \<noteq> 0 \<and>
               (case dynamic_info_parse (se_view (be_stage1 env)) (bs_mem s) (ba_main_dynamic a) of
                  Some info \<Rightarrow> can_tail_jump_main info | None \<Rightarrow> False)
            then (Enter (ax_entry aux), s)
            else exit_fatal (write_stage1_error env ''rtld: stage-1 failed: '' e s)) s1 = Some (Enter e, s')"
    by (auto simp: start_mapped_def split: option.splits prod.splits)
  from run show ?thesis
  proof (cases rule: run_stage1_Enter)
    case (2 st err)
    then have "e = ax_entry aux" "e \<noteq> 0"
      "\<exists>info. dynamic_info_parse (se_view (be_stage1 env)) (bs_mem s') dyn = Some info \<and> can_tail_jump_main info"
      using assms(3) by (auto simp: exit_fatal_def split: if_splits option.splits)
    moreover from publish_state [OF pub] assms(2) have "bt_mode state = KernelMappedMain" by simp
    ultimately show ?thesis using 2(1) pub unfolding may_enter_def by blast
  qed (rule may_enter_Ok [OF pub])
qed

section \<open>Publishing\<close>

lemma bs_mem_simps [simp]:
  "bs_mem (set_bs_mem mem s) = mem" "bs_mem (s\<lparr>bs_link_maps := lm\<rparr>) = bs_mem s" "bs_mem (s\<lparr>bs_r_debug := d\<rparr>) = bs_mem s"
  "bs_mem (s\<lparr>bs_libc_enable_secure := b\<rparr>) = bs_mem s" "bs_mem (s\<lparr>bs_out := out\<rparr>) = bs_mem s"
  "bs_link_maps (set_bs_mem mem s) = bs_link_maps s" "bs_r_debug (set_bs_mem mem s) = bs_r_debug s"
  by (simp_all add: bs_mem_def set_bs_mem_def s1_mem_def set_s1_mem_def)

lemma publish_globals_outside:
  assumes "publish_rtld_globals sv main rtld d aux mem = Some mem'"
    and "\<not> inside x (sv_rtld_global sv) 4352" "\<not> inside x (sv_rtld_global_ro sv) 952" "\<not> inside x (sv_initial_searchlist sv) 16"
  shows "mem' x = mem x"
proof -
  let ?g = "rtld_global_publish (sv_rtld_global sv) main (at_field rtld_global_ro_fields (sv_rtld_global_ro sv) Ro_initial_searchlist) d mem"
  have run: "rtld_global_ro_publish (sv_rtld_global_ro sv) (sv_initial_searchlist sv) main rtld aux ?g = Some mem'"
    using assms(1) by (simp add: publish_rtld_globals_def Let_def)
  from ro_publish_outside [OF run assms(3,4)] global_publish_outside [OF assms(2)] show ?thesis by simp
qed

text \<open>What a debugger and the C library find after publishing.\<close>

lemma published:
  assumes "statics_apart (be_statics env)" "platform_ends (be_statics env) (ax_platform aux) n (bs_mem s)"
    and "sv_main_link_map (be_statics env) \<noteq> 0" "rtld_link_map (be_statics env) \<noteq> 0"
      "sv_main_link_map (be_statics env) \<noteq> rtld_link_map (be_statics env)"
  shows "\<exists>state s'. publish_bootstrap_objects env aux a s = Some (state, s') \<and>
    (let sv = be_statics env; main = sv_main_link_map sv; rtld = rtld_link_map sv; lm = bs_link_maps s' in
     rd_map (bs_r_debug s') = main \<and> seg lm 0 main [main, rtld] 0 rtld \<and>
     words_at (bs_mem s') (sv_initial_searchlist sv) [main, rtld] \<and>
     l_addr (lm main) = bo_load_bias (bt_main state) \<and> l_ld (lm main) = bo_dynamic (bt_main state) \<and>
     l_addr (lm rtld) = bo_load_bias (bt_rtld state) \<and> l_ld (lm rtld) = bo_dynamic (bt_rtld state) \<and>
     l_phdr (lm rtld) = bo_phdr (bt_rtld state) \<and>
     bo_load_bias (bt_main state) = ba_main_load_bias a \<and> bo_load_bias (bt_rtld state) = ba_rtld_load_bias a \<and>
     state = bootstrap_state_of aux (rtld_elf_info_of (se_view (be_stage1 env)) (bs_mem s) (ba_rtld_load_bias a)) a \<and>
     (\<forall>x. \<not> inside x (sv_rtld_global sv) 4352 \<and> \<not> inside x (sv_rtld_global_ro sv) 952 \<and> \<not> inside x (sv_initial_searchlist sv) 16 \<longrightarrow>
        bs_mem s' x = bs_mem s x))"
proof -
  let ?sv = "be_statics env"
  let ?d = "\<lparr>rd_version = 1, rd_map = sv_main_link_map ?sv, rd_brk = Some (sv_dl_debug_state ?sv), rd_state = RT_CONSISTENT,
    rd_ldbase = ba_rtld_load_bias a\<rparr>"
  have "ra_platform (ro_aux_of aux a) = ax_platform aux" by (simp add: ro_aux_of_def)
  with globals_published [OF assms(1), of "ro_aux_of aux a" n "bs_mem s" "sv_main_link_map ?sv" "rtld_link_map ?sv" ?d] assms(2)
  obtain mem' where pub: "publish_rtld_globals ?sv (sv_main_link_map ?sv) (rtld_link_map ?sv) ?d (ro_aux_of aux a) (bs_mem s) = Some mem'"
    and words: "words_at mem' (sv_initial_searchlist ?sv) [sv_main_link_map ?sv, rtld_link_map ?sv]" by auto
  show ?thesis
    using words assms(3-5) publish_globals_outside [OF pub]
    by (auto simp: publish_bootstrap_objects_def Let_def pub bootstrap_state_of_def main_link_map_of_def rtld_link_map_of_def)
qed

section \<open>A program on the command line\<close>

lemma args_from_nth:
  "args_from mem argv j ss \<Longrightarrow> i < length ss \<Longrightarrow> cstr_at mem (read_usize mem (argv + 8 * (j + of_nat i))) (ss ! i)"
proof (induction ss arbitrary: j i)
  case (Cons s ss)
  then show ?case by (cases i) (auto simp: algebra_simps dest: Cons.IH)
qed simp

definition boot_ready :: "('c, 'i, 'l) boot_env \<Rightarrow> bool" where
  "boot_ready env \<longleftrightarrow> statics_apart (be_statics env) \<and> sv_main_link_map (be_statics env) \<noteq> 0 \<and>
     rtld_link_map (be_statics env) \<noteq> 0 \<and> sv_main_link_map (be_statics env) \<noteq> rtld_link_map (be_statics env)"

text \<open>The stack does not overlap the variables of the dynamic linker.\<close>

definition stack_apart :: "rtld_statics \<Rightarrow> usize \<Rightarrow> nat \<Rightarrow> bool" where
  "stack_apart sv stack n \<longleftrightarrow> disjoint_regions stack n (sv_rtld_global sv) 4352 \<and>
     disjoint_regions stack n (sv_rtld_global_ro sv) 952 \<and> disjoint_regions stack n (sv_initial_searchlist sv) 16"

lemma direct_started:
  fixes s :: "'c boot_state" and opts :: "skipped list"
  assumes words: "words_at (bs_mem s) stack (stack_words argv envs es w)" "0 \<notin> set envs" "aux_kinds_ok es"
      "unat stack + 8 * length (stack_words argv envs es w) < 2 ^ 64"
    and args: "args_from (bs_mem s) (stack + 8) 0 (self # concat (map option_words opts) @ target # rest)"
      "length argv = length (self # concat (map option_words opts) @ target # rest)"
      "\<forall>opt \<in> set opts. skipped_ok opt" "\<not> (\<exists>t. target = CHR 0x2D # t)" "argv0_of opts = None"
    and env: "boot_ready env" "stack_apart (be_statics env) stack (8 * length (stack_words argv envs es w))" "ax_platform aux = 0"
  shows "\<exists>state s'. start_direct k n t env stack (of_nat (length argv)) aux bias dyn s =
      run_stage1 k n t env state (\<lambda>e s. exit_fatal (write_stage1_error env ''rtld: direct exec failed: '' e s)) s' \<and>
    bt_mode state = DirectExec \<and> unat (bt_argc state) = length (target # rest) \<and> bt_argv state = stack + 8 \<and>
    cstr_at (bs_mem s) (bt_exec_path state) target \<and>
    words_at (bs_mem s') stack (stack_words (drop (length (self # concat (map option_words opts))) argv) envs es w) \<and>
    auxv_at (bs_mem s') (bt_auxv state) es w"
proof -
  let ?n = "8 * length (stack_words argv envs es w)" and ?sv = "be_statics env"
  define i where "i = length (self # concat (map option_words opts))"
  let ?argv' = "drop i argv"
  have i: "i < length argv" "length ?argv' = length (target # rest)" using args(2) by (simp_all add: i_def)
  have "length argv < 2 ^ 61" using words(4) by (simp add: stack_words_def)
  then have un: "unat (of_nat m :: usize) = m" if "m \<le> length argv" for m using that by (simp add: unat_of_nat)
  from program_found [OF args(1,3,4), of "of_nat (length argv)" "be_files env" "bs_out s"] un [of "length argv"] args(2,5)
  have direct: "handle_direct_invocation (be_files env) (bs_mem s) (of_nat (length argv)) (stack + 8) (bs_out s) =
      Some (Inr \<lparr>dp_argv_index = of_nat i, dp_argv0 = 0\<rparr>, bs_out s)" unfolding i_def by auto
  let ?d = "\<lparr>dp_argv_index = of_nat i, dp_argv0 = 0\<rparr> :: direct_program"
  have index: "unat (dp_argv_index ?d) = i" using un [of i] i(1) by simp
  then have "?argv' = (let args = drop (unat (dp_argv_index ?d)) argv in if dp_argv0 ?d = 0 then args else dp_argv0 ?d # tl args)"
    by simp
  from stack_rewritten [OF words _ this] index i(1) obtain rs mem where
    rw: "rewrite_initial_stack_for_program stack (of_nat (length argv)) ?d (bs_mem s) = Some (Inr (rs, mem))"
    and mem: "words_at mem stack (stack_words ?argv' envs es w)" "unat (rs_argc rs) = length ?argv'" "rs_argv rs = stack + 8"
      "rs_exec_path rs = argv ! i" "rs_auxv rs = stack + 8 * (of_nat (length ?argv') + 2) + 8 * of_nat (length envs) + 8"
    by auto
  let ?a = "\<lparr>ba_argc = rs_argc rs, ba_argv = rs_argv rs, ba_envp = rs_envp rs, ba_auxv = rs_auxv rs, ba_main_load_bias = 0,
      ba_main_dynamic = 0, ba_rtld_load_bias = bias, ba_rtld_dynamic = dyn, ba_mode = DirectExec, ba_exec_path = rs_exec_path rs\<rparr>"
  let ?s = "set_bs_mem mem (s\<lparr>bs_out := bs_out s\<rparr>)"
  have "platform_ends ?sv (ax_platform aux) 0 (bs_mem ?s)" using env(3) by (simp add: platform_ends_def)
  from published [OF _ this, of ?a] env(1) obtain state s' where
    pub: "publish_bootstrap_objects env aux ?a ?s = Some (state, s')"
    and state: "state = bootstrap_state_of aux (rtld_elf_info_of (se_view (be_stage1 env)) mem bias) ?a"
    and out: "\<And>x. \<not> inside x (sv_rtld_global ?sv) 4352 \<Longrightarrow> \<not> inside x (sv_rtld_global_ro ?sv) 952 \<Longrightarrow>
      \<not> inside x (sv_initial_searchlist ?sv) 16 \<Longrightarrow> bs_mem s' x = mem x"
    by (auto simp: boot_ready_def Let_def)
  have "bs_mem s' x = mem x" if "inside x stack (8 * length (stack_words ?argv' envs es w))" for x
  proof -
    have "inside x stack ?n" using that inside_mono [of x stack 0 "8 * length (stack_words ?argv' envs es w)" ?n]
      by (simp add: stack_words_def)
    with env(2) show ?thesis by (intro out) (auto simp: stack_apart_def disjoint_regions_def)
  qed
  from words_frame [OF this] mem(1) have stack': "words_at (bs_mem s') stack (stack_words ?argv' envs es w)" by simp
  have "cstr_at (bs_mem s) (argv ! i) target"
  proof -
    have "read_usize (bs_mem s) (stack + 8 + 8 * of_nat i) = argv ! i"
      using words_at_nth [OF stack_parts(1) [OF words(1-3)], of i] i(1) by (simp add: nth_append)
    then show ?thesis using args_from_nth [OF args(1), of i] by (simp add: i_def nth_append)
  qed
  moreover have "start_direct k n t env stack (of_nat (length argv)) aux bias dyn s =
      run_stage1 k n t env state (\<lambda>e s. exit_fatal (write_stage1_error env ''rtld: direct exec failed: '' e s)) s'"
    using direct rw pub by (simp add: start_direct_def Let_def)
  ultimately show ?thesis
    using stack' stack_parts(4) [OF stack' words(2,3)] mem(2-5) i(2) unfolding i_def [symmetric]
    by (intro exI [of _ state] exI [of _ s']) (simp add: state bootstrap_state_of_def)
qed

section \<open>A concrete start\<close>

text \<open>
  A program without anything to link: the stack at \<open>0x7ff000\<close> has no arguments, the dynamic
  linker is loaded at \<open>0x5000\<close> without program headers, so that stage 1 fails.
\<close>

definition ex_tail_mem :: memory where
  "ex_tail_mem = store_words 0x7ff000 (stack_words [] [] [(AT_BASE, 0x5000), (AT_ENTRY, 0x401000)] 0) (\<lambda>a. 0)"

definition ex_boot_env :: "(list_ctx, string, nat) boot_env" where
  "ex_boot_env = \<lparr>be_statics = ex_statics, be_stage1 = ex_s1_env, be_files = short_reads 1 [], be_tcb = (\<lambda>tp mem. (True, mem)),
     be_thread_pointer = (\<lambda>tp. True), be_show_elf = (\<lambda>e. ''loader error'')\<rparr>"

definition ex_bs :: "memory \<Rightarrow> list_ctx boot_state" where
  "ex_bs mem = \<lparr>bs_stage1 = set_s1_mem mem ex_s1, bs_link_maps = (\<lambda>_. link_map_zero), bs_r_debug = r_debug_zero,
     bs_dl_argv = 0, bs_libc_stack_end = 0, bs_libc_enable_secure = 0,
     bs_out = \<lparr>cw_stdout = [], cw_stderr = [], cw_fds = []\<rparr>\<rparr>"

lemma ex_bs_mem [simp]: "bs_mem (ex_bs mem) = mem"
  by (simp add: ex_bs_def bs_mem_def s1_mem_def set_s1_mem_def)

lemma ex_boot_ready: "boot_ready ex_boot_env"
  using ex_statics_apart
  by (simp add: boot_ready_def ex_boot_env_def ex_statics_def rtld_link_map_def at_field_def offset_of_def field_of_def rg_placed)

lemma ex_tail_words: "words_at ex_tail_mem 0x7ff000 (stack_words [] [] [(AT_BASE, 0x5000), (AT_ENTRY, 0x401000)] 0)"
  unfolding ex_tail_mem_def by (rule store_words_at) (simp add: stack_words_def auxv_words_def)

lemma ex_tail_zero: "x < 0x7ff000 \<Longrightarrow> ex_tail_mem x = 0"
proof -
  assume "x < 0x7ff000"
  then have "\<not> inside x 0x7ff000 (8 * length (stack_words [] [] [(AT_BASE, 0x5000), (AT_ENTRY, 0x401000 :: usize)] 0))"
    by (simp add: inside_def stack_words_def auxv_words_def unat_sub_if_size word_size word_less_nat_alt)
  then show ?thesis by (simp add: ex_tail_mem_def store_words_frame)
qed

text \<open>Without program headers of the dynamic linker stage 1 fails, and the bootstrap jumps to a program it need not link.\<close>

lemma tail_jump_runs:
  assumes "boot_ready env" "ax_platform aux = 0" "ax_entry aux \<noteq> 0"
    and "rtld_elf_info_of (se_view (be_stage1 env)) (bs_mem s) (ba_rtld_load_bias a) = \<lparr>ri_phdr = 0, ri_phnum = 0, ri_entry = 0\<rparr>"
    and "ba_mode a = KernelMappedMain" "ba_main_dynamic a = 0"
  shows "\<exists>s'. start_mapped k n t env a aux s = Some (Enter (ax_entry aux), s')"
proof -
  have "platform_ends (be_statics env) (ax_platform aux) 0 (bs_mem s)" using assms(2) by (simp add: platform_ends_def)
  with published [of env aux 0 s a] assms(1) obtain state s' where pub: "publish_bootstrap_objects env aux a s = Some (state, s')"
    and state: "state = bootstrap_state_of aux \<lparr>ri_phdr = 0, ri_phnum = 0, ri_entry = 0\<rparr> a"
    using assms(4) by (auto simp: boot_ready_def Let_def)
  have "stage1 k n t (be_stage1 env) state (bs_stage1 s') =
      Some (Err (find_lib_error ''bootstrap object is missing program headers''), set_args state (bs_stage1 s'))"
    using assms(5) by (simp add: stage1_def state bootstrap_state_of_def prepare_kernel_mapped_main_def s1_seq_def
        register_rtld_def load_borrowed_def)
  then show ?thesis
    using pub assms(3,6) by (simp add: start_mapped_def run_stage1_def Let_def dynamic_info_parse_def can_tail_jump_main_def
        dynamic_info_empty_def has_regular_relocations_def relocation_table_empty_def)
qed

lemma ex_tail_run: "\<exists>s'. rtld_bootstrap 0 0 0 ex_boot_env 0x7ff000 0x6000 (ex_bs ex_tail_mem) = Some (Enter 0x401000, s')"
proof -
  let ?mem = ex_tail_mem and ?aux = "aux_empty\<lparr>ax_base := 0x5000, ax_entry := 0x401000\<rparr>"
  note parts = stack_parts [OF ex_tail_words, simplified]
  have "read_usize ?mem 0x7ff000 = 0" using ex_tail_words by (simp add: stack_words_def)
  moreover have "skip_words ?mem 0x7ff010 = Some 0x7ff010" "parse_auxv ?mem 0x7ff018 = Some ?aux"
    using parts(3,4) by (simp_all add: parse_auxv_def parse_auxv_from_fold set_aux_def at_defs aux_kinds_ok_def)
  moreover have "find_phdr elf64 ?mem ?aux ty = None" for ty
    by (simp add: find_phdr_def find_phdr_from.simps [of _ _ _ _ 0] phdr_at_def aux_empty_def)
  moreover have "dynamic_info_parse elf64 ?mem 0x6000 = Some (dynamic_info_empty elf64)"
  proof -
    have "read_usize ?mem 0x6000 = read_usize (\<lambda>_. 0) 0x6000"
      by (rule read_frame, rule ex_tail_zero) (auto simp: inside_iff word_less_nat_alt unat_word_ariths unat_of_nat)
    also have "\<dots> = 0" by code_simp
    finally have "dynamic_loop elf64 ?mem (Suc m) 0x6000 info = Some info" for m info
      by (simp add: elf64_def DT_NULL_def)
    from this [of 4095] show ?thesis by (simp add: dynamic_info_parse_def numeral_eq_Suc del: dynamic_loop.simps)
  qed
  moreover have rel: "relocate_rtld_relative elf64 (dynamic_info_empty elf64) bias ?mem = (True, ?mem)" for bias
    by (simp add: relocate_rtld_relative_def dynamic_info_empty_def relocation_table_empty_def apply_relocations_def
        apply_relr_relocations_def)
  moreover have "rtld_elf_info_of elf64 ?mem 0x5000 = \<lparr>ri_phdr = 0, ri_phnum = 0, ri_entry = 0\<rparr>"
  proof -
    have "load_le 2 ?mem 0x5036 = load_le 2 (\<lambda>_. 0) 0x5036"
      by (rule load_frame, rule ex_tail_zero) (auto simp: inside_iff word_less_nat_alt unat_word_ariths unat_of_nat)
    also have "\<dots> = 0" by code_simp
    finally show ?thesis by (simp add: rtld_elf_info_of_def elf64_def)
  qed
  moreover have "bs_mem (s\<lparr>bs_stage1 := (bs_stage1 s)\<lparr>s1_tls := register_backend b (s1_tls (bs_stage1 s))\<rparr>, bs_dl_argv := x,
      bs_libc_stack_end := y\<rparr>) = bs_mem s" for s :: "list_ctx boot_state" and b x y
    by (simp add: bs_mem_def s1_mem_def register_backend_def split: option.splits)
  moreover have "se_view (be_stage1 ex_boot_env) = elf64" by (simp add: ex_boot_env_def ex_s1_env_def)
  moreover have "ax_platform ?aux = 0" "ax_entry ?aux = 0x401000" "ax_base ?aux = 0x5000" by (simp_all add: aux_empty_def)
  ultimately show ?thesis
    using tail_jump_runs [OF ex_boot_ready, of ?aux]
    by (simp add: rtld_bootstrap_def Let_def rtld_bias_def main_load_bias_def main_dynamic_def)
qed

text \<open>The command line \<open>ld.so /bin/true\<close> on a stack at \<open>0x7ff000\<close>, its strings at \<open>0x2000\<close>.\<close>

definition ex_direct_mem :: memory where
  "ex_direct_mem = store_words 0x7ff000 (stack_words [0x2000, 0x2010] [] [(AT_PAGESZ, 4096)] 0) ex_strings"

lemma ex_direct_words: "words_at ex_direct_mem 0x7ff000 (stack_words [0x2000, 0x2010] [] [(AT_PAGESZ, 4096)] 0)"
  unfolding ex_direct_mem_def by (rule store_words_at) (simp add: stack_words_def auxv_words_def)

lemma ex_direct_string: "x < 0x7ff000 \<Longrightarrow> ex_direct_mem x = ex_strings x"
proof -
  assume "x < 0x7ff000"
  then have "\<not> inside x 0x7ff000 (8 * length (stack_words [0x2000, 0x2010] [] [(AT_PAGESZ, 4096 :: usize)] 0))"
    by (simp add: inside_def stack_words_def auxv_words_def unat_sub_if_size word_size word_less_nat_alt)
  then show ?thesis by (simp add: ex_direct_mem_def store_words_frame)
qed

lemma ex_direct_args: "args_from ex_direct_mem (0x7ff000 + 8) 0 [''ld.so'', ''/bin/true'']"
proof -
  have "read_usize ex_direct_mem 0x7ff008 = 0x2000" "read_usize ex_direct_mem 0x7ff010 = 0x2010"
    using stack_parts(1) [OF ex_direct_words] by (simp_all add: aux_kinds_ok_def at_defs)
  moreover have "bytes_eq ex_direct_mem 0x2000 (bytes_of_str ''ld.so'')" "bytes_eq ex_direct_mem 0x2010 (bytes_of_str ''/bin/true'')"
    by (simp_all add: ex_direct_string ex_strings_def bytes_of_str_def)
  ultimately show ?thesis by (simp add: cstr_at_def)
qed

section \<open>Properties\<close>

text \<open>
  C5. The dynamic linker passes control only to the entry point stage 1 returned for the
  objects published from the auxiliary vector behind the environment, or, when stage 1 failed,
  to the entry point in that vector of a program the kernel has mapped whose dynamic section
  asks for nothing to link: no needed libraries and no relocations. In every other case the
  process ends.
\<close>

theorem bootstrap_enters_only:
  assumes "rtld_bootstrap k n t env stack rtld_dynamic s = Some (Enter e, s')"
  shows "\<exists>envp aux a s0 state s1 r st'. (let view = se_view (be_stage1 env); mem = bs_mem s in
    skip_words mem (stack + 8 * (read_usize mem stack + 2)) = Some envp \<and> parse_auxv mem (envp + 8) = Some aux \<and>
    publish_bootstrap_objects env aux a s0 = Some (state, s1) \<and>
    stage1 k n t (be_stage1 env) state (bs_stage1 s1) = Some (r, st') \<and>
    (r = Ok e \<or> (\<exists>err. r = Err err) \<and> bt_mode state = KernelMappedMain \<and> e = ax_entry aux \<and> e \<noteq> 0 \<and>
      (\<exists>info. dynamic_info_parse view (bs_mem s') (main_dynamic view mem aux (main_load_bias view mem aux)) = Some info \<and>
        can_tail_jump_main info)))"
proof -
  have "\<exists>envp aux. skip_words (bs_mem s) (stack + 8 * (read_usize (bs_mem s) stack + 2)) = Some envp \<and>
      parse_auxv (bs_mem s) (envp + 8) = Some aux \<and>
      may_enter k n t env aux (main_dynamic (se_view (be_stage1 env)) (bs_mem s) aux
        (main_load_bias (se_view (be_stage1 env)) (bs_mem s) aux)) e s'"
    using assms unfolding rtld_bootstrap_def Let_def
    by (auto simp: exit_fatal_def split: option.splits prod.splits if_splits
        intro: start_direct_Enter start_mapped_Enter)
  then show ?thesis unfolding may_enter_def Let_def by blast
qed

theorem bootstrap_enters_only_witness:
  "\<exists>s'. rtld_bootstrap 0 0 0 ex_boot_env 0x7ff000 0x6000 (ex_bs ex_tail_mem) = Some (Enter 0x401000, s') \<and>
     (\<exists>state st r st'. stage1 0 0 0 ex_s1_env state st = Some (r, st') \<and> (r = Ok 0x401000 \<or> bt_mode state = KernelMappedMain))"
proof -
  from ex_tail_run obtain s' where run: "rtld_bootstrap 0 0 0 ex_boot_env 0x7ff000 0x6000 (ex_bs ex_tail_mem) = Some (Enter 0x401000, s')" ..
  have "be_stage1 ex_boot_env = ex_s1_env" by (simp add: ex_boot_env_def)
  with bootstrap_enters_only [OF run] have
    "\<exists>state st r st'. stage1 0 0 0 ex_s1_env state st = Some (r, st') \<and> (r = Ok 0x401000 \<or> bt_mode state = KernelMappedMain)"
    unfolding Let_def by metis
  with run show ?thesis by blast
qed

text \<open>
  C20. Publishing returns, and a debugger that follows the list of link maps from \<open>_r_debug\<close>
  finds the main program and then the dynamic linker, linked in both directions, with the load
  addresses and dynamic sections that are handed to stage 1; both are in the initial search list.
\<close>

theorem publish_bootstrap_links:
  assumes "boot_ready env" "platform_ends (be_statics env) (ax_platform aux) n (bs_mem s)"
  shows "\<exists>state s'. publish_bootstrap_objects env aux a s = Some (state, s') \<and>
    (let sv = be_statics env; main = sv_main_link_map sv; rtld = rtld_link_map sv; lm = bs_link_maps s' in
     rd_map (bs_r_debug s') = main \<and> seg lm 0 main [main, rtld] 0 rtld \<and>
     words_at (bs_mem s') (sv_initial_searchlist sv) [main, rtld] \<and>
     l_addr (lm main) = bo_load_bias (bt_main state) \<and> l_ld (lm main) = bo_dynamic (bt_main state) \<and>
     l_addr (lm rtld) = bo_load_bias (bt_rtld state) \<and> l_ld (lm rtld) = bo_dynamic (bt_rtld state) \<and>
     bo_load_bias (bt_main state) = ba_main_load_bias a \<and> bo_load_bias (bt_rtld state) = ba_rtld_load_bias a)"
  using published [of env aux n s a] assms by (auto simp: boot_ready_def Let_def)

theorem publish_bootstrap_links_witness:
  "\<exists>state s'. publish_bootstrap_objects ex_boot_env aux_empty
       \<lparr>ba_argc = 0, ba_argv = 0, ba_envp = 0, ba_auxv = 0, ba_main_load_bias = 0x400000, ba_main_dynamic = 0,
        ba_rtld_load_bias = 0x7f0000, ba_rtld_dynamic = 0, ba_mode = KernelMappedMain, ba_exec_path = 0\<rparr> (ex_bs ex_tail_mem) =
     Some (state, s') \<and> seg (bs_link_maps s') 0 0x31000 [0x31000, 0x10ab0] 0 0x10ab0"
proof -
  have sv: "be_statics ex_boot_env = ex_statics" "sv_main_link_map ex_statics = 0x31000" "rtld_link_map ex_statics = 0x10ab0"
    by (simp_all add: ex_boot_env_def ex_statics_def rtld_link_map_def at_field_def offset_of_def field_of_def rg_placed)
  have "platform_ends (be_statics ex_boot_env) (ax_platform aux_empty) 0 (bs_mem (ex_bs ex_tail_mem))"
    by (simp add: platform_ends_def aux_empty_def)
  from publish_bootstrap_links [OF ex_boot_ready this] show ?thesis by (fastforce simp: sv Let_def)
qed



end
