(* ===== verification/Rtld_Symbols.thy ===== *)
theory Rtld_Symbols
  imports Rtld_Runtime Rtld_Globals Rtld_Cli
begin

text \<open>
  \<open>rtld/impl/src/symbols.rs\<close>: the functions the C library calls in the dynamic linker. Those that
  forward a call are \<open>Symbols\<close> and \<open>Static_Tls\<close> themselves; here are the ones with a body of their
  own: giving back the storage of a thread, exceptions, and the functions that end the process.

  The allocator's pages and the TLS bookkeeping share one memory, that of the heap.
\<close>

section \<open>Threads\<close>

record tls_world =
  tw_heap :: heap
  tw_tls :: tls_state

definition on_tls :: "'a tls_action \<Rightarrow> tls_world \<Rightarrow> (tls_error, 'a) res \<times> tls_world" where
  "on_tls p w =
     (case p ((tw_tls w)\<lparr>ts_mem := hp_mem (tw_heap w)\<rparr>) of
        (r, s) \<Rightarrow> (r, \<lparr>tw_heap = (tw_heap w)\<lparr>hp_mem := ts_mem s\<rparr>, tw_tls = s\<rparr>))"

definition dl_allocate_tls :: "tls_env \<Rightarrow> usize \<Rightarrow> tls_world \<Rightarrow> (tls_error, usize) res \<times> tls_world" where
  "dl_allocate_tls env storage = on_tls (tls_allocate env storage)"

definition dl_allocate_tls_init :: "usize \<Rightarrow> bool \<Rightarrow> tls_world \<Rightarrow> (tls_error, usize) res \<times> tls_world" where
  "dl_allocate_tls_init storage main_thread = on_tls (tls_init storage)"

definition dl_deallocate_tls :: "usize \<Rightarrow> bool \<Rightarrow> tls_world \<Rightarrow> tls_world" where
  "dl_deallocate_tls storage dealloc_tcb w =
     (let h = deallocate_tcb storage (tw_heap w)
      in \<lparr>tw_heap = h, tw_tls = tls_deallocate storage dealloc_tcb ((tw_tls w)\<lparr>ts_mem := hp_mem h\<rparr>)\<rparr>)"

definition dl_get_tls_static_info :: "usize \<Rightarrow> usize \<Rightarrow> tls_world \<Rightarrow> tls_world" where
  "dl_get_tls_static_info sz_ptr align_ptr w =
     (case static_info (tw_tls w) of (tls_size, tls_align) \<Rightarrow>
        (let h = tw_heap w;
             h = (if sz_ptr \<noteq> 0 then hp_write sz_ptr tls_size h else h);
             h = (if align_ptr \<noteq> 0 then hp_write align_ptr tls_align h else h)
         in w\<lparr>tw_heap := h\<rparr>))"

section \<open>Exceptions\<close>

record dl_exception =
  dx_objname :: usize
  dx_errstring :: usize
  dx_message_buffer :: usize

type_synonym exceptions = "usize \<Rightarrow> dl_exception"

definition dl_exception_free :: "usize \<Rightarrow> exceptions \<Rightarrow> exceptions" where
  "dl_exception_free p xs =
     (if p \<noteq> 0 then xs(p := (xs p)\<lparr>dx_objname := 0, dx_errstring := 0, dx_message_buffer := 0\<rparr>) else xs)"

definition dl_exception_create :: "usize \<Rightarrow> usize \<Rightarrow> usize \<Rightarrow> exceptions \<Rightarrow> exceptions" where
  "dl_exception_create p objname errstring xs =
     (if p \<noteq> 0 then xs(p := (xs p)\<lparr>dx_objname := objname, dx_errstring := errstring, dx_message_buffer := 0\<rparr>) else xs)"

definition dl_exception_create_format :: "usize \<Rightarrow> usize \<Rightarrow> usize \<Rightarrow> exceptions \<Rightarrow> exceptions" where
  "dl_exception_create_format p objname fmt xs = dl_exception_create p objname fmt xs"

text \<open>\<open>operate\<close> may change the state and may leave the process: \<open>Inl\<close> is the exit status.\<close>

definition dl_catch_exception :: "usize \<Rightarrow> ('s \<Rightarrow> usize + 's) option \<Rightarrow> 's \<Rightarrow> usize + int \<times> 's" where
  "dl_catch_exception exc operate s =
     (case operate of
        Some f \<Rightarrow> (case f s of Inl status \<Rightarrow> Inl status | Inr s' \<Rightarrow> Inr (0, s'))
      | None \<Rightarrow> Inr (0, s))"

definition dl_signal_error :: "'s \<Rightarrow> usize + 's" where "dl_signal_error s = Inl RTLD_FATAL_EXIT_STATUS"
definition dl_signal_exception :: "'s \<Rightarrow> usize + 's" where "dl_signal_exception s = Inl RTLD_FATAL_EXIT_STATUS"
definition dl_fatal_printf :: "'s \<Rightarrow> usize + 's" where "dl_fatal_printf s = Inl RTLD_FATAL_EXIT_STATUS"

text \<open>Functions with a fixed answer.\<close>

definition nptl_change_stack_perm :: "usize \<Rightarrow> int" where "nptl_change_stack_perm stack = 0"
definition dl_audit_symbind_alt :: usize where "dl_audit_symbind_alt = 0"
definition tunable_is_initialized :: int where "tunable_is_initialized = 1"
definition dl_rtld_di_serinfo :: int where "dl_rtld_di_serinfo = - 1"

definition dl_x86_get_cpu_features :: "rtld_statics \<Rightarrow> usize" where
  "dl_x86_get_cpu_features sv = rtld_x86_cpu_features sv"

section \<open>Properties\<close>

lemma deallocate_freed:
  assumes "find_position (\<lambda>a. al_tp a = storage) (ts_allocations s) = Some i" "storage \<noteq> 0"
  shows "ts_freed (tls_deallocate storage True s) =
    (case ts_allocations s ! i of a \<Rightarrow> (al_base a, al_size a, al_align a)) # ts_freed s"
  using assms by (simp add: tls_deallocate_def Let_def)

lemma find_position_Some: "find_position P xs = Some i \<Longrightarrow> i < length xs \<and> P (xs ! i)"
proof (induction xs arbitrary: i)
  case (Cons x xs)
  then show ?case by (cases i) (auto split: if_splits)
qed simp

lemma find_position_None: "find_position P xs = None \<longleftrightarrow> (\<forall>x \<in> set xs. \<not> P x)"
  by (induction xs) auto



end
