(* ===== verification/Os_Linux.thy ===== *)
theory Os_Linux
  imports C_Layout Rust_Str Link_Context
begin

text \<open>
  \<open>src/os/linux.rs\<close> on x86-64: reading a file and asking for its inode with system calls.

  The kernel is a parameter: its state \<open>'k\<close> and the calls of the record \<open>os_calls\<close>, each
  returning an error number or a value and the next state. A path is handed over as a C string,
  which ends at its first zero byte. What the code relies on is the locale \<open>file_calls\<close>;
  \<open>reliable_calls\<close> adds that calls on existing files succeed. The end of the file is a kernel
  that runs: files whose size is known and files, as in \<open>/proc\<close>, that are read in pieces.
\<close>

section \<open>System calls\<close>

record 'k os_calls =
  os_open :: "u8 list \<Rightarrow> usize \<Rightarrow> 'k \<Rightarrow> (nat + usize) \<times> 'k"
  os_lseek :: "usize \<Rightarrow> usize \<Rightarrow> usize \<Rightarrow> 'k \<Rightarrow> (nat + usize) \<times> 'k"
  os_read :: "usize \<Rightarrow> nat \<Rightarrow> 'k \<Rightarrow> (nat + u8 list) \<times> 'k"
  os_close :: "usize \<Rightarrow> 'k \<Rightarrow> 'k"
  os_stat :: "u8 list \<Rightarrow> 'k \<Rightarrow> nat + memory"
  os_strerror :: "nat \<Rightarrow> string"

definition c_path :: "string \<Rightarrow> u8 list" where
  "c_path path = takeWhile (\<lambda>b. b \<noteq> 0) (bytes_of_str path @ [0])"

definition O_RDONLY :: usize where "O_RDONLY = 0"
definition SEEK_END :: usize where "SEEK_END = 2"
definition SEEK_SET :: usize where "SEEK_SET = 0"

text \<open>\<open>From<Errno> for Error\<close>; \<open>ENOENT\<close> is the error number 2.\<close>

definition error_of_errno :: "'k os_calls \<Rightarrow> nat \<Rightarrow> error" where
  "error_of_errno calls e = IO (if e = 2 then NotFound else OtherKind) (os_strerror calls e)"

definition io_error :: "string \<Rightarrow> error" where
  "io_error message = IO OtherKind message"

section \<open>Reading a file\<close>

partial_function (option) read_loop ::
  "'k os_calls \<Rightarrow> usize \<Rightarrow> nat \<Rightarrow> u8 list \<Rightarrow> 'k \<Rightarrow> ((error, u8 list) res \<times> 'k) option" where
  "read_loop calls fd limit buffer k =
     (if limit < length buffer then Some (Panic ''attempt to subtract with overflow'', k)
      else if min 1024 (limit - length buffer) = 0 then Some (Ok buffer, k)
      else
        (case os_read calls fd (min 1024 (limit - length buffer)) k of
           (Inl e, k') \<Rightarrow> Some (Err (error_of_errno calls e), k')
         | (Inr bs, k') \<Rightarrow>
             if bs = [] then Some (Ok buffer, k')
             else if 1024 < length bs then Some (Panic ''range end index out of range'', k')
             else read_loop calls fd limit (buffer @ bs) k'))"

definition read_sized :: "'k os_calls \<Rightarrow> usize \<Rightarrow> nat \<Rightarrow> 'k \<Rightarrow> (error, u8 list) res \<times> 'k" where
  "read_sized calls fd read_size k =
     (case os_read calls fd read_size k of
        (Inl e, k') \<Rightarrow> (Err (error_of_errno calls e), k')
      | (Inr bs, k') \<Rightarrow>
          (if length bs \<noteq> read_size then Err (io_error ''Failed to read complete file'') else Ok bs, k'))"

definition read_opened :: "'k os_calls \<Rightarrow> usize \<Rightarrow> nat \<Rightarrow> 'k \<Rightarrow> ((error, u8 list) res \<times> 'k) option" where
  "read_opened calls fd limit k =
     (case os_lseek calls fd 0 SEEK_END k of (r, k) \<Rightarrow>
        (let file_size = (case r of Inr n \<Rightarrow> n | Inl _ \<Rightarrow> 0) in
         case os_lseek calls fd 0 SEEK_SET k of (r', k') \<Rightarrow>
           if file_size > 0 \<and> \<not> isl r'
           then Some (read_sized calls fd (min (unat file_size) limit) k')
           else read_loop calls fd limit [] k'))"

definition read_file_limit :: "'k os_calls \<Rightarrow> string \<Rightarrow> nat \<Rightarrow> 'k \<Rightarrow> ((error, u8 list) res \<times> 'k) option" where
  "read_file_limit calls path limit k =
     (case os_open calls (c_path path) O_RDONLY k of
        (Inl e, k) \<Rightarrow> Some (Err (error_of_errno calls e), k)
      | (Inr fd, k) \<Rightarrow>
          map_option (\<lambda>(read_result, k). (read_result, os_close calls fd k)) (read_opened calls fd limit k))"

definition read_file :: "'k os_calls \<Rightarrow> string \<Rightarrow> 'k \<Rightarrow> ((error, u8 list) res \<times> 'k) option" where
  "read_file calls path k = read_file_limit calls path (2 ^ 64 - 1) k"

section \<open>File identity\<close>

datatype linux_stat_field =
    St_dev | St_ino | St_nlink | St_mode | St_uid | St_gid | St_pad0 | St_rdev | St_size | St_blksize | St_blocks
  | St_atime | St_atime_nsec | St_mtime | St_mtime_nsec | St_ctime | St_ctime_nsec | St_unused

definition linux_stat_fields :: "linux_stat_field c_field list" where
  "linux_stat_fields = [
     (St_dev, 8, 8), (St_ino, 8, 8), (St_nlink, 8, 8), (St_mode, 4, 4), (St_uid, 4, 4), (St_gid, 4, 4), (St_pad0, 4, 4),
     (St_rdev, 8, 8), (St_size, 8, 8), (St_blksize, 8, 8), (St_blocks, 8, 8), (St_atime, 8, 8), (St_atime_nsec, 8, 8),
     (St_mtime, 8, 8), (St_mtime_nsec, 8, 8), (St_ctime, 8, 8), (St_ctime_nsec, 8, 8), (St_unused, 3 * 8, 8)]"

text \<open>The buffer of \<open>stat\<close> is at the address zero of the memory the call returns.\<close>

definition get_file_inode :: "'k os_calls \<Rightarrow> string \<Rightarrow> 'k \<Rightarrow> (error, file_identity) res" where
  "get_file_inode calls path k =
     (case os_stat calls (c_path path) k of
        Inr stat_buf \<Rightarrow> Ok \<lparr>fi_dev = get linux_stat_fields 0 St_dev stat_buf, fi_ino = get linux_stat_fields 0 St_ino stat_buf\<rparr>
      | Inl e \<Rightarrow> Err (error_of_errno calls e))"

section \<open>What the kernel promises\<close>

text \<open>
  \<open>files\<close> gives the contents of a path, \<open>at\<close> the open descriptors with contents and position.
  A file may report its size or zero; a descriptor that cannot be moved stays where it is. A
  read returns the next bytes, and none only at the end.
\<close>

locale file_calls =
  fixes calls :: "'k os_calls"
    and files :: "'k \<Rightarrow> u8 list \<Rightarrow> u8 list option"
    and at :: "'k \<Rightarrow> usize \<Rightarrow> (u8 list \<times> nat) option"
  assumes open_ok: "os_open calls p O_RDONLY k = (Inr fd, k') \<Longrightarrow>
      \<exists>bs. files k p = Some bs \<and> length bs < 2 ^ 64 \<and> at k fd = None \<and> at k' = (at k)(fd \<mapsto> (bs, 0))"
    and open_err: "os_open calls p O_RDONLY k = (Inl e, k') \<Longrightarrow> at k' = at k"
    and seek_end: "at k fd = Some (bs, pos) \<Longrightarrow> os_lseek calls fd 0 SEEK_END k = (Inr n, k') \<Longrightarrow>
      (n = 0 \<or> unat n = length bs) \<and> at k' = (at k)(fd \<mapsto> (bs, unat n)) \<and> (\<exists>k''. os_lseek calls fd 0 SEEK_SET k' = (Inr 0, k''))"
    and seek_set: "at k fd = Some (bs, pos) \<Longrightarrow> os_lseek calls fd 0 SEEK_SET k = (Inr n, k') \<Longrightarrow> at k' = (at k)(fd \<mapsto> (bs, 0))"
    and seek_err: "at k fd = Some (bs, pos) \<Longrightarrow> os_lseek calls fd off whence k = (Inl e, k') \<Longrightarrow> at k' = at k"
    and read_ok: "at k fd = Some (bs, pos) \<Longrightarrow> os_read calls fd m k = (Inr xs, k') \<Longrightarrow>
      xs = take (length xs) (drop pos bs) \<and> length xs \<le> m \<and> (xs = [] \<longrightarrow> m = 0 \<or> length bs \<le> pos) \<and>
      at k' = (at k)(fd \<mapsto> (bs, pos + length xs))"
    and read_err: "at k fd = Some (bs, pos) \<Longrightarrow> os_read calls fd m k = (Inl e, k') \<Longrightarrow> at k' = at k"
    and close_ok: "at (os_close calls fd k) = (at k)(fd := None)"
begin

text \<open>A read that returns an error, or a short read of a file that reported its size.\<close>

definition fails :: bool where
  "fails \<longleftrightarrow> (\<exists>k fd bs pos m e k'. at k fd = Some (bs, pos) \<and> os_read calls fd m k = (Inl e, k')) \<or>
     (\<exists>k fd bs pos n k1 r k2 m xs k3. at k fd = Some (bs, pos) \<and> os_lseek calls fd 0 SEEK_END k = (Inr n, k1) \<and> 0 < n \<and>
        os_lseek calls fd 0 SEEK_SET k1 = (r, k2) \<and> os_read calls fd m k2 = (Inr xs, k3) \<and> length xs \<noteq> min m (length bs))"

definition reads_prefix :: "'k \<Rightarrow> usize \<Rightarrow> u8 list \<Rightarrow> nat \<Rightarrow> ((error, u8 list) res \<times> 'k) option \<Rightarrow> bool" where
  "reads_prefix k fd bs limit out \<longleftrightarrow> (\<exists>r k' pos. out = Some (r, k') \<and> at k' = (at k)(fd \<mapsto> (bs, pos)) \<and>
     \<not> panics r \<and> (\<forall>xs. r = Ok xs \<longrightarrow> xs = take limit bs) \<and> (\<not> is_Ok r \<longrightarrow> fails))"

lemma read_loop_prefix:
  "at k fd = Some (bs, length buffer) \<Longrightarrow> buffer = take (length buffer) bs \<Longrightarrow> length buffer \<le> min limit (length bs) \<Longrightarrow>
     reads_prefix k fd bs limit (read_loop calls fd limit buffer k)"
proof (induction "length bs - length buffer" arbitrary: buffer k rule: less_induct)
  case less
  let ?n = "min 1024 (limit - length buffer)"
  have upd: "at k = (at k)(fd \<mapsto> (bs, length buffer))" using less.prems(1) by (simp add: fun_upd_idem)
  show ?case
  proof (cases "?n = 0")
    case True
    then have "limit - length buffer = 0" by (simp add: min_def split: if_splits)
    with less.prems(3) have "limit = length buffer" by simp
    with less.prems(2) have "buffer = take limit bs" by simp
    moreover have "read_loop calls fd limit buffer k = Some (Ok buffer, k)"
      using True less.prems(3) by (subst read_loop.simps) auto
    ultimately show ?thesis using upd by (auto simp: reads_prefix_def)
  next
    case n: False
    show ?thesis
    proof (cases "os_read calls fd ?n k")
      case (Pair r k')
      show ?thesis
      proof (cases r)
        case (Inl e)
        with Pair n less.prems have "read_loop calls fd limit buffer k = Some (Err (error_of_errno calls e), k')"
          by (subst read_loop.simps) auto
        moreover from read_err [OF less.prems(1)] Pair Inl have "at k' = at k" by blast
        moreover from less.prems(1) Pair Inl have fails unfolding fails_def by blast
        ultimately show ?thesis using upd by (auto simp: reads_prefix_def)
      next
        case (Inr xs)
        from read_ok [OF less.prems(1) Pair [unfolded Inr]] have
          xs: "xs = take (length xs) (drop (length buffer) bs)" "length xs \<le> ?n" "xs = [] \<longrightarrow> length bs \<le> length buffer"
          and at: "at k' = (at k)(fd \<mapsto> (bs, length buffer + length xs))" using n by auto
        have app: "buffer @ xs = take (length (buffer @ xs)) bs" using less.prems(2) xs(1) by (metis length_append take_add)
        show ?thesis
        proof (cases "xs = []")
          case True
          with Pair Inr n less.prems have "read_loop calls fd limit buffer k = Some (Ok buffer, k')"
            by (subst read_loop.simps) auto
          moreover have "buffer = take limit bs" using less.prems(2,3) xs(3) True by auto
          ultimately show ?thesis using at True by (auto simp: reads_prefix_def)
        next
          case False
          with Pair Inr n less.prems xs(2) have "read_loop calls fd limit buffer k = read_loop calls fd limit (buffer @ xs) k'"
            by (subst read_loop.simps) auto
          moreover have "reads_prefix k' fd bs limit (read_loop calls fd limit (buffer @ xs) k')"
          proof (rule less.hyps)
            have len: "length xs \<le> length bs - length buffer" using xs(1) by (metis length_drop length_take min.cobounded1)
            with less.prems(3) xs(2) show "length (buffer @ xs) \<le> min limit (length bs)" by auto
            from False have "0 < length xs" by simp
            with len show "length bs - length (buffer @ xs) < length bs - length buffer" unfolding length_append by linarith
            show "at k' fd = Some (bs, length (buffer @ xs))" using at by simp
            show "buffer @ xs = take (length (buffer @ xs)) bs" by (rule app)
          qed
          ultimately show ?thesis using at by (auto simp: reads_prefix_def)
        qed
      qed
    qed
  qed
qed

lemma read_opened_prefix:
  assumes "at k fd = Some (bs, 0)" "length bs < 2 ^ 64"
  shows "reads_prefix k fd bs limit (read_opened calls fd limit k)"
proof -
  obtain r k1 where e: "os_lseek calls fd 0 SEEK_END k = (r, k1)" by fastforce
  obtain r' k2 where s: "os_lseek calls fd 0 SEEK_SET k1 = (r', k2)" by fastforce
  have k1: "\<exists>pos. at k1 = (at k)(fd \<mapsto> (bs, pos)) \<and> (isl r \<longrightarrow> pos = 0) \<and> (\<not> isl r \<longrightarrow> \<not> isl r' \<and> unat (projr r) = pos)"
    using seek_end [OF assms(1), of "projr r" k1] seek_err [OF assms(1), of 0 SEEK_END "projl r" k1] e s assms(1)
    by (cases r) (auto simp: fun_upd_idem)
  then obtain pos where at1: "at k1 = (at k)(fd \<mapsto> (bs, pos))" by blast
  then have "at k1 fd = Some (bs, pos)" by simp
  from seek_set [OF this, of "projr r'" k2] seek_err [OF this, of 0 SEEK_SET "projl r'" k2] s at1 k1
  have at2: "at k2 = (at k)(fd \<mapsto> (bs, 0))" by (cases r') auto
  then have at2': "at k2 fd = Some (bs, 0)" by simp
  show ?thesis
  proof (cases "\<exists>n. r = Inr n \<and> 0 < n")
    case False
    then have "read_opened calls fd limit k = read_loop calls fd limit [] k2"
      using e s by (auto simp: read_opened_def split: sum.splits)
    with read_loop_prefix [of k2 fd bs "[]"] at2' at2 show ?thesis by (simp add: reads_prefix_def)
  next
    case True
    then obtain n where n: "r = Inr n" "0 < n" by blast
    with seek_end [OF assms(1), of n k1] e have len: "unat n = length bs" by auto
    from k1 n have "\<not> isl r'" by auto
    with e s n have out: "read_opened calls fd limit k = Some (read_sized calls fd (min (length bs) limit) k2)"
      by (simp add: read_opened_def len)
    obtain x k3 where x: "os_read calls fd (min (length bs) limit) k2 = (x, k3)" by fastforce
    show ?thesis
    proof (cases x)
      case (Inl e)
      with at2' x have fails unfolding fails_def by blast
      with read_err [OF at2'] x Inl at2 out show ?thesis by (auto simp: reads_prefix_def read_sized_def)
    next
      case (Inr xs)
      from read_ok [OF at2' x [unfolded Inr]] have "xs = take (length xs) bs" "at k3 = (at k)(fd \<mapsto> (bs, length xs))"
        using at2 by simp_all
      moreover have "take (min (length bs) limit) bs = take limit bs" by (simp add: min_def)
      moreover have "length xs \<noteq> min (length bs) limit \<Longrightarrow> fails"
        unfolding fails_def
      proof (rule disjI2, intro exI conjI)
        show "os_read calls fd (min (length bs) limit) k2 = (Inr xs, k3)" using x Inr by simp
        show "length xs \<noteq> min (length bs) limit \<Longrightarrow> length xs \<noteq> min (min (length bs) limit) (length bs)" by simp
      qed (use assms(1) e s n in simp_all)
      ultimately show ?thesis using x Inr out by (auto simp: reads_prefix_def read_sized_def)
    qed
  qed
qed

lemma read_file_limit_result:
  "\<exists>r k'. read_file_limit calls path limit k = Some (r, k') \<and> at k' = at k \<and> \<not> panics r \<and>
     (\<forall>xs. r = Ok xs \<longrightarrow> (\<exists>bs. files k (c_path path) = Some bs \<and> xs = take limit bs)) \<and>
     (\<not> is_Ok r \<longrightarrow> fails \<or> (\<exists>e k1. os_open calls (c_path path) O_RDONLY k = (Inl e, k1) \<and> r = Err (error_of_errno calls e)))"
proof (cases "os_open calls (c_path path) O_RDONLY k")
  case (Pair r k1)
  show ?thesis
  proof (cases r)
    case (Inl e)
    with Pair open_err show ?thesis by (auto simp: read_file_limit_def)
  next
    case (Inr fd)
    from open_ok [OF Pair [unfolded Inr]] obtain bs where bs: "files k (c_path path) = Some bs" "length bs < 2 ^ 64"
      and at: "at k fd = None" "at k1 = (at k)(fd \<mapsto> (bs, 0))" by blast
    from read_opened_prefix [of k1 fd bs limit] bs(2) at(2) obtain r' k' pos where
      "read_opened calls fd limit k1 = Some (r', k')" "at k' = (at k1)(fd \<mapsto> (bs, pos))" "\<not> panics r'"
      "\<forall>xs. r' = Ok xs \<longrightarrow> xs = take limit bs" "\<not> is_Ok r' \<longrightarrow> fails" by (auto simp: reads_prefix_def)
    moreover have "(at k)(fd := None) = at k" using at(1) by (simp add: fun_upd_idem)
    ultimately show ?thesis using Pair Inr bs at by (auto simp: read_file_limit_def close_ok)
  qed
qed

end

locale reliable_calls = file_calls +
  assumes open_exists: "files k p = Some bs \<Longrightarrow> \<exists>fd k'. os_open calls p O_RDONLY k = (Inr fd, k')"
    and open_missing: "files k p = None \<Longrightarrow> \<exists>k'. os_open calls p O_RDONLY k = (Inl 2, k')"
    and never_fails: "\<not> file_calls.fails calls at"
begin

lemma read_file_limit_reliable:
  "\<exists>k'. at k' = at k \<and> read_file_limit calls path limit k =
     Some (case files k (c_path path) of
             Some bs \<Rightarrow> Ok (take limit bs) | None \<Rightarrow> Err (IO NotFound (os_strerror calls 2)), k')"
proof -
  from read_file_limit_result [of path limit k] obtain r k' where
    run: "read_file_limit calls path limit k = Some (r, k')" "at k' = at k" "\<not> panics r"
    and ok: "\<And>xs. r = Ok xs \<Longrightarrow> \<exists>bs. files k (c_path path) = Some bs \<and> xs = take limit bs"
    and err: "\<not> is_Ok r \<Longrightarrow> \<exists>e k1. os_open calls (c_path path) O_RDONLY k = (Inl e, k1) \<and> r = Err (error_of_errno calls e)"
    using never_fails by auto
  show ?thesis
  proof (cases "files k (c_path path)")
    case None
    with ok have "\<not> is_Ok r" by (cases r) auto
    with err obtain e k1 where "os_open calls (c_path path) O_RDONLY k = (Inl e, k1)" "r = Err (error_of_errno calls e)" by blast
    with open_missing [OF None] run None show ?thesis by (auto simp: error_of_errno_def)
  next
    case (Some bs)
    with open_exists [OF Some] err have "is_Ok r" by fastforce
    with ok Some run show ?thesis by (cases r) auto
  qed
qed

end

section \<open>A kernel that runs\<close>

text \<open>
  Files with a name, contents and whether the size is known; descriptors are numbered. A file
  of unknown size is read in pieces of at most \<open>piece\<close> bytes.
\<close>

record sim_kernel =
  sk_files :: "(u8 list \<times> u8 list \<times> bool) list"
  sk_fds :: "(u8 list \<times> bool \<times> nat) option list"

definition sim_fd :: "sim_kernel \<Rightarrow> usize \<Rightarrow> (u8 list \<times> bool \<times> nat) option" where
  "sim_fd k fd = (if unat fd < length (sk_fds k) then sk_fds k ! unat fd else None)"

definition sim_set_fd :: "usize \<Rightarrow> (u8 list \<times> bool \<times> nat) option \<Rightarrow> sim_kernel \<Rightarrow> sim_kernel" where
  "sim_set_fd fd v k = k\<lparr>sk_fds := (sk_fds k)[unat fd := v]\<rparr>"

definition sim_find :: "sim_kernel \<Rightarrow> u8 list \<Rightarrow> (u8 list \<times> bool) option" where
  "sim_find k p =
     (case map_of (sk_files k) p of
        None \<Rightarrow> None
      | Some (bs, sized) \<Rightarrow> if 2 ^ 64 \<le> length bs \<or> 2 ^ 64 \<le> length (sk_fds k) then None else Some (bs, sized))"

definition sim_open :: "u8 list \<Rightarrow> usize \<Rightarrow> sim_kernel \<Rightarrow> (nat + usize) \<times> sim_kernel" where
  "sim_open p flags k =
     (case sim_find k p of
        None \<Rightarrow> (Inl 2, k)
      | Some (bs, sized) \<Rightarrow> (Inr (of_nat (length (sk_fds k))), k\<lparr>sk_fds := sk_fds k @ [Some (bs, sized, 0)]\<rparr>))"

definition sim_lseek :: "usize \<Rightarrow> usize \<Rightarrow> usize \<Rightarrow> sim_kernel \<Rightarrow> (nat + usize) \<times> sim_kernel" where
  "sim_lseek fd off whence k =
     (case sim_fd k fd of
        None \<Rightarrow> (Inl 9, k)
      | Some (bs, sized, pos) \<Rightarrow>
          (let n = (if whence = SEEK_END \<and> sized then length bs else 0)
           in if 2 ^ 64 \<le> n then (Inl 75, k) else (Inr (of_nat n), sim_set_fd fd (Some (bs, sized, n)) k)))"

definition sim_read :: "nat \<Rightarrow> usize \<Rightarrow> nat \<Rightarrow> sim_kernel \<Rightarrow> (nat + u8 list) \<times> sim_kernel" where
  "sim_read piece fd n k =
     (case sim_fd k fd of
        None \<Rightarrow> (Inl 9, k)
      | Some (bs, sized, pos) \<Rightarrow>
          (let xs = take (if sized then n else min n piece) (drop pos bs)
           in (Inr xs, sim_set_fd fd (Some (bs, sized, pos + length xs)) k)))"

definition sim_calls :: "nat \<Rightarrow> sim_kernel os_calls" where
  "sim_calls piece = \<lparr>os_open = sim_open, os_lseek = sim_lseek, os_read = sim_read piece,
     os_close = (\<lambda>fd. sim_set_fd fd None), os_stat = (\<lambda>p k. Inl 2), os_strerror = (\<lambda>e. ''No such file or directory'')\<rparr>"

definition sim_at :: "sim_kernel \<Rightarrow> usize \<Rightarrow> (u8 list \<times> nat) option" where
  "sim_at k fd = map_option (\<lambda>(bs, sized, pos). (bs, pos)) (sim_fd k fd)"

definition sim_contents :: "sim_kernel \<Rightarrow> u8 list \<Rightarrow> u8 list option" where
  "sim_contents k p = map_option fst (sim_find k p)"

lemma sim_at_set: "sim_fd k fd \<noteq> None \<or> v = None \<Longrightarrow>
  sim_at (sim_set_fd fd v k) = (sim_at k)(fd := map_option (\<lambda>(bs, sized, pos). (bs, pos)) v)"
  by (rule ext) (auto simp: sim_at_def sim_fd_def sim_set_fd_def nth_list_update word_unat_eq_iff split: if_splits)

lemma sim_fd_at: "sim_at k fd = Some (bs, pos) \<Longrightarrow> \<exists>sized. sim_fd k fd = Some (bs, sized, pos)"
  by (auto simp: sim_at_def)

lemma sim_fd_set: "sim_fd k fd \<noteq> None \<Longrightarrow> sim_fd (sim_set_fd fd v k) fd = v"
  by (auto simp: sim_fd_def sim_set_fd_def split: if_splits)

interpretation sim: file_calls "sim_calls (Suc piece)" sim_contents sim_at
proof (unfold_locales, goal_cases)
  case (1 p k fd k')
  then obtain bs sized where f: "sim_find k p = Some (bs, sized)" "length bs < 2 ^ 64" "length (sk_fds k) < 2 ^ 64"
    and r: "fd = of_nat (length (sk_fds k))" "k' = k\<lparr>sk_fds := sk_fds k @ [Some (bs, sized, 0)]\<rparr>"
    by (auto simp: sim_calls_def sim_open_def sim_find_def not_le split: option.splits if_splits)
  have fd: "unat fd = length (sk_fds k)" using f(3) r(1) by (simp add: unat_of_nat)
  have "sim_at k' = (sim_at k)(fd \<mapsto> (bs, 0))"
  proof
    fix x
    show "sim_at k' x = ((sim_at k)(fd \<mapsto> (bs, 0))) x"
    proof (cases "x = fd")
      case False
      then have "unat x \<noteq> length (sk_fds k)" using fd by (metis word_unat_eq_iff)
      with False show ?thesis by (simp add: sim_at_def sim_fd_def r(2) nth_append)
    qed (simp add: sim_at_def sim_fd_def r(2) fd)
  qed
  with f fd show ?case by (auto simp: sim_contents_def sim_at_def sim_fd_def)
next
  case (3 k fd bs pos n k')
  from sim_fd_at [OF 3(1)] obtain sized where fd: "sim_fd k fd = Some (bs, sized, pos)" by blast
  define m where "m = (if sized then length bs else 0)"
  from 3(2) fd have m: "m < 2 ^ 64" "n = of_nat m" "k' = sim_set_fd fd (Some (bs, sized, m)) k"
    by (auto simp: sim_calls_def sim_lseek_def m_def Let_def split: if_splits)
  then have "unat n = m" by (simp add: unat_of_nat)
  moreover have "sim_fd k' fd = Some (bs, sized, m)" using fd m(3) by (simp add: sim_fd_set)
  ultimately show ?case using fd m(3)
    by (auto simp: sim_calls_def sim_lseek_def sim_at_set m_def SEEK_SET_def SEEK_END_def word_unat_eq_iff split: if_splits)
next
  case (6 k fd bs pos m xs k')
  from sim_fd_at [OF 6(1)] obtain sized where fd: "sim_fd k fd = Some (bs, sized, pos)" by blast
  define c where "c = (if sized then m else min m (Suc piece))"
  from 6(2) fd have xs: "xs = take c (drop pos bs)" "k' = sim_set_fd fd (Some (bs, sized, pos + length xs)) k"
    by (auto simp: sim_calls_def sim_read_def c_def Let_def)
  have "c \<le> m" "c = 0 \<longrightarrow> m = 0" by (auto simp: c_def)
  moreover have "xs = take (length xs) (drop pos bs)" by (simp add: xs(1) min_def)
  ultimately show ?case using fd xs by (auto simp: sim_at_set)
qed (auto simp: sim_calls_def sim_open_def sim_lseek_def sim_read_def sim_at_set Let_def SEEK_END_def SEEK_SET_def
      dest!: sim_fd_at split: option.splits if_splits)

lemma sim_never_fails: "\<not> sim.fails piece"
  unfolding sim.fails_def
proof (intro notI, elim disjE exE conjE)
  fix k fd bs pos m e k'
  assume "sim_at k fd = Some (bs, pos)" "os_read (sim_calls (Suc piece)) fd m k = (Inl e, k')"
  then show False by (auto simp: sim_calls_def sim_read_def Let_def dest!: sim_fd_at)
next
  fix k fd bs pos n k1 r k2 m xs k3
  assume at: "sim_at k fd = Some (bs, pos)" and e: "os_lseek (sim_calls (Suc piece)) fd 0 SEEK_END k = (Inr n, k1)" and n: "0 < n"
    and s: "os_lseek (sim_calls (Suc piece)) fd 0 SEEK_SET k1 = (r, k2)"
    and x: "os_read (sim_calls (Suc piece)) fd m k2 = (Inr xs, k3)" "length xs \<noteq> min m (length bs)"
  from sim_fd_at [OF at] obtain sized where fd: "sim_fd k fd = Some (bs, sized, pos)" by blast
  with e n have "sized" by (cases sized) (auto simp: sim_calls_def sim_lseek_def Let_def)
  with e fd have "sim_fd k1 fd = Some (bs, True, length bs)"
    by (auto simp: sim_calls_def sim_lseek_def Let_def sim_fd_set split: if_splits)
  with s have "sim_fd k2 fd = Some (bs, True, 0)"
    by (auto simp: sim_calls_def sim_lseek_def Let_def sim_fd_set SEEK_END_def SEEK_SET_def)
  with x show False by (auto simp: sim_calls_def sim_read_def Let_def)
qed

interpretation sim: reliable_calls "sim_calls (Suc piece)" sim_contents sim_at
proof (unfold_locales, goal_cases)
  case 3
  show ?case by (rule sim_never_fails)
qed (auto simp: sim_contents_def sim_calls_def sim_open_def)

section \<open>Properties\<close>


text \<open>A file of \<open>/proc\<close> that is delivered two bytes at a time.\<close>

definition ex_kernel :: sim_kernel where
  "ex_kernel = \<lparr>sk_files = [(bytes_of_str ''/proc/self/auxv'', [1, 2, 3, 4, 5], False)], sk_fds = []\<rparr>"


text \<open>The buffer of \<open>stat\<close> has the layout of the kernel: 144 bytes, device and inode at its start.\<close>

lemma linux_stat_layout:
  "struct_size linux_stat_fields = 144"
  "map (offset_of linux_stat_fields) [St_dev, St_ino, St_mode, St_rdev, St_size, St_ctime] = [0, 8, 24, 40, 48, 104]"
  by code_simp+

end
