(* ===== verification/Host_Init.thy ===== *)
theory Host_Init
  imports Os_Linux Symbols Rtld_Relocate Mem_Functions Rtld_Inspect Registry_Spec
begin

text \<open>
  \<open>src/host_init.rs\<close>: when the crate is used inside a process that another dynamic linker
  started, a constructor finds that linker's \<open>r_debug\<close> through the auxiliary vector, joins its
  list of link maps, finds the C library and its \<open>dl_iterate_phdr\<close>, and registers every library
  of the host.

  Parameters (record \<open>host_env\<close>): the system calls, the layout of ELF structures, the memory of
  the process, which is only read, the host's \<open>r_debug\<close> structures, the addresses of new boxes
  (\<open>he_place\<close>), \<open>LoadedDylib::new_unchecked\<close> and symbol lookup of \<open>elf_loader\<close>, the thread
  pointer, and the objects the host's \<open>dl_iterate_phdr\<close> reports. Arithmetic that the source does
  not mark as wrapping panics on overflow. \<open>None\<close> is a run that does not end.
\<close>

section \<open>State\<close>

record placement =
  pl_map :: usize
  pl_name :: usize
  pl_table :: usize
  pl_phdrs :: usize

record ('c, 'i, 'k) host_env =
  he_ops :: "('c, 'i) link_ops"
  he_calls :: "'k os_calls"
  he_view :: elf_view
  he_mem :: memory
  he_rdebug :: "usize \<Rightarrow> r_debug"
  he_place :: "nat \<Rightarrow> placement"
  he_new_unchecked :: "string \<Rightarrow> elf_phdr list \<Rightarrow> usize \<Rightarrow> usize \<Rightarrow> usize option \<Rightarrow> extra_data \<Rightarrow> (elf_error, dylib) res"
  he_symbol :: "dylib \<Rightarrow> string \<Rightarrow> usize option"
  he_thread_pointer :: usize
  he_objects :: "usize \<Rightarrow> c_dl_phdr_info list"

record ('c, 'k) host_state =
  hs_once :: bool
  hs_is_musl :: bool
  hs_argc :: usize
  hs_argv :: usize
  hs_envp :: usize
  hs_boxes :: nat
  hs_debug :: custom_debug
  hs_manager :: "'c manager"
  hs_kernel :: 'k

type_synonym ('c, 'k, 'a) host_action =
  "('c, 'k) host_state \<Rightarrow> ((error, 'a) res \<times> ('c, 'k) host_state) option"

definition h_seq :: "('c, 'k, 'a) host_action \<Rightarrow> ('a \<Rightarrow> ('c, 'k, 'b) host_action) \<Rightarrow> ('c, 'k, 'b) host_action" where
  "h_seq p f s =
     (case p s of
        None \<Rightarrow> None
      | Some (Ok a, s') \<Rightarrow> f a s'
      | Some (Err e, s') \<Rightarrow> Some (Err e, s')
      | Some (Panic m, s') \<Rightarrow> Some (Panic m, s'))"

text \<open>A value that is computed without touching the state; \<open>None\<close> when the computation does not end.\<close>

definition h_lift :: "(error, 'a) res option \<Rightarrow> ('c, 'k, 'a) host_action" where
  "h_lift r s = map_option (\<lambda>r. (r, s)) r"

definition checked_plus :: "usize \<Rightarrow> usize \<Rightarrow> (error, usize) res" where
  "checked_plus a b = (case checked_add a b of Some c \<Rightarrow> Ok c | None \<Rightarrow> Panic ''attempt to add with overflow'')"

section \<open>The auxiliary vector\<close>

text \<open>Pairs of words; \<open>usize::from_ne_bytes\<close> is little-endian here.\<close>

function auxv_find :: "usize \<Rightarrow> u8 list \<Rightarrow> usize" where
  "auxv_find target_type data =
     (if length data < 16 then 0
      else if le_bytes 8 data 0 = target_type then le_bytes 8 data 8
      else if le_bytes 8 data 0 = 0 then 0
      else auxv_find target_type (drop 16 data))"
  by pat_completeness auto
termination by (relation "measure (\<lambda>(t, data). length data)") auto

definition get_auxv :: "('c, 'i, 'k) host_env \<Rightarrow> usize \<Rightarrow> ('c, 'k, usize) host_action" where
  "get_auxv env target_type s =
     (case read_file (he_calls env) ''/proc/self/auxv'' (hs_kernel s) of
        None \<Rightarrow> None
      | Some (Ok data, k) \<Rightarrow> Some (Ok (auxv_find target_type data), s\<lparr>hs_kernel := k\<rparr>)
      | Some (Err e, k) \<Rightarrow> Some (Ok 0, s\<lparr>hs_kernel := k\<rparr>)
      | Some (Panic m, k) \<Rightarrow> Some (Panic m, s\<lparr>hs_kernel := k\<rparr>))"

section \<open>The host's debugger structure\<close>

definition DT_DEBUG :: u64 where "DT_DEBUG = 21"
definition PT_TLS :: u32 where "PT_TLS = 7"

partial_function (option) find_debug_in_dynamic :: "('c, 'i, 'k) host_env \<Rightarrow> usize \<Rightarrow> usize option" where
  "find_debug_in_dynamic env dynamic =
     (if dynamic = 0 \<or> fst (vw_dyn (he_view env) (he_mem env) dynamic) = DT_NULL then Some 0
      else if fst (vw_dyn (he_view env) (he_mem env) dynamic) = DT_DEBUG \<and>
              snd (vw_dyn (he_view env) (he_mem env) dynamic) \<noteq> 0 \<and>
              rd_version (he_rdebug env (snd (vw_dyn (he_view env) (he_mem env) dynamic))) \<noteq> 0
      then Some (snd (vw_dyn (he_view env) (he_mem env) dynamic))
      else find_debug_in_dynamic env (dynamic + vw_dyn_size (he_view env)))"

definition note_phdr :: "usize \<Rightarrow> elf_phdr \<Rightarrow> usize option \<times> elf_phdr option \<Rightarrow> usize option \<times> elf_phdr option" where
  "note_phdr phdr_addr phdr = (\<lambda>(load_bias, dynamic_phdr).
     if ph_type phdr = PT_PHDR then (Some (phdr_addr - ph_vaddr phdr), dynamic_phdr)
     else if ph_type phdr = PT_DYNAMIC then (load_bias, Some phdr)
     else (load_bias, dynamic_phdr))"

definition bias_of_load :: "usize \<Rightarrow> elf_phdr list \<Rightarrow> (error, usize option) res" where
  "bias_of_load phdr_addr phdrs =
     (case List.find (\<lambda>p. ph_type p = PT_LOAD \<and> ph_offset p = 0) phdrs of
        None \<Rightarrow> Ok None
      | Some p \<Rightarrow> bind_res (checked_plus (ph_vaddr p) 64) (\<lambda>linked. Ok (Some (phdr_addr - linked))))"

definition debug_of_main ::
  "('c, 'i, 'k) host_env \<Rightarrow> usize \<Rightarrow> elf_phdr list \<Rightarrow> (error, usize) res option" where
  "debug_of_main env phdr_addr phdrs =
     (let (load_bias, dynamic_phdr) = fold (note_phdr phdr_addr) phdrs (None, None) in
      case (case load_bias of Some bias \<Rightarrow> Ok (Some bias) | None \<Rightarrow> bias_of_load phdr_addr phdrs) of
        Panic m \<Rightarrow> Some (Panic m)
      | Err e \<Rightarrow> Some (Err e)
      | Ok load_bias \<Rightarrow>
          (case (load_bias, dynamic_phdr) of
             (Some bias, Some phdr) \<Rightarrow> map_option Ok (find_debug_in_dynamic env (bias + ph_vaddr phdr))
           | _ \<Rightarrow> Some (Ok 0)))"

definition debug_of_interpreter :: "('c, 'i, 'k) host_env \<Rightarrow> usize \<Rightarrow> (error, usize) res option" where
  "debug_of_interpreter env interpreter_base =
     (if interpreter_base = 0 then Some (Ok 0)
      else
        (let ehdr = vw_ehdr (he_view env) (he_mem env) interpreter_base in
         case checked_plus interpreter_base (e_phoff ehdr) of
           Panic m \<Rightarrow> Some (Panic m)
         | Err e \<Rightarrow> Some (Err e)
         | Ok phdr \<Rightarrow>
             (case List.find (\<lambda>p. ph_type p = PT_DYNAMIC) (read_phdrs (he_view env) (he_mem env) phdr (e_phnum ehdr)) of
                None \<Rightarrow> Some (Ok 0)
              | Some p \<Rightarrow> map_option Ok (find_debug_in_dynamic env (interpreter_base + ph_vaddr p)))))"

definition find_r_debug :: "('c, 'i, 'k) host_env \<Rightarrow> usize \<Rightarrow> usize \<Rightarrow> usize \<Rightarrow> (error, usize) res option" where
  "find_r_debug env phdr_addr phnum interpreter_base =
     (if phdr_addr = 0 \<or> phnum = 0 then Some (Ok 0)
      else
        (case debug_of_main env phdr_addr (read_phdrs (he_view env) (he_mem env) phdr_addr phnum) of
           Some (Ok ptr) \<Rightarrow> if ptr \<noteq> 0 then Some (Ok ptr) else debug_of_interpreter env interpreter_base
         | r \<Rightarrow> r))"

definition get_r_debug :: "('c, 'i, 'k) host_env \<Rightarrow> ('c, 'k, usize) host_action" where
  "get_r_debug env =
     h_seq (get_auxv env AT_PHDR) (\<lambda>phdr_addr.
     h_seq (get_auxv env AT_PHNUM) (\<lambda>phnum.
     h_seq (get_auxv env AT_BASE) (\<lambda>base. h_lift (find_r_debug env phdr_addr phnum base))))"

definition get_debug_struct :: "('c, 'i, 'k) host_env \<Rightarrow> ('c, 'k, usize option) host_action" where
  "get_debug_struct env =
     h_seq (get_r_debug env) (\<lambda>ptr.
       h_lift (Some (Ok (if ptr \<noteq> 0 \<and> rd_version (he_rdebug env ptr) \<noteq> 0 then Some ptr else None))))"

partial_function (option) last_map :: "(usize \<Rightarrow> link_map) \<Rightarrow> usize \<Rightarrow> usize option" where
  "last_map heap cur = (if l_next (heap cur) = 0 then Some cur else last_map heap (l_next (heap cur)))"

definition init_host_debug :: "('c, 'i, 'k) host_env \<Rightarrow> usize \<Rightarrow> custom_debug \<Rightarrow> custom_debug option" where
  "init_host_debug env debug custom =
     (let custom = custom\<lparr>cd_debug := debug, cd_rdebug := he_rdebug env debug\<rparr>;
          cur = rd_map (he_rdebug env debug)
      in map_option (\<lambda>tail. custom\<lparr>cd_tail := tail\<rparr>) (if cur = 0 then Some 0 else last_map (cd_heap custom) cur))"

section \<open>A library of the host\<close>

definition DT_ADDR_TAGS :: "u64 list" where
  "DT_ADDR_TAGS = [3, 4, 5, 6, 7, 12, 13, 17, 23, 25, 26, 36, 0x6ffffef5, 0x6ffffef9, 0x6ffffff9, 0x6ffffff0, 0x6ffffffc, 0x6ffffffe]"

partial_function (option) count_dyn :: "elf_view \<Rightarrow> memory \<Rightarrow> usize \<Rightarrow> nat \<Rightarrow> nat option" where
  "count_dyn view mem dyn_ptr count =
     (if fst (vw_dyn view mem (dyn_ptr + of_nat count * vw_dyn_size view)) = DT_NULL then Some count
      else count_dyn view mem dyn_ptr (Suc count))"

definition recover_entry :: "usize \<Rightarrow> elf_dyn \<Rightarrow> elf_dyn" where
  "recover_entry base entry =
     (if fst entry \<in> set DT_ADDR_TAGS \<and> snd entry > base then (fst entry, snd entry - base) else entry)"

definition recover_dynamic_table :: "elf_view \<Rightarrow> memory \<Rightarrow> usize \<Rightarrow> usize \<Rightarrow> elf_dyn list option" where
  "recover_dynamic_table view mem dyn_ptr base =
     map_option (\<lambda>count. map (recover_entry base)
       (map (\<lambda>i. vw_dyn view mem (dyn_ptr + of_nat i * vw_dyn_size view)) [0..<Suc count]))
     (count_dyn view mem dyn_ptr 0)"

fun load_end :: "elf_phdr list \<Rightarrow> usize \<Rightarrow> (error, usize) res" where
  "load_end [] len = Ok len"
| "load_end (p # ps) len =
     (if ph_type p = PT_LOAD then bind_res (checked_plus (ph_vaddr p) (ph_memsz p)) (\<lambda>e. load_end ps (max len e))
      else load_end ps len)"

definition get_phdrs_and_len :: "('c, 'i, 'k) host_env \<Rightarrow> usize \<Rightarrow> elf_phdr list option \<Rightarrow> (error, elf_phdr list \<times> usize) res" where
  "get_phdrs_and_len env base extra =
     bind_res (case extra of
         Some phdrs \<Rightarrow> Ok phdrs
       | None \<Rightarrow>
           (let ehdr = vw_ehdr (he_view env) (he_mem env) base in
            bind_res (checked_plus base (e_phoff ehdr)) (\<lambda>phdr.
              Ok (read_phdrs (he_view env) (he_mem env) phdr (e_phnum ehdr)))))
     (\<lambda>phdrs. bind_res (load_end phdrs 0) (\<lambda>len. Ok (phdrs, len)))"

definition lossy :: "string \<Rightarrow> string" where
  "lossy s = str_of_bytes (utf8_encode (from_utf8_lossy (bytes_of_str s)))"

fun str_contains :: "string \<Rightarrow> string \<Rightarrow> bool" where
  "str_contains [] pat \<longleftrightarrow> pat = []"
| "str_contains (c # s) pat \<longleftrightarrow> take (length pat) (c # s) = pat \<or> str_contains s pat"

fun set_dynamic_vaddr :: "usize \<Rightarrow> elf_phdr list \<Rightarrow> elf_phdr list" where
  "set_dynamic_vaddr v [] = []"
| "set_dynamic_vaddr v (p # ps) =
     (if ph_type p = PT_DYNAMIC then p\<lparr>ph_vaddr := v\<rparr> # ps else p # set_dynamic_vaddr v ps)"

type_synonym host_extra = "elf_phdr list \<times> usize option \<times> usize option"

definition host_link_map_of :: "placement \<Rightarrow> usize \<Rightarrow> usize \<Rightarrow> usize \<Rightarrow> custom_debug \<Rightarrow> link_map" where
  "host_link_map_of pl base dyn_ptr host_link_map custom =
     (if host_link_map \<noteq> 0 then cd_heap custom host_link_map
      else link_map_zero\<lparr>l_addr := base, l_ld := dyn_ptr\<rparr>)
     \<lparr>l_real := pl_map pl, l_name := pl_name pl, l_next := 0, l_prev := 0\<rparr>"

definition host_phdrs :: "placement \<Rightarrow> usize \<Rightarrow> elf_dyn list option \<Rightarrow> host_extra option \<Rightarrow> elf_phdr list \<Rightarrow> elf_phdr list" where
  "host_phdrs pl base table extra phdrs =
     (let phdrs = (case table of Some _ \<Rightarrow> set_dynamic_vaddr (pl_table pl - base) phdrs | None \<Rightarrow> phdrs)
      in if (case extra of None \<Rightarrow> True | Some (_, tls_data, _) \<Rightarrow> tls_data = None)
         then filter (\<lambda>p. ph_type p \<noteq> PT_TLS) phdrs else phdrs)"

definition tp_offset :: "host_extra option \<Rightarrow> (error, usize option) res" where
  "tp_offset extra =
     (case extra of
        Some (_, _, Some offset) \<Rightarrow> if offset = 2 ^ 63 then Panic ''attempt to negate with overflow'' else Ok (Some (- offset))
      | _ \<Rightarrow> Ok None)"

text \<open>
  The user data move into \<open>new_unchecked\<close>; when it fails they are dropped, which removes their
  link map from the debugger's list if it is there.
\<close>

definition from_raw ::
  "('c, 'i, 'k) host_env \<Rightarrow> string \<Rightarrow> usize \<Rightarrow> usize \<Rightarrow> host_extra option \<Rightarrow> usize \<Rightarrow> ('c, 'k, dylib option) host_action" where
  "from_raw env name base dyn_ptr extra host_link_map s =
     (if dyn_ptr = 0 then Some (Ok None, s)
      else
        (let pl = he_place env (hs_boxes s);
             name_str = lossy name;
             lm = host_link_map_of pl base dyn_ptr host_link_map (hs_debug s);
             recovers = (\<not> str_contains name_str ''linux-vdso.so.1'' \<and> \<not> hs_is_musl s)
         in case (if recovers then map_option Some (recover_dynamic_table (he_view env) (he_mem env) dyn_ptr base) else Some None) of
              None \<Rightarrow> None
            | Some table \<Rightarrow>
                Some (case bind_res (get_phdrs_and_len env base (map_option fst extra)) (\<lambda>(phdrs, len).
                           bind_res (checked_plus len 0xfff) (\<lambda>len.
                           bind_res (tp_offset extra) (\<lambda>offset. Ok (phdrs, len AND NOT 0xfff, offset)))) of
                        Panic m \<Rightarrow> (Panic m, s)
                      | Err e \<Rightarrow> (Err e, s)
                      | Ok (phdrs, len, offset) \<Rightarrow>
                          (let use_phdrs = host_phdrs pl base table extra phdrs;
                               lm = lm\<lparr>l_phdr := (if use_phdrs = [] then 0 else pl_phdrs pl),
                                       l_entry := e_entry (vw_ehdr (he_view env) (he_mem env) base) + base,
                                       l_phnum := phnum_of use_phdrs\<rparr>;
                               debug = (hs_debug s)\<lparr>cd_heap := (cd_heap (hs_debug s))(pl_map pl := lm)\<rparr>;
                               user_data = extra_data_default\<lparr>ed_c_name := Some name, ed_link_map := Some (pl_map pl),
                                                              ed_dynamic_table := table\<rparr>;
                               s = s\<lparr>hs_boxes := Suc (hs_boxes s), hs_debug := debug\<rparr>
                           in case he_new_unchecked env name_str use_phdrs base len offset user_data of
                                Ok lib \<Rightarrow> (Ok (Some lib), s)
                              | Err e \<Rightarrow> (Err (LoaderError e), s\<lparr>hs_debug := drop_extra_data (Some (pl_map pl)) debug\<rparr>)
                              | Panic m \<Rightarrow> (Panic m, s)))))"

partial_function (option) find_map_at :: "(usize \<Rightarrow> link_map) \<Rightarrow> usize \<Rightarrow> usize \<Rightarrow> usize option" where
  "find_map_at heap base cur =
     (if cur = 0 then Some 0
      else if l_addr (heap cur) = base then Some cur
      else find_map_at heap base (l_next (heap cur)))"

definition find_host_link_map :: "usize \<Rightarrow> custom_debug \<Rightarrow> usize option" where
  "find_host_link_map base debug =
     find_map_at (cd_heap debug) base (if cd_debug debug = 0 then 0 else rd_map (cd_rdebug debug))"

section \<open>Looking for the C library\<close>

text \<open>
  \<open>get::<T>\<close> of \<open>elf_loader\<close> gives the address of a symbol as a value of type \<open>T\<close>. With a
  pointer type, \<open>*s\<close> is that address and \<open>**s\<close> what it points to; \<open>c_int\<close> is sign-extended.
\<close>

definition symbol_or :: "('c, 'i, 'k) host_env \<Rightarrow> dylib \<Rightarrow> string \<Rightarrow> string \<Rightarrow> usize option" where
  "symbol_or env lib a b = (case he_symbol env lib a of Some p \<Rightarrow> Some p | None \<Rightarrow> he_symbol env lib b)"

definition read_c_int :: "memory \<Rightarrow> usize \<Rightarrow> usize" where
  "read_c_int mem p = scast (ucast (load_le 4 mem p) :: 32 word)"

definition update_libc_globals :: "('c, 'i, 'k) host_env \<Rightarrow> dylib \<Rightarrow> ('c, 'k) host_state \<Rightarrow> ('c, 'k) host_state" where
  "update_libc_globals env lib s =
     (let s = (if hs_argc s = 0 then
                 (case symbol_or env lib ''__libc_argc'' ''__argc'' of Some p \<Rightarrow> s\<lparr>hs_argc := read_c_int (he_mem env) p\<rparr> | None \<Rightarrow> s)
               else s);
          s = (if hs_argv s = 0 then
                 (case symbol_or env lib ''__libc_argv'' ''__argv'' of Some p \<Rightarrow> s\<lparr>hs_argv := p\<rparr> | None \<Rightarrow> s)
               else s)
      in if hs_envp s = 0 then
           (case symbol_or env lib ''environ'' ''__environ'' of Some p \<Rightarrow> s\<lparr>hs_envp := read_usize (he_mem env) p\<rparr> | None \<Rightarrow> s)
         else s)"

definition map_name :: "memory \<Rightarrow> link_map \<Rightarrow> string option" where
  "map_name mem lm = (if l_name lm = 0 then Some [] else map_option str_of_bytes (cstr_bytes mem (l_name lm)))"

definition drop_dylib :: "dylib \<Rightarrow> ('c, 'k) host_state \<Rightarrow> ('c, 'k) host_state" where
  "drop_dylib lib s = s\<lparr>hs_debug := drop_extra_data (ed_link_map (dl_user_data lib)) (hs_debug s)\<rparr>"

definition use_libc ::
  "('c, 'i, 'k) host_env \<Rightarrow> bool \<Rightarrow> usize option \<Rightarrow> dylib \<Rightarrow> ('c, 'k) host_state \<Rightarrow> usize option \<times> ('c, 'k) host_state" where
  "use_libc env is_libc iter_phdr lib s =
     ((if is_libc \<and> iter_phdr = None then he_symbol env lib ''dl_iterate_phdr'' else iter_phdr),
      drop_dylib lib (update_libc_globals env lib s))"

text \<open>One turn of the loop of \<open>iterate_phdr\<close>, for the link map at \<open>cur\<close>.\<close>

definition visit_map ::
  "('c, 'i, 'k) host_env \<Rightarrow> usize \<Rightarrow> usize option \<Rightarrow> ('c, 'k, usize option) host_action" where
  "visit_map env cur iter_phdr s =
     (let lm = cd_heap (hs_debug s) cur in
      case map_name (he_mem env) lm of
        None \<Rightarrow> None
      | Some name \<Rightarrow>
          (let ns = lossy name;
               s = (if str_contains ns ''ld-musl'' then s\<lparr>hs_is_musl := True\<rparr> else s);
               is_main = (ns = []);
               is_libc = ((str_contains ns ''libc'' \<or> str_contains ns ''ld-musl'') \<and> str_contains ns ''.so'')
           in if is_main \<or> is_libc then
                map_option (\<lambda>(r, s).
                  case r of
                    Ok (Some lib) \<Rightarrow> (case use_libc env is_libc iter_phdr lib s of (iter_phdr, s) \<Rightarrow> (Ok iter_phdr, s))
                  | Ok None \<Rightarrow> (Ok iter_phdr, s)
                  | Err e \<Rightarrow> (Ok iter_phdr, s)
                  | Panic m \<Rightarrow> (Panic m, s))
                (from_raw env name (l_addr lm) (l_ld lm) None cur s)
              else Some (Ok iter_phdr, s)))"

text \<open>\<open>LinkMapIter\<close> reads the next pointer before the body runs.\<close>

partial_function (option) visit_maps ::
  "('c, 'i, 'k) host_env \<Rightarrow> usize \<Rightarrow> usize option \<Rightarrow> ('c, 'k) host_state \<Rightarrow> ((error, usize option) res \<times> ('c, 'k) host_state) option" where
  "visit_maps env cur iter_phdr s =
     (if cur = 0 then Some (Ok iter_phdr, s)
      else
        (case visit_map env cur iter_phdr s of
           None \<Rightarrow> None
         | Some (r, s') \<Rightarrow>
             (case r of
                Ok iter_phdr' \<Rightarrow> visit_maps env (l_next (cd_heap (hs_debug s) cur)) iter_phdr' s'
              | Err e \<Rightarrow> Some (Err e, s')
              | Panic m \<Rightarrow> Some (Panic m, s'))))"

section \<open>Registering the libraries of the host\<close>

definition callback_dynamic :: "usize \<Rightarrow> elf_phdr list \<Rightarrow> (error, usize) res" where
  "callback_dynamic base phdrs =
     (case List.find (\<lambda>p. ph_type p = PT_DYNAMIC) phdrs of
        Some p \<Rightarrow> checked_plus base (ph_vaddr p)
      | None \<Rightarrow> Panic ''No PT_DYNAMIC found in phdrs'')"

definition h_register :: "('c, 'i, 'k) host_env \<Rightarrow> dylib \<Rightarrow> ('c, 'k, unit) host_action" where
  "h_register env lib s =
     Some (case register_loaded (he_ops env) lib (RTLD_NODELETE OR RTLD_GLOBAL) (hs_manager s) of
             Ok m \<Rightarrow> (Ok (), s\<lparr>hs_manager := m\<rparr>)
           | Err e \<Rightarrow> (Err e, s)
           | Panic p \<Rightarrow> (Panic p, s))"

definition expect_lib :: "('c, 'k, dylib option) host_action \<Rightarrow> ('c, 'k, dylib) host_action" where
  "expect_lib p s =
     map_option (\<lambda>(r, s).
       (case r of
          Ok (Some lib) \<Rightarrow> Ok lib
        | Ok None \<Rightarrow> Panic ''from_raw failed in callback''
        | Err e \<Rightarrow> Panic ''called Result::unwrap() on an Err value''
        | Panic m \<Rightarrow> Panic m, s)) (p s)"

definition callback :: "('c, 'i, 'k) host_env \<Rightarrow> c_dl_phdr_info \<Rightarrow> ('c, 'k, unit) host_action" where
  "callback env info =
     (let base = dlpi_addr info;
          phdrs = take (unat (dlpi_phnum info)) (dlpi_phdr info);
          tls_data = (if dlpi_tls_data info = 0 then None else Some (dlpi_tls_data info));
          static_offset = map_option (\<lambda>d. he_thread_pointer env - d) tls_data
      in h_seq (h_lift (Some (callback_dynamic base phdrs))) (\<lambda>dyn_ptr.
         h_seq (\<lambda>s. h_lift (map_option Ok (find_host_link_map base (hs_debug s))) s) (\<lambda>lm.
         h_seq (expect_lib (from_raw env (dlpi_name info) base dyn_ptr (Some (phdrs, tls_data, static_offset)) lm)) (\<lambda>lib.
           h_register env lib))))"

text \<open>The host's \<open>dl_iterate_phdr\<close>: one call per object, as long as the callback returns zero, which it always does.\<close>

fun callbacks :: "('c, 'i, 'k) host_env \<Rightarrow> c_dl_phdr_info list \<Rightarrow> ('c, 'k, unit) host_action" where
  "callbacks env [] s = Some (Ok (), s)"
| "callbacks env (info # infos) s = h_seq (callback env info) (\<lambda>_. callbacks env infos) s"

definition iterate_phdr :: "('c, 'i, 'k) host_env \<Rightarrow> usize \<Rightarrow> ('c, 'k, unit) host_action" where
  "iterate_phdr env start s =
     (if start = 0 then Some (Ok (), s)
      else
        h_seq (visit_maps env start None) (\<lambda>iter_phdr.
          case iter_phdr of
            None \<Rightarrow> h_lift (Some (Panic ''iterate_phdr: could not find libc with dl_iterate_phdr''))
          | Some iter \<Rightarrow> callbacks env (he_objects env iter)) s)"

definition h_rebuild :: "('c, 'i, 'k) host_env \<Rightarrow> ('c, 'k, unit) host_action" where
  "h_rebuild env s =
     Some (case rebuild_link_ctx (he_ops env) (hs_manager s) of
             Ok m \<Rightarrow> (Ok (), s\<lparr>hs_manager := m\<rparr>)
           | Err e \<Rightarrow> (Err e, s)
           | Panic p \<Rightarrow> (Panic p, s))"

definition h_init_debug :: "('c, 'i, 'k) host_env \<Rightarrow> usize \<Rightarrow> ('c, 'k, unit) host_action" where
  "h_init_debug env debug s =
     map_option (\<lambda>d. (Ok (), s\<lparr>hs_debug := d\<rparr>)) (init_host_debug env debug (hs_debug s))"

definition host_init :: "('c, 'i, 'k) host_env \<Rightarrow> ('c, 'k, unit) host_action" where
  "host_init env s =
     (if hs_once s then Some (Ok (), s)
      else
        h_seq (get_debug_struct env) (\<lambda>debug.
          case debug of
            None \<Rightarrow> h_lift (Some (Ok ()))
          | Some debug \<Rightarrow>
              h_seq (h_init_debug env debug) (\<lambda>_.
              h_seq (iterate_phdr env (rd_map (he_rdebug env debug))) (\<lambda>_. h_rebuild env)))
        (s\<lparr>hs_once := True\<rparr>))"

section \<open>The dynamic table\<close>

definition table_at :: "elf_view \<Rightarrow> memory \<Rightarrow> usize \<Rightarrow> elf_dyn list \<Rightarrow> bool" where
  "table_at view mem p ds \<longleftrightarrow> (\<forall>i < length ds. vw_dyn view mem (p + of_nat i * vw_dyn_size view) = ds ! i)"

lemma count_dyn_ends:
  assumes "table_at view mem p (ds @ [(DT_NULL, v)])" "\<forall>d \<in> set ds. fst d \<noteq> DT_NULL" "i \<le> length ds"
  shows "count_dyn view mem p i = Some (length ds)"
  using assms(3)
proof (induction "length ds - i" arbitrary: i)
  case 0
  then have "vw_dyn view mem (p + of_nat i * vw_dyn_size view) = (DT_NULL, v)"
    using assms(1) by (auto simp: table_at_def nth_append)
  with 0 show ?case by (simp add: count_dyn.simps)
next
  case (Suc n)
  then have i: "i < length ds" by simp
  then have "vw_dyn view mem (p + of_nat i * vw_dyn_size view) = ds ! i"
    using assms(1) by (auto simp: table_at_def nth_append)
  with i assms(2) have "count_dyn view mem p i = count_dyn view mem p (Suc i)"
    by (subst count_dyn.simps) simp
  with Suc i show ?case by simp
qed

lemma recovered_table:
  assumes "table_at view mem p (ds @ [(DT_NULL, v)])" "\<forall>d \<in> set ds. fst d \<noteq> DT_NULL"
  shows "recover_dynamic_table view mem p base = Some (map (recover_entry base) ds @ [(DT_NULL, v)])"
proof -
  have "map (\<lambda>i. vw_dyn view mem (p + of_nat i * vw_dyn_size view)) [0..<Suc (length ds)] = ds @ [(DT_NULL, v)]"
    using assms(1) by (intro nth_equalityI) (simp_all add: table_at_def del: upt_Suc)
  moreover have "recover_entry base (DT_NULL, v) = (DT_NULL, v)"
    by (simp add: recover_entry_def DT_NULL_def DT_ADDR_TAGS_def)
  ultimately show ?thesis
    using count_dyn_ends [OF assms, of 0] by (simp add: recover_dynamic_table_def del: upt_Suc map_map)
qed

text \<open>
  What the host's linker does to a table: the entries with the tags \<open>rel\<close> (\<open>glibc\<close> relocates
  \<open>PLTGOT\<close>, \<open>HASH\<close>, \<open>STRTAB\<close> and others, but not \<open>INIT\<close> or \<open>VERNEED\<close>) become absolute.
\<close>

definition relocate_entry :: "(u64 \<Rightarrow> bool) \<Rightarrow> usize \<Rightarrow> elf_dyn \<Rightarrow> elf_dyn" where
  "relocate_entry rel base d = (if rel (fst d) then (fst d, snd d + base) else d)"

definition recoverable :: "(u64 \<Rightarrow> bool) \<Rightarrow> usize \<Rightarrow> elf_dyn \<Rightarrow> bool" where
  "recoverable rel base d \<longleftrightarrow> fst d \<noteq> DT_NULL \<and>
     (if rel (fst d) then fst d \<in> set DT_ADDR_TAGS \<and> snd d \<noteq> 0 \<and> unat (snd d) + unat base < 2 ^ 64
      else fst d \<in> set DT_ADDR_TAGS \<longrightarrow> snd d \<le> base \<or> base = 0)"

lemma recover_relocate: "recoverable rel base d \<Longrightarrow> recover_entry base (relocate_entry rel base d) = d"
proof (cases "rel (fst d)")
  case True
  assume "recoverable rel base d"
  with True have d: "fst d \<in> set DT_ADDR_TAGS" "snd d \<noteq> 0" "unat (snd d) + unat base < 2 ^ 64" by (auto simp: recoverable_def)
  then have "unat (snd d + base) = unat (snd d) + unat base" by (simp add: unat_word_ariths)
  moreover have "0 < unat (snd d)" using d(2) by (simp add: unat_gt_0)
  ultimately have "base < snd d + base" by (simp add: word_less_nat_alt)
  with True d show ?thesis by (simp add: recover_entry_def relocate_entry_def)
qed (auto simp: recoverable_def recover_entry_def relocate_entry_def)

section \<open>The host's link maps\<close>

lemma last_map_seg: "seg h prev p xs 0 l \<Longrightarrow> xs \<noteq> [] \<Longrightarrow> last_map h p = Some l"
proof (induction xs arbitrary: prev p)
  case (Cons x xs)
  then have "p = x" "seg h x (l_next (h x)) xs 0 l" by auto
  moreover have "last_map h x = (if l_next (h x) = 0 then Some x else last_map h (l_next (h x)))" by (rule last_map.simps)
  ultimately show ?case using Cons.IH [of x "l_next (h x)"] by (cases xs) auto
qed simp

lemma find_map_at_seg:
  "seg h prev p xs 0 l \<Longrightarrow>
     find_map_at h base p = Some (case List.find (\<lambda>x. l_addr (h x) = base) xs of Some x \<Rightarrow> x | None \<Rightarrow> 0)"
proof (induction xs arbitrary: prev p)
  case (Cons x xs)
  then have "p = x" "x \<noteq> 0" "seg h x (l_next (h x)) xs 0 l" by auto
  with Cons.IH [of x "l_next (h x)"] show ?case by (simp add: find_map_at.simps [of h base x])
qed (simp add: find_map_at.simps)

lemma init_host_debug_joins:
  assumes "seg (cd_heap d) 0 (rd_map (he_rdebug env p)) xs 0 l" "distinct xs"
  shows "\<exists>d'. init_host_debug env p d = Some d' \<and> debug_list d' xs \<and> cd_debug d' = p \<and> cd_heap d' = cd_heap d"
proof (cases xs)
  case Nil
  with assms show ?thesis by (auto simp: init_host_debug_def debug_list_def)
next
  case (Cons x ys)
  with assms last_map_seg [OF assms(1)] show ?thesis by (auto simp: init_host_debug_def debug_list_def Let_def)
qed

text \<open>Boxes are new memory, and \<open>new_unchecked\<close> keeps the name and the user data it is given.\<close>

definition fresh_boxes :: "('c, 'i, 'k) host_env \<Rightarrow> usize list \<Rightarrow> bool" where
  "fresh_boxes env xs \<longleftrightarrow> (\<forall>n. pl_map (he_place env n) \<noteq> 0 \<and> pl_map (he_place env n) \<notin> set xs)"

definition unchecked_ok :: "('c, 'i, 'k) host_env \<Rightarrow> bool" where
  "unchecked_ok env \<longleftrightarrow> (\<forall>n ps b len off u lib.
     he_new_unchecked env n ps b len off u = Ok lib \<longrightarrow> dl_name lib = n \<and> dl_user_data lib = u)"

lemma unchecked_okD:
  "unchecked_ok env \<Longrightarrow> he_new_unchecked env n ps b len off u = Ok lib \<Longrightarrow> dl_name lib = n \<and> dl_user_data lib = u"
  unfolding unchecked_ok_def by blast

lemma debug_list_map_in: "debug_list d xs \<Longrightarrow> rd_map (cd_rdebug d) \<in> insert 0 (set xs)"
  by (cases xs) (auto simp: debug_list_def)

text \<open>A link map that was never put into the list is dropped without a trace.\<close>

lemma drop_unlisted:
  "debug_list d xs \<Longrightarrow> lm \<notin> set xs \<Longrightarrow> lm \<noteq> 0 \<Longrightarrow> l_prev (cd_heap d lm) = 0 \<Longrightarrow> drop_extra_data (Some lm) d = d"
  using debug_list_map_in [of d xs] by (auto simp: drop_extra_data_def)

lemma from_raw_effect:
  assumes "debug_list (hs_debug s) xs" "fresh_boxes env xs" "unchecked_ok env"
    and "from_raw env name base dyn_ptr extra lm s = Some (r, s')"
  shows "debug_list (hs_debug s') xs \<and> hs_manager s' = hs_manager s \<and>
    (\<forall>lib. r = Ok (Some lib) \<longrightarrow> dl_name lib = lossy name \<and> drop_dylib lib s' = s')"
proof -
  let ?p = "pl_map (he_place env (hs_boxes s))"
  have p: "?p \<noteq> 0" "?p \<notin> set xs" using assms(2) by (auto simp: fresh_boxes_def)
  have fresh: "debug_list ((hs_debug s)\<lparr>cd_heap := (cd_heap (hs_debug s))(?p := v)\<rparr>) xs" for v
    using assms(1) p by (simp add: debug_list_fresh_heap)
  have drop: "drop_extra_data (Some ?p) ((hs_debug s)\<lparr>cd_heap := (cd_heap (hs_debug s))(?p := v)\<rparr>) =
      (hs_debug s)\<lparr>cd_heap := (cd_heap (hs_debug s))(?p := v)\<rparr>" if "l_prev v = 0" for v
    using that by (intro drop_unlisted [OF fresh p(2,1)]) simp
  show ?thesis
    using assms(1,4) fresh unchecked_okD [OF assms(3)]
    by (auto simp: from_raw_def Let_def drop_dylib_def drop host_link_map_of_def
        split: if_splits option.splits res.splits prod.splits)
qed

section \<open>The run of the constructor\<close>

lemma h_seq_Some:
  "h_seq p f s = Some (r, s') \<longleftrightarrow>
     (\<exists>a s1. p s = Some (Ok a, s1) \<and> f a s1 = Some (r, s')) \<or> (\<exists>e. p s = Some (Err e, s') \<and> r = Err e) \<or>
     (\<exists>m. p s = Some (Panic m, s') \<and> r = Panic m)"
  by (auto simp: h_seq_def split: option.splits prod.splits res.splits)

lemma update_libc_globals_frame [simp]:
  "hs_debug (update_libc_globals env lib s) = hs_debug s" "hs_manager (update_libc_globals env lib s) = hs_manager s"
  by (auto simp: update_libc_globals_def Let_def split: option.splits)

lemma drop_dylib_manager [simp]: "hs_manager (drop_dylib lib s) = hs_manager s"
  by (simp add: drop_dylib_def)

lemma visit_map_effect:
  assumes "debug_list (hs_debug s) xs" "fresh_boxes env xs" "unchecked_ok env" "visit_map env cur iter s = Some (r, s')"
  shows "debug_list (hs_debug s') xs \<and> hs_manager s' = hs_manager s \<and> (\<forall>e. r \<noteq> Err e)"
proof -
  let ?lm = "cd_heap (hs_debug s) cur"
  from assms(4) obtain name where name: "map_name (he_mem env) ?lm = Some name"
    by (auto simp: visit_map_def Let_def split: option.splits)
  define s1 where "s1 = (if str_contains (lossy name) ''ld-musl'' then s\<lparr>hs_is_musl := True\<rparr> else s)"
  have s1: "hs_debug s1 = hs_debug s" "hs_manager s1 = hs_manager s" by (simp_all add: s1_def)
  show ?thesis
  proof (cases "from_raw env name (l_addr ?lm) (l_ld ?lm) None cur s1")
    case None
    with assms(1,4) name s1 show ?thesis
      by (auto simp: visit_map_def Let_def s1_def [symmetric] split: if_splits)
  next
    case (Some rs)
    obtain r' s2 where rs: "rs = (r', s2)" by (cases rs)
    from from_raw_effect [OF _ assms(2,3) Some [unfolded rs]] assms(1) s1 have
      eff: "debug_list (hs_debug s2) xs" "hs_manager s2 = hs_manager s" "\<And>lib. r' = Ok (Some lib) \<Longrightarrow> drop_dylib lib s2 = s2"
      by auto
    have drop: "hs_debug (drop_dylib lib (update_libc_globals env lib s2)) = hs_debug s2" if "r' = Ok (Some lib)" for lib
    proof -
      have "hs_debug (drop_dylib lib (update_libc_globals env lib s2)) = hs_debug (drop_dylib lib s2)" by (simp add: drop_dylib_def)
      with eff(3) [OF that] show ?thesis by simp
    qed
    have run: "visit_map env cur iter s = Some (if lossy name = [] \<or>
          ((str_contains (lossy name) ''libc'' \<or> str_contains (lossy name) ''ld-musl'') \<and> str_contains (lossy name) ''.so'')
        then (case r' of
            Ok (Some lib) \<Rightarrow> (case use_libc env ((str_contains (lossy name) ''libc'' \<or> str_contains (lossy name) ''ld-musl'') \<and>
                str_contains (lossy name) ''.so'') iter lib s2 of (iter_phdr, s) \<Rightarrow> (Ok iter_phdr, s))
          | Ok None \<Rightarrow> (Ok iter, s2) | Err e \<Rightarrow> (Ok iter, s2) | Panic m \<Rightarrow> (Panic m, s2))
        else (Ok iter, s1))"
      using name Some rs by (auto simp: visit_map_def Let_def s1_def [symmetric])
    show ?thesis
      using assms(1,4) eff(1,2) s1 drop unfolding run use_libc_def
      by (cases r') (auto split: if_splits option.splits)
  qed
qed

lemma visit_maps_run:
  "visit_maps env cur iter s = Some y \<Longrightarrow> debug_list (hs_debug s) xs \<longrightarrow> fresh_boxes env xs \<longrightarrow> unchecked_ok env \<longrightarrow>
     debug_list (hs_debug (snd y)) xs \<and> hs_manager (snd y) = hs_manager s \<and> (\<forall>e. fst y \<noteq> Err e)"
proof (induction rule: visit_maps.raw_induct [rotated, consumes 1, case_names step])
  case (step visit env cur iter s y)
  show ?case
  proof (intro impI)
    assume ok: "debug_list (hs_debug s) xs" "fresh_boxes env xs" "unchecked_ok env"
    show "debug_list (hs_debug (snd y)) xs \<and> hs_manager (snd y) = hs_manager s \<and> (\<forall>e. fst y \<noteq> Err e)"
    proof (cases "cur = 0")
      case False
      with step(2) obtain r s1 where run: "visit_map env cur iter s = Some (r, s1)" by (auto split: option.splits)
      note eff = visit_map_effect [OF ok run]
      show ?thesis
      proof (cases r)
        case (Ok a)
        with step(2) run False have "visit env (l_next (cd_heap (hs_debug s) cur)) a s1 = Some y" by simp
        from step(1) [OF this] ok eff show ?thesis by simp
      qed (use step(2) run False eff in auto)
    qed (use step(2) ok in auto)
  qed
qed

lemmas visit_maps_effect = visit_maps_run [where y = "(r, s')" for r s', unfolded fst_conv snd_conv, rule_format]

context link_context
begin

lemma register_outcome:
  assumes "manager_inv ops ok m" "im_keys (pending m) = []" "is_global f"
  shows "case register_loaded ops lib f m of
      Ok m' \<Rightarrow> manager_inv ops ok m' \<and> im_keys (pending m') = [] \<and> lc_names ops (link_ctx m') = lc_names ops (link_ctx m) @ [dylib_shortname lib]
    | Err e \<Rightarrow> False
    | Panic p \<Rightarrow> dylib_shortname lib \<in> set (lc_names ops (link_ctx m))"
proof (cases "registered ops m (dylib_shortname lib)")
  case False
  from inv_register_loaded [OF assms(1) this, of f] assms(2,3) show ?thesis by auto
next
  case True
  have c: "ok (link_ctx m)" using assms(1) by (rule inv_ctx)
  with True assms(2) have "lc_contains_key ops (link_ctx m) (dylib_shortname lib)"
    by (auto simp: registered_def view_contains_key dest: im.get_Some_key)
  with c show ?thesis by (auto simp: register_loaded_def Let_def add_loaded_def insert_duplicate names_set view_contains_key)
qed

end

definition host_name :: "c_dl_phdr_info \<Rightarrow> string" where
  "host_name info = shortname_from_name (lossy (dlpi_name info))"

lemma callback_cases:
  assumes "debug_list (hs_debug s) xs" "fresh_boxes env xs" "unchecked_ok env" "callback env info s = Some (r, s')"
  shows "debug_list (hs_debug s') xs \<and>
    (hs_manager s' = hs_manager s \<and> panics r \<or>
     (\<exists>lib. dylib_shortname lib = host_name info \<and>
        (case register_loaded (he_ops env) lib (RTLD_NODELETE OR RTLD_GLOBAL) (hs_manager s) of
           Ok m \<Rightarrow> r = Ok () \<and> hs_manager s' = m
         | Err e \<Rightarrow> r = Err e \<and> hs_manager s' = hs_manager s
         | Panic p \<Rightarrow> r = Panic p \<and> hs_manager s' = hs_manager s)))"
proof -
  let ?phdrs = "take (unat (dlpi_phnum info)) (dlpi_phdr info)"
  have "callback_dynamic (dlpi_addr info) ?phdrs \<noteq> Err e" for e
    by (auto simp: callback_dynamic_def checked_plus_def split: option.splits)
  then consider (panic) m where "callback_dynamic (dlpi_addr info) ?phdrs = Panic m"
    | (ok) d where "callback_dynamic (dlpi_addr info) ?phdrs = Ok d"
    by (cases "callback_dynamic (dlpi_addr info) ?phdrs") auto
  then show ?thesis
  proof cases
    case panic
    with assms show ?thesis by (auto simp: callback_def Let_def h_seq_Some h_lift_def)
  next
    case (ok d)
    with assms(4) obtain lm r1 s1 ex where raw: "from_raw env (dlpi_name info) (dlpi_addr info) d ex lm s = Some (r1, s1)"
      and rest: "h_seq (\<lambda>_. Some (case r1 of Ok (Some lib) \<Rightarrow> Ok lib | Ok None \<Rightarrow> Panic ''from_raw failed in callback''
          | Err e \<Rightarrow> Panic ''called Result::unwrap() on an Err value'' | Panic m \<Rightarrow> Panic m, s1)) (h_register env) s = Some (r, s')"
      by (fastforce simp: callback_def Let_def h_seq_def h_lift_def expect_lib_def split: option.splits prod.splits)
    note eff = from_raw_effect [OF assms(1-3) raw]
    show ?thesis
    proof (cases "\<exists>lib. r1 = Ok (Some lib)")
      case False
      with rest eff show ?thesis by (cases r1) (auto simp: h_seq_def split: option.splits)
    next
      case True
      then obtain lib where lib: "r1 = Ok (Some lib)" by blast
      with eff have "dylib_shortname lib = host_name info" by (auto simp: dylib_shortname_def host_name_def)
      with lib rest eff show ?thesis
        by (auto simp: h_seq_def h_register_def split: res.splits intro!: exI [of _ lib])
    qed
  qed
qed

lemma callbacks_register:
  assumes ctx: "link_context (he_ops env) ok" and env: "fresh_boxes env xs" "unchecked_ok env"
    and "callbacks env infos s = Some (r, s')" "debug_list (hs_debug s) xs"
    and "manager_inv (he_ops env) ok (hs_manager s)" "im_keys (pending (hs_manager s)) = []"
  shows "debug_list (hs_debug s') xs \<and> manager_inv (he_ops env) ok (hs_manager s') \<and> (panics r \<or>
    r = Ok () \<and> lc_names (he_ops env) (link_ctx (hs_manager s')) = lc_names (he_ops env) (link_ctx (hs_manager s)) @ map host_name infos)"
  using assms(4-)
proof (induction infos arbitrary: s)
  case (Cons info infos)
  have glob: "is_global (RTLD_NODELETE OR RTLD_GLOBAL)" by simp
  from Cons.prems(1) obtain r1 s1 where cb: "callback env info s = Some (r1, s1)"
    and rest: "h_seq (\<lambda>_. Some (r1, s1)) (\<lambda>_. callbacks env infos) s = Some (r, s')"
    by (auto simp: h_seq_def split: option.splits prod.splits)
  from callback_cases [OF Cons.prems(2) env cb] consider
      (panic) "panics r1" "hs_manager s1 = hs_manager s" "debug_list (hs_debug s1) xs"
    | (reg) lib where "dylib_shortname lib = host_name info" "debug_list (hs_debug s1) xs"
        "case register_loaded (he_ops env) lib (RTLD_NODELETE OR RTLD_GLOBAL) (hs_manager s) of
           Ok m \<Rightarrow> r1 = Ok () \<and> hs_manager s1 = m
         | Err e \<Rightarrow> r1 = Err e \<and> hs_manager s1 = hs_manager s
         | Panic p \<Rightarrow> r1 = Panic p \<and> hs_manager s1 = hs_manager s" by auto
  then show ?case
  proof cases
    case panic
    with rest Cons.prems show ?thesis by (cases r1) (auto simp: h_seq_def)
  next
    case (reg lib)
    note out = link_context.register_outcome [OF ctx Cons.prems(3,4) glob, of lib]
    show ?thesis
    proof (cases "register_loaded (he_ops env) lib (RTLD_NODELETE OR RTLD_GLOBAL) (hs_manager s)")
      case (Ok m)
      with reg rest have "callbacks env infos s1 = Some (r, s')" by (simp add: h_seq_def)
      from Cons.IH [OF this reg(2)] Ok reg out show ?thesis by auto
    qed (use reg out rest Cons.prems in \<open>auto simp: h_seq_def\<close>)
  qed
qed auto

lemma find_r_debug_not_Err: "find_r_debug env a n b \<noteq> Some (Err e)"
  by (auto simp: find_r_debug_def debug_of_main_def debug_of_interpreter_def bias_of_load_def checked_plus_def Let_def
      split: option.splits res.splits prod.splits if_splits)

lemma get_auxv_frame:
  "get_auxv env t s = Some (r, s1) \<Longrightarrow> \<exists>k. s1 = s\<lparr>hs_kernel := k\<rparr> \<and> (\<forall>e. r \<noteq> Err e)"
  by (auto simp: get_auxv_def split: option.splits res.splits prod.splits)

lemma get_debug_struct_frame:
  assumes "get_debug_struct env s = Some (r, s1)"
  shows "hs_debug s1 = hs_debug s \<and> hs_manager s1 = hs_manager s \<and> hs_once s1 = hs_once s \<and> (\<forall>e. r \<noteq> Err e) \<and>
    (\<forall>p. r = Ok (Some p) \<longrightarrow> rd_version (he_rdebug env p) \<noteq> 0)"
  using assms unfolding get_debug_struct_def get_r_debug_def
  by (auto simp: h_seq_Some h_lift_def find_r_debug_not_Err dest!: get_auxv_frame split: if_splits)

lemma iterate_phdr_registers:
  assumes "link_context (he_ops env) ok" "fresh_boxes env xs" "unchecked_ok env" "iterate_phdr env start s = Some (r, s')"
    and "debug_list (hs_debug s) xs" "hs_manager s = manager_new (he_ops env)"
  shows "debug_list (hs_debug s') xs \<and> manager_inv (he_ops env) ok (hs_manager s') \<and>
    (panics r \<or> r = Ok () \<and> (\<exists>infos. lc_names (he_ops env) (link_ctx (hs_manager s')) = map host_name infos \<and>
       (start = 0 \<and> infos = [] \<or> start \<noteq> 0 \<and> (\<exists>iter. infos = he_objects env iter))))"
proof -
  have new: "manager_inv (he_ops env) ok (manager_new (he_ops env))" "im_keys (pending (manager_new (he_ops env))) = []"
    "lc_names (he_ops env) (link_ctx (manager_new (he_ops env))) = []"
    using link_context.inv_new [OF assms(1)] link_context.names_new [OF assms(1)] by (simp_all add: manager_new_def im_keys_def)
  show ?thesis
  proof (cases "start = 0")
    case True
    with assms(4-6) new show ?thesis by (auto simp: iterate_phdr_def)
  next
    case False
    with assms(4) obtain r1 s1 where visit: "visit_maps env start None s = Some (r1, s1)"
      and rest: "h_seq (\<lambda>_. Some (r1, s1)) (\<lambda>iter_phdr. case iter_phdr of
            None \<Rightarrow> h_lift (Some (Panic ''iterate_phdr: could not find libc with dl_iterate_phdr''))
          | Some iter \<Rightarrow> callbacks env (he_objects env iter)) s = Some (r, s')"
      by (auto simp: iterate_phdr_def h_seq_def split: option.splits prod.splits)
    note eff = visit_maps_effect [OF visit assms(5,2,3)]
    show ?thesis
    proof (cases "\<exists>iter. r1 = Ok (Some iter)")
      case True
      then obtain iter where iter: "r1 = Ok (Some iter)" by blast
      with rest have "callbacks env (he_objects env iter) s1 = Some (r, s')" by (simp add: h_seq_def)
      from callbacks_register [OF assms(1-3) this] eff assms(6) new False show ?thesis by auto
    next
      case no: False
      with rest eff have "panics r \<and> s' = s1" by (cases r1) (auto simp: h_seq_def h_lift_def split: option.splits)
      with eff assms(6) new show ?thesis by auto
    qed
  qed
qed

text \<open>The list of link maps the host keeps: a proper list, apart from the crate's boxes.\<close>

definition host_list :: "('c, 'i, 'k) host_env \<Rightarrow> custom_debug \<Rightarrow> usize \<Rightarrow> usize list \<Rightarrow> bool" where
  "host_list env d p xs \<longleftrightarrow> distinct xs \<and> fresh_boxes env xs \<and> (\<exists>l. seg (cd_heap d) 0 (rd_map (he_rdebug env p)) xs 0 l)"

lemma rebuild_after:
  assumes "link_context (he_ops env) ok" "manager_inv (he_ops env) ok (hs_manager s)" "panics r \<or> r = Ok ()"
    and "h_seq (\<lambda>_. Some (r, s)) (\<lambda>_. h_rebuild env) s0 = Some (r', s')"
  shows "hs_debug s' = hs_debug s \<and> manager_inv (he_ops env) ok (hs_manager s') \<and> (r' = Ok () \<longleftrightarrow> r = Ok ()) \<and> (panics r' \<longleftrightarrow> panics r) \<and>
    lc_names (he_ops env) (link_ctx (hs_manager s')) = lc_names (he_ops env) (link_ctx (hs_manager s))"
proof -
  from link_context.rebuild_Ok [OF assms(1,2)] obtain c where
    "rebuild_link_ctx (he_ops env) (hs_manager s) = Ok (hs_manager s\<lparr>link_ctx := c\<rparr>)"
    "lc_names (he_ops env) c = lc_names (he_ops env) (link_ctx (hs_manager s))"
    "manager_inv (he_ops env) ok (hs_manager s\<lparr>link_ctx := c\<rparr>)" by blast
  with assms(2-) show ?thesis by (cases r) (auto simp: h_seq_def h_rebuild_def)
qed

lemma host_joined_run:
  assumes "link_context (he_ops env) ok" "unchecked_ok env" "hs_manager s = manager_new (he_ops env)"
    and list: "host_list env (hs_debug s) p xs"
    and "h_seq (h_init_debug env p) (\<lambda>_. h_seq (iterate_phdr env (rd_map (he_rdebug env p))) (\<lambda>_. h_rebuild env)) s = Some (r, s')"
  shows "manager_inv (he_ops env) ok (hs_manager s') \<and>
    (panics r \<or> r = Ok () \<and> debug_list (hs_debug s') xs \<and> (\<exists>infos. (xs \<noteq> [] \<longrightarrow> (\<exists>iter. infos = he_objects env iter)) \<and>
       lc_names (he_ops env) (link_ctx (hs_manager s')) = map host_name infos \<and> distinct (map host_name infos)))"
proof -
  from list obtain l where xs: "distinct xs" "fresh_boxes env xs" and sg: "seg (cd_heap (hs_debug s)) 0 (rd_map (he_rdebug env p)) xs 0 l"
    unfolding host_list_def by blast
  from init_host_debug_joins [OF sg xs(1)] obtain d' where d: "init_host_debug env p (hs_debug s) = Some d'" "debug_list d' xs" by auto
  let ?s = "s\<lparr>hs_debug := d'\<rparr>"
  from assms(5) d(1) obtain r2 s3 where it: "iterate_phdr env (rd_map (he_rdebug env p)) ?s = Some (r2, s3)"
    and rest: "h_seq (\<lambda>_. Some (r2, s3)) (\<lambda>_. h_rebuild env) ?s = Some (r, s')"
    by (auto simp: h_seq_def h_init_debug_def split: option.splits prod.splits)
  have "debug_list (hs_debug ?s) xs" "hs_manager ?s = manager_new (he_ops env)" using d assms(3) by simp_all
  note reg = iterate_phdr_registers [OF assms(1) xs(2) assms(2) it this]
  then have s3: "manager_inv (he_ops env) ok (hs_manager s3)" "panics r2 \<or> r2 = Ok ()" by auto
  note after = rebuild_after [OF assms(1) s3 rest]
  then have "distinct (lc_names (he_ops env) (link_ctx (hs_manager s')))"
    by (intro link_context.names_distinct [OF assms(1)]) (simp add: manager_inv_defs)
  moreover have "xs \<noteq> [] \<Longrightarrow> rd_map (he_rdebug env p) \<noteq> 0" using sg by (cases xs) auto
  ultimately show ?thesis using reg after by fastforce
qed

lemma host_init_run:
  assumes "link_context (he_ops env) ok" "unchecked_ok env" "hs_manager s = manager_new (he_ops env)"
    and lists: "\<And>p. rd_version (he_rdebug env p) \<noteq> 0 \<Longrightarrow> \<exists>xs. host_list env (hs_debug s) p xs"
    and "host_init env s = Some (r, s')"
  shows "manager_inv (he_ops env) ok (hs_manager s') \<and>
    (panics r \<or> r = Ok () \<and> (hs_manager s' = hs_manager s \<or>
      (\<exists>p xs infos. host_list env (hs_debug s) p xs \<and> debug_list (hs_debug s') xs \<and>
         (xs \<noteq> [] \<longrightarrow> (\<exists>iter. infos = he_objects env iter)) \<and>
         lc_names (he_ops env) (link_ctx (hs_manager s')) = map host_name infos \<and> distinct (map host_name infos))))"
proof (cases "hs_once s")
  case True
  with assms show ?thesis using link_context.inv_new [OF assms(1)] by (auto simp: host_init_def)
next
  case False
  from False assms(5) obtain r1 s1 where g: "get_debug_struct env (s\<lparr>hs_once := True\<rparr>) = Some (r1, s1)"
    by (auto simp: host_init_def h_seq_def split: option.splits)
  note frame = get_debug_struct_frame [OF g]
  show ?thesis
  proof (cases "\<exists>p. r1 = Ok (Some p)")
    case no: False
    with False assms(3,5) g frame link_context.inv_new [OF assms(1)] show ?thesis
      by (cases r1) (auto simp: host_init_def h_seq_def h_lift_def split: option.splits)
  next
    case True
    then obtain p where p: "r1 = Ok (Some p)" by blast
    with frame lists obtain xs where list: "host_list env (hs_debug s1) p xs" by auto
    from False assms(5) g p have
      "h_seq (h_init_debug env p) (\<lambda>_. h_seq (iterate_phdr env (rd_map (he_rdebug env p))) (\<lambda>_. h_rebuild env)) s1 = Some (r, s')"
      by (simp add: host_init_def h_seq_def)
    with host_joined_run [OF assms(1,2) _ list] frame assms(3) list show ?thesis by fastforce
  qed
qed

section \<open>A host that runs\<close>

text \<open>
  The auxiliary vector names one program header at \<open>0x1000\<close> and the interpreter at \<open>0x2000\<close>,
  whose dynamic section leads to the \<open>r_debug\<close> at \<open>0x3000\<close> with one link map, the C library.
  The host reports the program and the C library.
\<close>

definition ex_host_auxv :: "u8 list" where
  "ex_host_auxv = [3, 0, 0, 0, 0, 0, 0, 0, 0, 0x10, 0, 0, 0, 0, 0, 0, 5, 0, 0, 0, 0, 0, 0, 0, 1, 0, 0, 0, 0, 0, 0, 0,
     7, 0, 0, 0, 0, 0, 0, 0, 0, 0x20, 0, 0, 0, 0, 0, 0, 0, 0, 0, 0, 0, 0, 0, 0, 0, 0, 0, 0, 0, 0, 0, 0]"

definition ex_host_calls :: "unit os_calls" where
  "ex_host_calls = \<lparr>os_open = (\<lambda>p f k. (Inr 3, k)), os_lseek = (\<lambda>fd off w k. (Inr (if w = SEEK_END then 64 else 0), k)),
     os_read = (\<lambda>fd n k. (Inr (take n ex_host_auxv), k)), os_close = (\<lambda>fd k. k), os_stat = (\<lambda>p k. Inl 2), os_strerror = (\<lambda>e. [])\<rparr>"

definition ex_host_dynamic :: elf_phdr where
  "ex_host_dynamic = \<lparr>ph_type = PT_DYNAMIC, ph_offset = 0, ph_vaddr = 0x100, ph_memsz = 0x20\<rparr>"

definition ex_host_view :: elf_view where
  "ex_host_view = elf64\<lparr>vw_phdr := (\<lambda>mem a. ex_host_dynamic),
     vw_dyn := (\<lambda>mem a. if a = 0x2100 then (DT_DEBUG, 0x3000) else (DT_NULL, 0)),
     vw_ehdr := (\<lambda>mem a. \<lparr>e_phentsize = 56, e_phoff = 64, e_phnum = 1, e_entry = 0x10\<rparr>)\<rparr>"

definition ex_host_info :: "string \<Rightarrow> usize \<Rightarrow> c_dl_phdr_info" where
  "ex_host_info name base = \<lparr>dlpi_addr = base, dlpi_name = name, dlpi_phdr = [ex_host_dynamic], dlpi_phnum = 1,
     dlpi_adds = 2, dlpi_subs = 0, dlpi_tls_modid = 0, dlpi_tls_data = 0\<rparr>"

definition ex_host_env :: "(list_ctx, string, unit) host_env" where
  "ex_host_env = \<lparr>he_ops = list_ops, he_calls = ex_host_calls, he_view = ex_host_view,
     he_mem = (\<lambda>a. if a = 0x5000 then 108 else if a = 0x5001 then 105 else if a = 0x5002 then 98 else if a = 0x5003 then 99
       else if a = 0x5004 then 46 else if a = 0x5005 then 115 else if a = 0x5006 then 111 else 0),
     he_rdebug = (\<lambda>p. if p = 0x3000 then r_debug_zero\<lparr>rd_version := 1, rd_map := 0x4000\<rparr> else r_debug_zero),
     he_place = (\<lambda>n. \<lparr>pl_map = (if n = 0 then 0x10000 else if n = 1 then 0x11000 else 0x12000), pl_name = 0x13000,
       pl_table = 0x14000, pl_phdrs = 0x15000\<rparr>),
     he_new_unchecked = (\<lambda>name phdrs base len off u. Ok \<lparr>dl_name = name, dl_base = base, dl_mapped_len = len,
       dl_user_data = u, dl_phdrs = Some phdrs, dl_tls_mod_id = None\<rparr>),
     he_symbol = (\<lambda>lib name. if name = ''dl_iterate_phdr'' then Some 0x9000 else None),
     he_thread_pointer = 0x80000, he_objects = (\<lambda>iter. [ex_host_info [] 0x6000, ex_host_info ''libc.so'' 0x7000])\<rparr>"

definition ex_host_state :: "(list_ctx, unit) host_state" where
  "ex_host_state = \<lparr>hs_once = False, hs_is_musl = False, hs_argc = 0, hs_argv = 0, hs_envp = 0, hs_boxes = 0,
     hs_debug = debug_init 0x100 0x200 (\<lambda>a. if a = 0x4000 then link_map_zero\<lparr>l_addr := 0x7000, l_name := 0x5000, l_ld := 0x7100\<rparr>
       else link_map_zero), hs_manager = manager_new list_ops, hs_kernel = ()\<rparr>"

lemma ex_host_simps [simp]:
  "he_ops ex_host_env = list_ops" "he_calls ex_host_env = ex_host_calls" "he_view ex_host_env = ex_host_view"
  "he_thread_pointer ex_host_env = 0x80000" "he_objects ex_host_env i = [ex_host_info [] 0x6000, ex_host_info ''libc.so'' 0x7000]"
  "he_symbol ex_host_env lib n = (if n = ''dl_iterate_phdr'' then Some 0x9000 else None)"
  "vw_phdr ex_host_view mem a = ex_host_dynamic" "vw_dyn ex_host_view mem a = (if a = 0x2100 then (DT_DEBUG, 0x3000) else (DT_NULL, 0))"
  "vw_ehdr ex_host_view mem a = \<lparr>e_phentsize = 56, e_phoff = 64, e_phnum = 1, e_entry = 0x10\<rparr>"
  by (simp_all add: ex_host_env_def ex_host_view_def)

lemma ex_host_from_raw:
  assumes "dyn_ptr \<noteq> 0" "dyn_ptr \<noteq> 0x2100" "extra = None \<and> base = 0x7000 \<or> extra = Some ([ex_host_dynamic], None, None)"
  shows "\<exists>lib s'. from_raw ex_host_env name base dyn_ptr extra lm s = Some (Ok (Some lib), s')"
proof -
  have "count_dyn ex_host_view mem dyn_ptr 0 = Some 0" for mem using assms by (simp add: count_dyn.simps)
  then have "recover_dynamic_table ex_host_view mem dyn_ptr base = Some [recover_entry base (DT_NULL, 0)]" for mem
    using assms by (simp add: recover_dynamic_table_def)
  moreover have "get_phdrs_and_len ex_host_env base (map_option fst extra) = Ok ([ex_host_dynamic], 0)"
    using assms(3) by (auto simp: get_phdrs_and_len_def ex_host_dynamic_def PT_LOAD_def PT_DYNAMIC_def checked_plus_def checked_add_def
        read_phdrs_def)
  moreover have "tp_offset extra = Ok None" using assms(3) by (auto simp: tp_offset_def)
  ultimately show ?thesis
    using assms(1) by (auto simp: from_raw_def Let_def checked_plus_def checked_add_def) (simp_all add: ex_host_env_def)
qed

lemma ex_host_assms: "unchecked_ok ex_host_env" "fresh_boxes ex_host_env [0x4000]"
  "rd_version (he_rdebug ex_host_env p) \<noteq> 0 \<longleftrightarrow> p = 0x3000" "rd_map (he_rdebug ex_host_env 0x3000) = 0x4000"
  "host_list ex_host_env (hs_debug ex_host_state) 0x3000 [0x4000]"
  by (auto simp: unchecked_ok_def fresh_boxes_def ex_host_env_def r_debug_zero_def host_list_def ex_host_state_def debug_init_def link_map_zero_def)

lemma ex_host_callback:
  assumes "info = ex_host_info name base" "base < 0x8000" "base \<noteq> 0x2000" "debug_list (hs_debug s) [0x4000]"
  shows "\<exists>lib s1. callback ex_host_env info s = h_register ex_host_env lib s1 \<and> dylib_shortname lib = host_name info \<and>
    hs_manager s1 = hs_manager s \<and> debug_list (hs_debug s1) [0x4000]"
proof -
  have info: "take (unat (dlpi_phnum info)) (dlpi_phdr info) = [ex_host_dynamic]" "dlpi_addr info = base"
    "dlpi_tls_data info = 0" "dlpi_name info = name" using assms(1) by (simp_all add: ex_host_info_def)
  have dyn: "callback_dynamic base [ex_host_dynamic] = Ok (base + 0x100)" using assms(2)
    by (simp add: callback_dynamic_def ex_host_dynamic_def checked_plus_def checked_add_Some word_less_nat_alt split: option.splits)
  from assms(4) find_map_at_seg [of "cd_heap (hs_debug s)" 0 _ "[0x4000]" _ base] obtain lm where
    lm: "find_host_link_map base (hs_debug s) = Some lm"
    by (cases "cd_debug (hs_debug s) = 0") (auto simp: find_host_link_map_def debug_list_def find_map_at.simps [of _ _ 0])
  have "base + 0x100 \<noteq> 0" "base + 0x100 \<noteq> 0x2100" using assms(2,3) by (auto simp: eq_neg_iff_add_eq_0 [symmetric])
  then obtain lib s1 where raw: "from_raw ex_host_env name base (base + 0x100) (Some ([ex_host_dynamic], None, None)) lm s = Some (Ok (Some lib), s1)"
    using ex_host_from_raw [of "base + 0x100"] by blast
  from from_raw_effect [OF assms(4) ex_host_assms(2,1) raw] have
    "dylib_shortname lib = host_name info" "hs_manager s1 = hs_manager s" "debug_list (hs_debug s1) [0x4000]"
    by (simp_all add: dylib_shortname_def host_name_def info)
  moreover have "callback ex_host_env info s = h_register ex_host_env lib s1"
    by (simp add: callback_def info dyn lm raw h_seq_def h_lift_def expect_lib_def)
  ultimately show ?thesis by blast
qed

lemma ex_host_callback_ok:
  assumes "info = ex_host_info name base" "base < 0x8000" "base \<noteq> 0x2000" "debug_list (hs_debug s) [0x4000]"
    and "manager_inv list_ops im_wf (hs_manager s)" "im_keys (pending (hs_manager s)) = []"
    and "host_name info \<notin> set (lc_names list_ops (link_ctx (hs_manager s)))"
  shows "\<exists>s'. callback ex_host_env info s = Some (Ok (), s') \<and> debug_list (hs_debug s') [0x4000] \<and>
    manager_inv list_ops im_wf (hs_manager s') \<and> im_keys (pending (hs_manager s')) = [] \<and>
    lc_names list_ops (link_ctx (hs_manager s')) = lc_names list_ops (link_ctx (hs_manager s)) @ [host_name info]"
proof -
  from ex_host_callback [OF assms(1-4)] obtain lib s1 where run: "callback ex_host_env info s = h_register ex_host_env lib s1"
    and lib: "dylib_shortname lib = host_name info" "hs_manager s1 = hs_manager s" "debug_list (hs_debug s1) [0x4000]" by blast
  note out = link_context.register_outcome [OF list_ctx.link_context_axioms assms(5,6), of "RTLD_NODELETE OR RTLD_GLOBAL" lib]
  then obtain m where "register_loaded list_ops lib (RTLD_NODELETE OR RTLD_GLOBAL) (hs_manager s) = Ok m"
    using assms(7) lib(1) by (auto split: res.splits)
  with out run lib show ?thesis by (simp add: h_register_def)
qed

lemma ex_host_debug: "\<exists>s1. get_debug_struct ex_host_env (ex_host_state\<lparr>hs_once := True\<rparr>) = Some (Ok (Some 0x3000), s1)"
proof -
  have rf: "read_file ex_host_calls p () = Some (Ok ex_host_auxv, ())" for p
    by (simp add: read_file_def read_file_limit_def read_opened_def read_sized_def ex_host_calls_def SEEK_END_def SEEK_SET_def ex_host_auxv_def)
  have "auxv_find AT_PHDR ex_host_auxv = 0x1000" "auxv_find AT_PHNUM ex_host_auxv = 1" "auxv_find AT_BASE ex_host_auxv = 0x2000"
    by code_simp+
  moreover have "find_r_debug ex_host_env 0x1000 1 0x2000 = Some (Ok 0x3000)"
    by (simp add: find_r_debug_def debug_of_main_def debug_of_interpreter_def read_phdrs_def note_phdr_def bias_of_load_def
        ex_host_dynamic_def PT_PHDR_def PT_DYNAMIC_def PT_LOAD_def checked_plus_def checked_add_def
        find_debug_in_dynamic.simps [of _ "0x2100"] ex_host_assms DT_DEBUG_def DT_NULL_def)
  ultimately show ?thesis
    by (simp add: get_debug_struct_def get_r_debug_def get_auxv_def h_seq_def h_lift_def rf ex_host_assms(3))
qed

lemma ex_host_name: "map_name (he_mem ex_host_env) (link_map_zero\<lparr>l_addr := 0x7000, l_name := 0x5000, l_ld := 0x7100\<rparr>) = Some ''libc.so''"
proof -
  have "find_nul (he_mem ex_host_env) 0x5000 = Some 0x5007"
    by (simp add: ex_host_env_def find_nul.simps [of _ "0x5000"] find_nul.simps [of _ "0x5001"] find_nul.simps [of _ "0x5002"]
        find_nul.simps [of _ "0x5003"] find_nul.simps [of _ "0x5004"] find_nul.simps [of _ "0x5005"] find_nul.simps [of _ "0x5006"]
        find_nul.simps [of _ "0x5007"])
  then have "cstr_bytes (he_mem ex_host_env) 0x5000 = Some (bytes_at (he_mem ex_host_env) 0x5000 7)"
    by (simp add: cstr_bytes_def strlen_def)
  moreover have "str_of_bytes (bytes_at (he_mem ex_host_env) 0x5000 7) = ''libc.so''" by code_simp
  ultimately show ?thesis by (simp add: map_name_def)
qed

lemma ex_host_lossy: "lossy ''libc.so'' = ''libc.so''" "host_name (ex_host_info [] b) = ''main''" "host_name (ex_host_info ''libc.so'' b) = ''libc.so''"
  "str_contains ''libc.so'' ''libc''" "str_contains ''libc.so'' ''.so''" "\<not> str_contains ''libc.so'' ''ld-musl''"
proof -
  show l: "lossy ''libc.so'' = ''libc.so''" by code_simp
  have "lossy [] = []" by code_simp
  with l show "host_name (ex_host_info [] b) = ''main''" "host_name (ex_host_info ''libc.so'' b) = ''libc.so''"
    by (simp_all add: host_name_def ex_host_info_def shortname_from_name_def is_path_sep_def)
qed simp_all

lemma ex_host_visit:
  assumes "cd_heap (hs_debug s) = cd_heap (hs_debug ex_host_state)" "debug_list (hs_debug s) [0x4000]"
  shows "\<exists>s'. visit_maps ex_host_env 0x4000 None s = Some (Ok (Some 0x9000), s') \<and> debug_list (hs_debug s') [0x4000] \<and> hs_manager s' = hs_manager s"
proof -
  have lm: "cd_heap (hs_debug s) 0x4000 = link_map_zero\<lparr>l_addr := 0x7000, l_name := 0x5000, l_ld := 0x7100\<rparr>"
    using assms(1) by (simp add: ex_host_state_def debug_init_def)
  obtain lib s1 where raw: "from_raw ex_host_env ''libc.so'' 0x7000 0x7100 None 0x4000 s = Some (Ok (Some lib), s1)"
    using ex_host_from_raw [of "0x7100" None "0x7000" "''libc.so''" "0x4000" s] by auto
  then have "visit_map ex_host_env 0x4000 None s = Some (Ok (Some 0x9000), drop_dylib lib (update_libc_globals ex_host_env lib s1))"
    by (simp add: visit_map_def Let_def lm ex_host_name ex_host_lossy use_libc_def)
  then have run: "visit_maps ex_host_env 0x4000 None s = Some (Ok (Some 0x9000), drop_dylib lib (update_libc_globals ex_host_env lib s1))"
    by (simp add: visit_maps.simps [of _ "0x4000"] visit_maps.simps [of _ 0] lm link_map_zero_def)
  from visit_maps_effect [OF this assms(2) ex_host_assms(2,1)] run show ?thesis by blast
qed

lemma ex_host_run: "\<exists>s'. host_init ex_host_env ex_host_state = Some (Ok (), s')"
proof -
  from ex_host_debug obtain s1 where g: "get_debug_struct ex_host_env (ex_host_state\<lparr>hs_once := True\<rparr>) = Some (Ok (Some 0x3000), s1)" by blast
  from get_debug_struct_frame [OF g] have s1: "hs_debug s1 = hs_debug ex_host_state" "hs_manager s1 = manager_new list_ops"
    by (simp_all add: ex_host_state_def)
  from ex_host_assms(5) init_host_debug_joins [of "hs_debug s1" ex_host_env "0x3000" "[0x4000]"] obtain d where
    d: "init_host_debug ex_host_env 0x3000 (hs_debug s1) = Some d" "debug_list d [0x4000]" "cd_heap d = cd_heap (hs_debug ex_host_state)"
    unfolding host_list_def s1 by auto
  from ex_host_visit [of "s1\<lparr>hs_debug := d\<rparr>"] d s1 obtain s2 where
    v: "visit_maps ex_host_env 0x4000 None (s1\<lparr>hs_debug := d\<rparr>) = Some (Ok (Some 0x9000), s2)" "debug_list (hs_debug s2) [0x4000]"
      "hs_manager s2 = manager_new list_ops" by auto
  have new: "manager_inv list_ops im_wf (manager_new list_ops)" "im_keys (pending (manager_new list_ops)) = []"
    "lc_names list_ops (link_ctx (manager_new list_ops)) = []"
    by (rule list_ctx.inv_new) (simp_all add: manager_new_def im_keys_def lc_names_def List.map_filter_def)
  from ex_host_callback_ok [OF refl, of "0x6000" s2 "[]"] v new obtain s3 where
    c1: "callback ex_host_env (ex_host_info [] 0x6000) s2 = Some (Ok (), s3)" "debug_list (hs_debug s3) [0x4000]"
      "manager_inv list_ops im_wf (hs_manager s3)" "im_keys (pending (hs_manager s3)) = []"
      "lc_names list_ops (link_ctx (hs_manager s3)) = [''main'']" by (auto simp: ex_host_lossy)
  from ex_host_callback_ok [OF refl, of "0x7000" s3 "''libc.so''"] c1 obtain s4 where
    c2: "callback ex_host_env (ex_host_info ''libc.so'' 0x7000) s3 = Some (Ok (), s4)" "manager_inv list_ops im_wf (hs_manager s4)"
    by (auto simp: ex_host_lossy)
  from list_ctx.rebuild_Ok [OF c2(2)] obtain c where "rebuild_link_ctx list_ops (hs_manager s4) = Ok (hs_manager s4\<lparr>link_ctx := c\<rparr>)" by blast
  with g d v(1) c1(1) c2(1) show ?thesis
    by (simp add: host_init_def h_seq_def h_init_debug_def ex_host_assms(4) iterate_phdr_def h_rebuild_def ex_host_state_def)
qed

section \<open>Properties\<close>



text \<open>
  C22. The dynamic table of a library that the host's linker has relocated in place is
  recovered exactly: entries it made absolute are relative again, all others and the
  terminating entry are unchanged.
\<close>

theorem recover_dynamic_table_roundtrip:
  assumes "table_at view mem p (map (relocate_entry rel base) ds @ [(DT_NULL, v)])" "\<forall>d \<in> set ds. recoverable rel base d"
  shows "recover_dynamic_table view mem p base = Some (ds @ [(DT_NULL, v)])"
proof -
  have "fst (relocate_entry rel base d) = fst d" for d by (simp add: relocate_entry_def)
  with assms(2) have "\<forall>d \<in> set (map (relocate_entry rel base) ds). fst d \<noteq> DT_NULL" by (auto simp: recoverable_def)
  moreover from assms(2) have "map (recover_entry base) (map (relocate_entry rel base) ds) = ds"
    by (simp add: recover_relocate map_idI)
  ultimately show ?thesis using recovered_table [OF assms(1)] by simp
qed

theorem recover_dynamic_table_roundtrip_witness:
  "recover_dynamic_table elf64 (store_words 0x1000 [5, 0x7000300, 12, 0x1000, 0, 0] (\<lambda>_. 0)) 0x1000 0x7000000 = Some [(5, 0x300), (12, 0x1000), (0, 0)]"
proof -
  let ?mem = "store_words 0x1000 [5, 0x7000300, 12, 0x1000, 0, 0] (\<lambda>_. 0)"
  have w: "words_at ?mem 0x1000 [5, 0x7000300, 12, 0x1000, 0, 0]" by (rule store_words_at) simp
  have "table_at elf64 ?mem 0x1000 (map (relocate_entry (\<lambda>t. t = 5) 0x7000000) [(5, 0x300), (12, 0x1000)] @ [(DT_NULL, 0)])"
    using w by (auto simp: table_at_def elf64_def relocate_entry_def DT_NULL_def less_Suc_eq nth_Cons')
  moreover have "\<forall>d \<in> set [(5, 0x300), (12, 0x1000)]. recoverable (\<lambda>t. t = 5) 0x7000000 d"
    by (simp add: recoverable_def DT_ADDR_TAGS_def DT_NULL_def)
  ultimately show ?thesis using recover_dynamic_table_roundtrip by (fastforce simp: DT_NULL_def)
qed

end
