(* ===== verification/Handle.thy ===== *)
theory Handle
  imports Symbols Dlopen_Link Registry_Props
begin

text \<open>
  The methods of a handle (\<open>ElfLibrary\<close>, \<open>src/core_impl/loader.rs\<close>), the names a caller may
  pass (\<open>src/core_impl/traits.rs\<close>) and the two functions of \<open>src/api/dlopen.rs\<close> that open a
  library by name or from memory. What a handle reports is fixed when the library is mapped,
  except for its flags, which are the registry's.
\<close>

section \<open>Accessors\<close>

definition elf_library_name :: "elf_library \<Rightarrow> string" where
  "elf_library_name lib = dl_name (el_inner lib)"

definition elf_library_shortname :: "elf_library \<Rightarrow> string" where
  "elf_library_shortname lib = dylib_shortname (el_inner lib)"

definition elf_library_flags :: "('c, 'i) link_ops \<Rightarrow> 'c manager \<Rightarrow> elf_library \<Rightarrow> open_flags" where
  "elf_library_flags ops m lib = (case manager_flags ops m (elf_library_shortname lib) of Some f \<Rightarrow> f | None \<Rightarrow> 0)"

definition elf_library_base :: "elf_library \<Rightarrow> usize" where
  "elf_library_base lib = dl_base (el_inner lib)"

definition elf_library_mapped_len :: "elf_library \<Rightarrow> usize" where
  "elf_library_mapped_len lib = dl_mapped_len (el_inner lib)"

definition elf_library_phdrs :: "elf_library \<Rightarrow> elf_phdr list option" where
  "elf_library_phdrs lib = dl_phdrs (el_inner lib)"

definition elf_library_needed_libs :: "elf_library \<Rightarrow> string list" where
  "elf_library_needed_libs lib = dylib_needed_libs (el_inner lib)"

text \<open>Unlike \<open>get\<close>, a versioned symbol is looked for in the library alone.\<close>

definition elf_library_get_version ::
  "(dylib \<Rightarrow> string \<Rightarrow> string \<Rightarrow> usize option) \<Rightarrow> elf_library \<Rightarrow> string \<Rightarrow> string \<Rightarrow> (error, usize) res" where
  "elf_library_get_version get_version lib name version =
     (case get_version (el_inner lib) name version of
        Some p \<Rightarrow> Ok p
      | None \<Rightarrow> Err (find_symbol_error (''can not find symbol:'' @ name)))"

section \<open>Opening\<close>

text \<open>A name is text, or a path of the operating system, which has to be UTF-8.\<close>

datatype filename = Text_Name string | Path_Name "u8 list" | Os_Name "u8 list"

fun as_filename :: "filename \<Rightarrow> (error, string) res" where
  "as_filename (Text_Name s) = Ok s"
| "as_filename (Path_Name bytes) = (case from_utf8 bytes of Some s \<Rightarrow> Ok s | None \<Rightarrow> Panic ''Path must be valid UTF-8'')"
| "as_filename (Os_Name bytes) = (case from_utf8 bytes of Some s \<Rightarrow> Ok s | None \<Rightarrow> Panic ''OsStr must be valid UTF-8'')"

definition open_named ::
  "nat \<Rightarrow> nat \<Rightarrow> ('c, 'i) world \<Rightarrow> ('c, 'i, 'l) linker \<Rightarrow> nat \<Rightarrow> filename \<Rightarrow> open_flags \<Rightarrow> u8 list option \<Rightarrow>
     'c manager \<Rightarrow> ((error, elf_library) res \<times> 'c manager) option" where
  "open_named k n w lk t path flags bytes m =
     (case as_filename path of
        Ok path \<Rightarrow> map_option (\<lambda>(r, s). (r, os_manager s)) (dlopen_impl k n w lk t path flags bytes m)
      | Err e \<Rightarrow> Some (Err e, m)
      | Panic p \<Rightarrow> Some (Panic p, m))"

definition elf_dlopen ::
  "nat \<Rightarrow> nat \<Rightarrow> ('c, 'i) world \<Rightarrow> ('c, 'i, 'l) linker \<Rightarrow> nat \<Rightarrow> filename \<Rightarrow> open_flags \<Rightarrow>
     'c manager \<Rightarrow> ((error, elf_library) res \<times> 'c manager) option" where
  "elf_dlopen k n w lk t path flags = open_named k n w lk t path flags None"

definition dlopen_from_binary ::
  "nat \<Rightarrow> nat \<Rightarrow> ('c, 'i) world \<Rightarrow> ('c, 'i, 'l) linker \<Rightarrow> nat \<Rightarrow> u8 list \<Rightarrow> filename \<Rightarrow> open_flags \<Rightarrow>
     'c manager \<Rightarrow> ((error, elf_library) res \<times> 'c manager) option" where
  "dlopen_from_binary k n w lk t bytes path flags = open_named k n w lk t path flags (Some bytes)"

section \<open>Flags of a handle\<close>

text \<open>
  Reopening a library changes what every handle on it reports: its flags are the union of the
  old ones and the promotable flags of the call.
\<close>

lemma handle_flags_promoted:
  assumes "link_context ops ok" "manager_inv ops ok m" "lookup ops m n = Some (Relocated k nm)"
    and "lc_view ops (link_ctx m) k = Some (lib, meta)" "dylib_shortname lib = k" "el_inner h = lib"
  shows "\<exists>h' m'. open_existing ops n f m = Ok (Some h', m') \<and> el_inner h' = lib \<and>
    elf_library_flags ops m' h = elf_library_flags ops m h OR promotable f"
proof -
  from link_context.open_existing_Ok [OF assms(1-3), of f] assms(4) obtain deps m' meta' where
    m': "open_existing ops n f m = Ok (Some \<lparr>el_inner = lib, el_deps = Some (lib # deps)\<rparr>, m')" "manager_inv ops ok m'"
      "lc_view ops (link_ctx m') k = Some (lib, meta')" "gm_flags meta' = gm_flags meta OR promotable f" by auto
  have flags: "elf_library_flags ops m1 h = gm_flags meta1"
    if "manager_inv ops ok m1" "lc_view ops (link_ctx m1) k = Some (lib, meta1)" for m1 meta1
    using link_context.committed_flags_view [OF assms(1), of m1 k] that assms(5,6)
    by (simp add: elf_library_flags_def elf_library_shortname_def manager_flags_def link_context.inv_ctx [OF assms(1)])
  from flags [OF assms(2,4)] flags [OF m'(2,3)] m'(1,4) show ?thesis by auto
qed

end
