(* ===== verification/Spec2Isabelle.thy ===== *)
theory Spec2Isabelle
  imports Registry_Spec Linker_Script Ld_Cache Destructors Symbols Loader Dlopen_Live Rtld_Runtime Rtld_Bootstrap Rtld_Symbols Host_Init Handle
begin

text \<open>
  Verification of rust-dlopen, a dynamic linker written in Rust: the \<open>dlopen\<close> family of
  functions (crate \<open>dlopen-rs\<close>, \<open>src/\<close>) and a replacement for \<open>ld.so\<close> (\<open>rtld/impl/src/\<close>).

  \<^bold>\<open>The program.\<close> \<open>src/core_impl/register.rs\<close> keeps the registry of all libraries (\<open>Manager\<close>)
  behind one lock; \<open>src/api/dlopen.rs\<close> opens a library: it looks for it in the registry, waits
  for another thread that is loading it, searches the file (linker scripts and \<open>ld.so.cache\<close> of
  \<open>src/utils\<close>), reserves its name, lets the linker of \<open>elf_loader\<close> map and relocate it and its
  dependencies, and publishes the result or rolls everything back. \<open>src/core_impl/loader.rs\<close> and
  \<open>src/utils/debug.rs\<close> give a mapped library its user data and tell the debugger;
  \<open>src/api/dlsym.rs\<close>, \<open>dladdr.rs\<close>, \<open>dl_find_object.rs\<close>, \<open>dl_iterate_phdr.rs\<close> answer queries;
  closing a handle unloads what nobody uses and runs the C++ destructors. Inside a process of
  another dynamic linker, \<open>src/host_init.rs\<close> first registers the libraries that are there. The
  replacement for \<open>ld.so\<close> relocates itself, reads the kernel's auxiliary vector, handles its
  command line, publishes its state to the C library and the debugger, opens the program with
  the same code, sets up static TLS and enters the program.

  \<^bold>\<open>Conventions.\<close> Machine words are \<open>w word\<close>s (\<open>Prelude\<close>); fallible code returns
  \<open>('e, 'a) res\<close>, \<open>Ok\<close>, \<open>Err\<close> or \<open>Panic\<close>; memory is a function from addresses to bytes
  (\<open>Memory\<close>); strings are byte sequences, decoded where the code decodes (\<open>Rust_Str\<close>). Code that
  is not in the repository is a parameter: the link context, the linker and the symbol tables
  of \<open>elf_loader\<close>, system calls, the layout of ELF structures, the allocator, other threads.
  What the code relies on of it is a locale (\<open>ordered_map\<close>, \<open>link_context\<close>, \<open>elf_layout\<close>,
  \<open>startup\<close>, \<open>file_calls\<close>, \<open>reliable_calls\<close>) or a named predicate (\<open>linker_ok\<close>, \<open>env_ok\<close>,
  \<open>reads_file\<close>, \<open>mmap_ok\<close>, \<open>unchecked_ok\<close>), with an executable instance.

  \<^bold>\<open>Theories.\<close>
  \<^item> \<open>Prelude\<close>, \<open>Rust_Str\<close>, \<open>Usize\<close>, \<open>Memory\<close>: shared vocabulary. Ordered maps and their
    contract, UTF-8 decoding, checked arithmetic, words in memory, regions and arrays.
  \<^item> \<open>Flags\<close> (\<open>lib.rs\<close>, \<open>error.rs\<close>): open flags and errors.
  \<^item> \<open>Link_Context\<close> (\<open>types.rs\<close>, \<open>loader.rs\<close>): data of a library and the contract of the link
    context. \<open>Registry\<close> (\<open>register.rs\<close>): one definition per method of \<open>Manager\<close>.
    \<open>Registry_Inv\<close>, \<open>Registry_Props\<close>: the invariant (names, aliases, identities, global scope
    and counters agree), kept by every operation, and the registry as a state machine.
    \<open>Registry_Spec\<close>: the properties, with witnesses on an executable link context.
  \<^item> \<open>Dlopen_Path\<close>, \<open>Dlopen\<close>, \<open>Dlopen_Link\<close> (\<open>dlopen.rs\<close>): search paths, the state of a call, the
    resolver, the conversation with the linker, commit and rollback. A call takes its lock and
    gives it up as the code does; between the two, other threads may change the registry (a
    parameter). \<open>Dlopen_Inv\<close>, \<open>Dlopen_Hoare\<close>, \<open>Dlopen_Resolve\<close>, \<open>Dlopen_Run\<close>: ownership of the
    pending entries of a call and a Hoare calculus for it (locales \<open>owned_registry\<close>,
    \<open>dlopen_call\<close>, \<open>linking_call\<close>). \<open>Dlopen_Spec\<close>: a failed call restores the registry, every
    call keeps the invariant and does not panic, reopening. \<open>Dlopen_Live\<close>: waiting, termination
    and order of the search, and two cases that go wrong.
  \<^item> \<open>Linker_Script\<close>, \<open>Ld_Cache\<close> (\<open>utils/\<close>): the two file formats; round trip, binary search
    against a linear scan, absence and presence of panics.
  \<^item> \<open>Symbols\<close> (\<open>dlsym.rs\<close>, \<open>dladdr.rs\<close>, \<open>dl_find_object.rs\<close>, \<open>dl_iterate_phdr.rs\<close>),
    \<open>Destructors\<close> (\<open>register.rs\<close>, \<open>api/mod.rs\<close>), \<open>Debug_List\<close> (\<open>debug.rs\<close>, \<open>abi.rs\<close>),
    \<open>Loader\<close> (\<open>loader.rs\<close>): queries, destructors called exactly once, the debugger's linked list
    as a list, user data of a mapped library.
  \<^item> \<open>Static_Tls\<close> (\<open>rtld.rs\<close>): layout and contents of the static TLS blocks.
    \<open>Startup_Stack\<close>, \<open>Rtld_Relocate\<close> (\<open>bootstrap.rs\<close>): the initial stack and the
    self-relocation. \<open>Mem_Functions\<close> (\<open>memory.rs\<close>): the byte loops and \<open>strlen\<close>.
    \<open>Rtld_Inspect\<close>, \<open>Rtld_Cli\<close> (\<open>cli.rs\<close>): inspecting an ELF file, the command line.
  \<^item> \<open>Rtld_Runtime\<close> (\<open>runtime.rs\<close>, \<open>glibc/v2_39/tls.rs\<close>, \<open>tls.rs\<close>): the page allocator (a
    reallocated block keeps its contents) and the thread control block with its DTV (released
    exactly). \<open>C_Layout\<close>: structures with the layout of C, as the locale \<open>struct_layout\<close>;
    \<open>Rtld_Globals\<close> (\<open>glibc/v2_39/mod.rs\<close>, \<open>globals.rs\<close>): the variables shared with glibc 2.39,
    their sizes and offsets, and that the C library reads back what is published.
  \<^item> \<open>Stage1\<close> (\<open>rtld.rs\<close>): starting a program the kernel mapped or one named by a path, over the
    model of \<open>dlopen\<close>; the registry invariant holds on every outcome. \<open>Rtld_Bootstrap\<close>
    (\<open>bootstrap.rs\<close>): the whole entry function, the outcomes \<open>Enter\<close> and \<open>Exit_Process\<close>, the
    link maps it publishes. \<open>Rtld_Symbols\<close> (\<open>symbols.rs\<close>): functions the C library calls.
  \<^item> \<open>Os_Linux\<close> (\<open>os/linux.rs\<close>): reading files and inodes over system calls. \<open>Host_Init\<close>
    (\<open>host_init.rs\<close>): start-up inside a host process, the recovered dynamic tables and the
    registered libraries. \<open>Handle\<close> (\<open>loader.rs\<close>, \<open>traits.rs\<close>): methods of a handle.

  \<^bold>\<open>Fuel and loops.\<close> Structural and measured recursion wherever the loop is bounded. The resolver
  recurses through linker scripts and waits for threads with a fuel \<open>n\<close> (\<open>None\<close> is running out);
  \<open>resolve_request_terminates\<close> shows that the rank of the scripts plus two is enough, and
  \<open>resolve_request_cyclic_script\<close> that no fuel is enough for a cyclic script. The linker is
  given a number \<open>k\<close> of steps. Loops over memory or files without a bound (\<open>skip_words\<close>,
  \<open>parse_auxv\<close>, \<open>strlen\<close>, \<open>read_loop\<close>, \<open>count_dyn\<close>, \<open>visit_maps\<close>) are partial functions; the
  theorems about \<open>read_file_limit\<close>, \<open>recover_dynamic_table\<close>, the auxiliary vector and the stack
  show that they return.

  \<^bold>\<open>Not modelled.\<close> The interior of \<open>elf_loader\<close> (mapping, relocation, symbol hashing, TLS
  resolver), which is another crate; reference counts beyond the count that \<open>Drop\<close> reads (a
  parameter); logging and \<open>Debug\<close> output; \<open>os/unix.rs\<close>, three calls of \<open>std::fs\<close>, and the
  variants for other architectures than x86-64; that an unmapped address cannot be read; the
  assembly of \<open>rtld/impl/src/arch\<close> and the table of \<open>versions.rs\<close>, which have no behaviour of
  their own; benches, examples, tests and build scripts.
\<close>

end
